(* ===== verification/Prelude.thy ===== *)
theory Prelude
  imports Main "HOL-Library.List_Lexorder" "HOL-Library.Sublist" "HOL-Library.Code_Target_Nat"
begin

text \<open>
  The vocabulary the components share.  A Python \<open>str\<close> is a list of Unicode code
  points (\<open>ustring\<close>), so that \<open>len\<close>, slicing and comparison count what Python
  counts; \<open>lit\<close> turns an Isabelle string literal into one.  The section on strings
  holds the \<open>str\<close> methods and the two \<open>re\<close> constructs the sources use
  (\<open>strip\<close>, \<open>split\<close>, \<open>join\<close>, \<open>partition\<close>, \<open>rpartition\<close>, \<open>lower\<close> on
  ASCII), with the lemmas the components rest on.  The section on keyed rows holds
  lists of rows with a key, which model both SQL tables and Python dictionaries.
  \<open>Code_Target_Nat\<close> lets \<open>code_simp\<close> compute with binary numbers.
\<close>

section \<open>Types\<close>

type_synonym ustring = "nat list"
type_synonym time = int
type_synonym octets = "nat list"

abbreviation lit :: "string \<Rightarrow> ustring" where
  "lit s \<equiv> map of_char s"

named_theorems str_simps \<open>equations of the string library\<close>
named_theorems preserves \<open>operations that keep an invariant\<close>

section \<open>Results\<close>

text \<open>A Python call returns or raises: \<open>Inr\<close> is the value, \<open>Inl\<close> the exception.\<close>

definition is_ok :: "'e + 'a \<Rightarrow> bool" where
  "is_ok r = (case r of Inl _ \<Rightarrow> False | Inr _ \<Rightarrow> True)"

lemma is_ok_simps [simp]: "is_ok (Inr x)" "\<not> is_ok (Inl e)"
  by (simp_all add: is_ok_def)

section \<open>Strings\<close>

subsection \<open>Character classes\<close>

abbreviation slash :: nat where "slash \<equiv> 47"
abbreviation hyphen :: nat where "hyphen \<equiv> 45"
abbreviation dot :: nat where "dot \<equiv> 46"

text \<open>The code points for which \<open>str.isspace\<close> holds, the ones \<open>str.strip()\<close> removes.\<close>

definition is_space :: "nat \<Rightarrow> bool" where
  "is_space c \<longleftrightarrow> (9 \<le> c \<and> c \<le> 13) \<or> (28 \<le> c \<and> c \<le> 32) \<or> c = 133 \<or> c = 160 \<or> c = 5760
     \<or> (8192 \<le> c \<and> c \<le> 8202) \<or> c = 8232 \<or> c = 8233 \<or> c = 8239 \<or> c = 8287 \<or> c = 12288"

text \<open>Evaluation compares an ASCII character with ASCII ones only.\<close>

lemma is_space_code [code]:
  "is_space c \<longleftrightarrow>
     (if c < 128 then (9 \<le> c \<and> c \<le> 13) \<or> (28 \<le> c \<and> c \<le> 32)
      else c = 133 \<or> c = 160 \<or> c = 5760 \<or> (8192 \<le> c \<and> c \<le> 8202) \<or> c = 8232 \<or> c = 8233
        \<or> c = 8239 \<or> c = 8287 \<or> c = 12288)"
  by (auto simp: is_space_def)

text \<open>\<open>str.lower\<close> restricted to ASCII letters; other code points are left alone.\<close>

definition ascii_lower :: "nat \<Rightarrow> nat" where
  "ascii_lower c = (if 65 \<le> c \<and> c \<le> 90 then c + 32 else c)"

subsection \<open>strip\<close>

definition lstrip :: "('a \<Rightarrow> bool) \<Rightarrow> 'a list \<Rightarrow> 'a list" where
  "lstrip P s = dropWhile P s"

definition rstrip :: "('a \<Rightarrow> bool) \<Rightarrow> 'a list \<Rightarrow> 'a list" where
  "rstrip P s = rev (dropWhile P (rev s))"

definition strip :: "('a \<Rightarrow> bool) \<Rightarrow> 'a list \<Rightarrow> 'a list" where
  "strip P s = rstrip P (lstrip P s)"

lemma rstrip_empty [simp]: "rstrip P [] = []"
  by (simp add: rstrip_def)

lemma lstrip_hd: "lstrip P s \<noteq> [] \<Longrightarrow> \<not> P (hd (lstrip P s))"
  by (simp add: lstrip_def hd_dropWhile)

lemma rstrip_last: "rstrip P s \<noteq> [] \<Longrightarrow> \<not> P (last (rstrip P s))"
  using hd_dropWhile [of P "rev s"] by (simp add: rstrip_def last_rev)

lemma prefix_rstrip: "prefix (rstrip P s) s"
proof -
  have "suffix (dropWhile P (rev s)) (rev s)"
    by (rule suffix_dropWhile)
  then show ?thesis by (simp add: rstrip_def suffix_to_prefix)
qed

lemma set_lstrip: "set (lstrip P s) \<subseteq> set s"
  by (auto simp: lstrip_def dest: set_dropWhileD)

lemma set_rstrip: "set (rstrip P s) \<subseteq> set s"
  using prefix_rstrip by (rule set_mono_prefix)

lemma set_strip: "set (strip P s) \<subseteq> set s"
  using set_rstrip [of P "lstrip P s"] set_lstrip [of P s] by (auto simp: strip_def)

lemma rstrip_idem: "s = [] \<or> \<not> P (last s) \<Longrightarrow> rstrip P s = s"
  by (cases s rule: rev_cases) (auto simp: rstrip_def)

lemma lstrip_idem: "s = [] \<or> \<not> P (hd s) \<Longrightarrow> lstrip P s = s"
  by (cases s) (auto simp: lstrip_def)

lemma hd_rstrip: "rstrip P s \<noteq> [] \<Longrightarrow> hd (rstrip P s) = hd s"
  using prefix_rstrip [of P s] by (metis hd_append2 prefix_def)

lemma strip_ends:
  assumes "strip P s \<noteq> []"
  shows "\<not> P (hd (strip P s)) \<and> \<not> P (last (strip P s))"
proof -
  from assms have r: "rstrip P (lstrip P s) \<noteq> []" by (simp add: strip_def)
  then have "lstrip P s \<noteq> []" by auto
  with r show ?thesis
    by (simp add: strip_def hd_rstrip lstrip_hd rstrip_last)
qed

lemma strip_idem_iff: "strip P s = s \<longleftrightarrow> s = [] \<or> (\<not> P (hd s) \<and> \<not> P (last s))"
proof
  assume "strip P s = s"
  then show "s = [] \<or> (\<not> P (hd s) \<and> \<not> P (last s))"
    using strip_ends [of P s] by auto
next
  assume "s = [] \<or> (\<not> P (hd s) \<and> \<not> P (last s))"
  then show "strip P s = s"
    by (auto simp: strip_def lstrip_idem rstrip_idem)
qed

lemma strip_strip [simp]: "strip P (strip P s) = strip P s"
  using strip_ends [of P s] by (auto simp: strip_idem_iff)

lemma strip_id: "s = [] \<or> (\<not> P (hd s) \<and> \<not> P (last s)) \<Longrightarrow> strip P s = s"
  by (simp add: strip_idem_iff)

lemma in_dropWhile: "c \<in> set s \<Longrightarrow> \<not> P c \<Longrightarrow> c \<in> set (dropWhile P s)"
  by (induction s) auto

lemma in_strip: "c \<in> set s \<Longrightarrow> \<not> P c \<Longrightarrow> c \<in> set (strip P s)"
  by (simp add: strip_def lstrip_def rstrip_def in_dropWhile)

subsection \<open>split and join\<close>

text \<open>\<open>s.split(c)\<close> for a one-character separator, and \<open>c.join(xs)\<close>.\<close>

fun split_on :: "'a \<Rightarrow> 'a list \<Rightarrow> 'a list list" where
  "split_on c [] = [[]]"
| "split_on c (x # xs) =
     (if x = c then [] # split_on c xs
      else (case split_on c xs of [] \<Rightarrow> [[x]] | y # ys \<Rightarrow> (x # y) # ys))"

fun join_on :: "'a \<Rightarrow> 'a list list \<Rightarrow> 'a list" where
  "join_on c [] = []"
| "join_on c [x] = x"
| "join_on c (x # y # zs) = x @ c # join_on c (y # zs)"

lemma split_on_nonempty [simp]: "split_on c s \<noteq> []"
  by (induction s) (auto split: list.splits)

lemma join_on_Cons: "xs \<noteq> [] \<Longrightarrow> join_on c (x # xs) = x @ c # join_on c xs"
  by (cases xs) auto

lemma join_on_empty_iff: "join_on c xs = [] \<longleftrightarrow> xs = [] \<or> xs = [[]]"
  by (induction c xs rule: join_on.induct) auto

lemma join_split [str_simps, simp]: "join_on c (split_on c s) = s"
proof (induction s)
  case (Cons x xs)
  obtain y ys where "split_on c xs = y # ys"
    by (cases "split_on c xs") auto
  with Cons show ?case by (cases ys) auto
qed simp

lemma split_append: "c \<notin> set s \<Longrightarrow> split_on c (s @ c # t) = s # split_on c t"
  by (induction s) auto

lemma split_none: "c \<notin> set s \<Longrightarrow> split_on c s = [s]"
  by (induction s) auto

lemma split_join [str_simps]:
  "xs \<noteq> [] \<Longrightarrow> \<forall>x\<in>set xs. c \<notin> set x \<Longrightarrow> split_on c (join_on c xs) = xs"
  by (induction c xs rule: join_on.induct) (auto simp: split_append split_none)

lemma split_no_sep: "x \<in> set (split_on c s) \<Longrightarrow> c \<notin> set x"
  by (induction s arbitrary: x) (auto split: if_splits list.splits)

lemma set_split: "x \<in> set (split_on c s) \<Longrightarrow> set x \<subseteq> set s"
proof (induction s arbitrary: x)
  case (Cons a s)
  then show ?case
    by (cases "split_on c s") (fastforce split: if_splits)+
qed simp

lemma join_on_append:
  "xs \<noteq> [] \<Longrightarrow> ys \<noteq> [] \<Longrightarrow> join_on c (xs @ ys) = join_on c xs @ c # join_on c ys"
  by (induction xs rule: list_nonempty_induct) (auto simp: join_on_Cons)

lemma join_on_inj:
  assumes "join_on c xs = join_on c ys" "xs \<noteq> []" "ys \<noteq> []"
    "\<forall>x\<in>set xs. c \<notin> set x" "\<forall>y\<in>set ys. c \<notin> set y"
  shows "xs = ys"
  using assms by (metis split_join)

subsection \<open>partition\<close>

text \<open>\<open>s.partition(c)\<close> and \<open>s.rpartition(c)\<close> without the middle component, which is
  the separator when it occurs; no source uses it.\<close>

definition partition_on :: "'a \<Rightarrow> 'a list \<Rightarrow> 'a list \<times> 'a list" where
  "partition_on c s = (takeWhile (\<lambda>x. x \<noteq> c) s, tl (dropWhile (\<lambda>x. x \<noteq> c) s))"

definition rpartition_on :: "'a \<Rightarrow> 'a list \<Rightarrow> 'a list \<times> 'a list" where
  "rpartition_on c s =
     (rev (tl (dropWhile (\<lambda>x. x \<noteq> c) (rev s))), rev (takeWhile (\<lambda>x. x \<noteq> c) (rev s)))"

lemma takeWhile_neq_found:
  "c \<notin> set b \<Longrightarrow> takeWhile (\<lambda>x. x \<noteq> c) (b @ c # a) = b"
  "c \<notin> set b \<Longrightarrow> dropWhile (\<lambda>x. x \<noteq> c) (b @ c # a) = c # a"
  by (induction b) auto

lemma takeWhile_neq_missing:
  "c \<notin> set b \<Longrightarrow> takeWhile (\<lambda>x. x \<noteq> c) b = b"
  "c \<notin> set b \<Longrightarrow> dropWhile (\<lambda>x. x \<noteq> c) b = []"
  by (induction b) auto

lemma partition_found: "c \<notin> set a \<Longrightarrow> partition_on c (a @ c # b) = (a, b)"
  by (simp add: partition_on_def takeWhile_neq_found)

lemma partition_missing: "c \<notin> set a \<Longrightarrow> partition_on c a = (a, [])"
  by (simp add: partition_on_def takeWhile_neq_missing)

lemma rpartition_found: "c \<notin> set b \<Longrightarrow> rpartition_on c (a @ c # b) = (a, b)"
  by (simp add: rpartition_on_def takeWhile_neq_found)

lemma rpartition_missing: "c \<notin> set b \<Longrightarrow> rpartition_on c b = ([], b)"
  by (simp add: rpartition_on_def takeWhile_neq_missing)

lemma rpartition_join:
  assumes "\<forall>x\<in>set (xs @ [y]). c \<notin> set x"
  shows "rpartition_on c (join_on c (xs @ [y])) = (join_on c xs, y)"
proof (cases "xs = []")
  case True
  with assms show ?thesis by (simp add: rpartition_missing)
next
  case False
  with assms show ?thesis by (simp add: join_on_append rpartition_found)
qed

section \<open>Sorting by a key\<close>

lemma map_sort_key:
  fixes f :: "'a \<Rightarrow> 'k::linorder"
  assumes "distinct (map f xs)" "\<And>x. x \<in> set xs \<Longrightarrow> g x = h (f x)"
  shows "map g (sort_key f xs) = map h (sorted_list_of_set (f ` set xs))"
proof -
  have "map f (sort_key f xs) = sorted_list_of_set (f ` set xs)"
  proof (rule sorted_distinct_set_unique)
    show "distinct (map f (sort_key f xs))" using assms(1) by (simp add: distinct_map)
  qed simp_all
  moreover have "map g (sort_key f xs) = map h (map f (sort_key f xs))" using assms(2) by simp
  ultimately show ?thesis by simp
qed

end
