(* ===== verification/Rows.thy ===== *)
theory Rows
  imports Prelude
begin

text \<open>
  Lists of rows with a key: what an SQL table with a primary key and a Python dictionary
  (in insertion order) both are.  \<open>row_with\<close> selects by key, \<open>update_rows\<close> and
  \<open>delete_rows\<close> act on the rows a condition selects; insertion appends.  The collection
  \<open>row_simps\<close> says what a selection finds after each of them.
\<close>

named_theorems row_simps \<open>selection after an update, a deletion or an insertion\<close>

definition row_with :: "('r \<Rightarrow> 'k) \<Rightarrow> 'k \<Rightarrow> 'r list \<Rightarrow> 'r option" where
  "row_with key k rows = find (\<lambda>r. key r = k) rows"

definition update_rows :: "('r \<Rightarrow> bool) \<Rightarrow> ('r \<Rightarrow> 'r) \<Rightarrow> 'r list \<Rightarrow> 'r list" where
  "update_rows P f rows = map (\<lambda>r. if P r then f r else r) rows"

definition delete_rows :: "('r \<Rightarrow> bool) \<Rightarrow> 'r list \<Rightarrow> 'r list" where
  "delete_rows P rows = filter (\<lambda>r. \<not> P r) rows"

lemma row_with_Nil [simp]: "row_with key k [] = None"
  by (simp add: row_with_def)

lemma row_with_Cons [simp]: "row_with key k (r # rows) = (if key r = k then Some r else row_with key k rows)"
  by (simp add: row_with_def)

lemma row_with_SomeD: "row_with key k rows = Some r \<Longrightarrow> r \<in> set rows \<and> key r = k"
  by (induction rows) (auto split: if_splits)

lemma row_with_None: "row_with key k rows = None \<longleftrightarrow> k \<notin> key ` set rows"
  by (induction rows) auto

lemma row_with_Some_key: "row_with key k rows = Some r \<Longrightarrow> k \<in> key ` set rows"
  by (metis row_with_None option.distinct(1))

lemma row_with_unique:
  "distinct (map key rows) \<Longrightarrow> r \<in> set rows \<Longrightarrow> row_with key (key r) rows = Some r"
  by (induction rows) (auto simp: rev_image_eqI)

lemma row_with_iff:
  "distinct (map key rows) \<Longrightarrow> row_with key k rows = Some r \<longleftrightarrow> r \<in> set rows \<and> key r = k"
  by (auto dest: row_with_unique row_with_SomeD)

lemma row_with_append [row_simps]:
  "row_with key k (rows @ [r]) =
     (case row_with key k rows of Some r' \<Rightarrow> Some r' | None \<Rightarrow> if key r = k then Some r else None)"
  by (induction rows) auto

lemma row_with_update [row_simps]:
  "(\<And>r. key (f r) = key r) \<Longrightarrow> row_with key k (update_rows P f rows) =
     map_option (\<lambda>r. if P r then f r else r) (row_with key k rows)"
  by (induction rows) (auto simp: update_rows_def)

lemma row_with_delete [row_simps]:
  "distinct (map key rows) \<Longrightarrow> row_with key k (delete_rows P rows) =
     (case row_with key k rows of None \<Rightarrow> None | Some r \<Rightarrow> if P r then None else Some r)"
proof (induction rows)
  case (Cons a rows)
  then show ?case
    by (auto simp: delete_rows_def row_with_None dest: row_with_Some_key split: option.splits)
qed (simp add: delete_rows_def)

lemma set_update_rows: "set (update_rows P f rows) = (\<lambda>r. if P r then f r else r) ` set rows"
  by (simp add: update_rows_def)

lemma set_delete_rows [simp]: "set (delete_rows P rows) = {r \<in> set rows. \<not> P r}"
  by (auto simp: delete_rows_def)

lemma map_update_rows [simp]: "(\<And>r. key (f r) = key r) \<Longrightarrow> map key (update_rows P f rows) = map key rows"
  by (simp add: update_rows_def)

lemma image_update_rows [simp]:
  "(\<And>r. key (f r) = key r) \<Longrightarrow> key ` set (update_rows P f rows) = key ` set rows"
  by (metis list.set_map map_update_rows)

lemma distinct_delete_rows: "distinct (map key rows) \<Longrightarrow> distinct (map key (delete_rows P rows))"
  by (simp add: delete_rows_def distinct_map_filter)

lemma length_update_rows [simp]: "length (update_rows P f rows) = length rows"
  by (simp add: update_rows_def)

lemma delete_rows_single:
  "distinct (map key rows) \<Longrightarrow> r \<in> set rows \<Longrightarrow>
     Suc (length (delete_rows (\<lambda>x. key x = key r) rows)) = length rows"
proof (induction rows)
  case (Cons a rows)
  show ?case
  proof (cases "key a = key r")
    case True
    with Cons.prems have "\<forall>x\<in>set rows. key x \<noteq> key r" by (metis distinct.simps(2) image_eqI list.set_map list.simps(9))
    then show ?thesis using True by (simp add: delete_rows_def filter_id_conv)
  qed (use Cons in \<open>auto simp: delete_rows_def\<close>)
qed simp

lemma delete_rows_none: "\<forall>r\<in>set rows. \<not> P r \<Longrightarrow> delete_rows P rows = rows"
  by (simp add: delete_rows_def filter_id_conv)

end
