(* ===== verification/Scopes.thy ===== *)
theory Scopes
  imports Prelude
begin

text \<open>
  Token types, permission tiers and the access decision: \<open>src/paper_boxing/common/scopes.py\<close>
  and \<open>Access\<close> and \<open>access_allows\<close> of \<open>src/paper_boxing/common/routes.py\<close>.  Scopes are
  ordered by their tier, as the class \<open>linorder\<close>.
\<close>

datatype scope = READ_ONLY | READ_WRITE | REMOVE_DESTRUCTIVE

datatype token_type = SESSION | AGENT

text \<open>The texts the members are, in JSON and in the database.\<close>

fun scope_value :: "scope \<Rightarrow> ustring" where
  "scope_value READ_ONLY = lit ''read_only''"
| "scope_value READ_WRITE = lit ''read_write''"
| "scope_value REMOVE_DESTRUCTIVE = lit ''remove_destructive''"

fun type_value :: "token_type \<Rightarrow> ustring" where
  "type_value SESSION = lit ''session''"
| "type_value AGENT = lit ''agent''"

definition scope_of :: "ustring \<Rightarrow> scope option" where
  "scope_of s = find (\<lambda>m. scope_value m = s) [READ_ONLY, READ_WRITE, REMOVE_DESTRUCTIVE]"

definition type_of :: "ustring \<Rightarrow> token_type option" where
  "type_of s = find (\<lambda>m. type_value m = s) [SESSION, AGENT]"

lemma value_round_trip [simp]: "scope_of (scope_value m) = Some m" "type_of (type_value t) = Some t"
  by (cases m; simp add: scope_of_def) (cases t; simp add: type_of_def)

lemma type_value_eq [simp]: "type_value t = type_value t' \<longleftrightarrow> t = t'"
  by (metis value_round_trip(2) option.inject)

fun SCOPE_TIER :: "scope \<Rightarrow> nat" where
  "SCOPE_TIER READ_ONLY = 0"
| "SCOPE_TIER READ_WRITE = 1"
| "SCOPE_TIER REMOVE_DESTRUCTIVE = 2"

definition SESSION_SCOPE :: scope where "SESSION_SCOPE = REMOVE_DESTRUCTIVE"

definition scope_allows :: "scope \<Rightarrow> scope \<Rightarrow> bool" where
  "scope_allows held required \<longleftrightarrow> SCOPE_TIER held \<ge> SCOPE_TIER required"

instantiation scope :: linorder
begin

definition less_eq_scope :: "scope \<Rightarrow> scope \<Rightarrow> bool" where
  "less_eq_scope a b \<longleftrightarrow> SCOPE_TIER a \<le> SCOPE_TIER b"

definition less_scope :: "scope \<Rightarrow> scope \<Rightarrow> bool" where
  "less_scope a b \<longleftrightarrow> SCOPE_TIER a < SCOPE_TIER b"

instance
proof
  fix x y z :: scope
  show "(x < y) = (x \<le> y \<and> \<not> y \<le> x)" by (auto simp: less_scope_def less_eq_scope_def)
  show "x \<le> x" by (simp add: less_eq_scope_def)
  show "x \<le> y \<Longrightarrow> y \<le> z \<Longrightarrow> x \<le> z" by (simp add: less_eq_scope_def)
  show "x \<le> y \<Longrightarrow> y \<le> x \<Longrightarrow> x = y" by (cases x; cases y) (simp_all add: less_eq_scope_def)
  show "x \<le> y \<or> y \<le> x" by (auto simp: less_eq_scope_def)
qed

end

lemma scope_allows_iff: "scope_allows held required \<longleftrightarrow> required \<le> held"
  by (simp add: scope_allows_def less_eq_scope_def)

lemma SESSION_SCOPE_top [simp]: "s \<le> SESSION_SCOPE"
  by (cases s) (simp_all add: SESSION_SCOPE_def less_eq_scope_def)

section \<open>Who may call a route\<close>

datatype access =
    PUBLIC \<comment> \<open>no token\<close>
  | ANY_TOKEN \<comment> \<open>any valid token, whatever its scope\<close>
  | NEEDS_READ_ONLY | NEEDS_READ_WRITE | NEEDS_REMOVE_DESTRUCTIVE \<comment> \<open>a token of at least this scope\<close>
  | SESSION_ONLY \<comment> \<open>a session token only\<close>

text \<open>\<open>Scope(access.value)\<close>: the conversion fails for the three values that name no scope.\<close>

fun scope_of_access :: "access \<Rightarrow> scope option" where
  "scope_of_access NEEDS_READ_ONLY = Some READ_ONLY"
| "scope_of_access NEEDS_READ_WRITE = Some READ_WRITE"
| "scope_of_access NEEDS_REMOVE_DESTRUCTIVE = Some REMOVE_DESTRUCTIVE"
| "scope_of_access _ = None"

definition access_allows :: "access \<Rightarrow> token_type option \<Rightarrow> scope option \<Rightarrow> bool" where
  "access_allows access token_type scope =
     (if access = PUBLIC then True
      else case token_type of None \<Rightarrow> False
      | Some ty \<Rightarrow> (case scope of None \<Rightarrow> False
        | Some held \<Rightarrow>
            if access = ANY_TOKEN then True
            else if access = SESSION_ONLY then ty = SESSION
            else (case scope_of_access access of
                    None \<Rightarrow> False
                  | Some required \<Rightarrow> scope_allows held required)))"

lemma scope_of_access_total:
  "access \<noteq> PUBLIC \<Longrightarrow> access \<noteq> ANY_TOKEN \<Longrightarrow> access \<noteq> SESSION_ONLY \<Longrightarrow> scope_of_access access \<noteq> None"
  by (cases access) simp_all

lemma access_allows_token:
  "access_allows access (Some ty) (Some held) \<longleftrightarrow>
     access = PUBLIC \<or> access = ANY_TOKEN \<or> (access = SESSION_ONLY \<and> ty = SESSION)
     \<or> (\<exists>required. scope_of_access access = Some required \<and> required \<le> held)"
  by (cases access) (auto simp: access_allows_def scope_allows_iff)

lemma access_allows_none:
  "access_allows access None sc \<longleftrightarrow> access = PUBLIC" "access_allows access ty None \<longleftrightarrow> access = PUBLIC"
  by (auto simp: access_allows_def split: option.splits)

text \<open>
  The access decision is monotone in the scope: a token that may call a route may still
  call it when its scope is raised, and a session, which holds the top scope, may call every
  route, including the session-only ones that no agent token may call whatever its scope.
\<close>

theorem access_allows_mono:
  assumes "access_allows access (Some ty) (Some held)" and "held \<le> held'"
  shows "access_allows access (Some ty) (Some held') \<and> access_allows access (Some SESSION) (Some SESSION_SCOPE)
    \<and> \<not> access_allows SESSION_ONLY (Some AGENT) (Some held')"
  using assms order_trans by (cases access) (auto simp: access_allows_token)

theorem access_allows_mono_witness:
  "access_allows NEEDS_READ_ONLY (Some AGENT) (Some READ_ONLY)
   \<and> access_allows NEEDS_READ_ONLY (Some AGENT) (Some READ_WRITE)"
proof -
  have h: "access_allows NEEDS_READ_ONLY (Some AGENT) (Some READ_ONLY)" by code_simp
  have "READ_ONLY \<le> READ_WRITE" by (simp add: less_eq_scope_def)
  from h access_allows_mono [OF h this] show ?thesis by simp
qed

end
