(* ===== verification/Codecs.thy ===== *)
theory Codecs
  imports Prelude
begin

text \<open>
  What the sources take from the Python standard library to read and write text:
  \<open>str.encode("utf-8")\<close> (\<open>utf8_encode\<close>; \<open>None\<close> where Python raises
  \<open>UnicodeEncodeError\<close>, a lone surrogate) and \<open>urllib.parse.quote\<close> (\<open>quote\<close>).
  \<open>unquote_to_bytes\<close> is the inverse a server applies; with the injectivity of UTF-8 it
  gives that quoting loses nothing.  \<open>python_int\<close> is \<open>int\<close> on a text; digits of other scripts,
  which \<open>int\<close> also reads, are not modelled.
\<close>

section \<open>UTF-8\<close>

definition utf8_char :: "nat \<Rightarrow> octets option" where
  "utf8_char c =
     (if c < 128 then Some [c]
      else if c < 2048 then Some [192 + c div 64, 128 + c mod 64]
      else if 55296 \<le> c \<and> c \<le> 57343 then None
      else if c < 65536 then Some [224 + c div 4096, 128 + (c div 64) mod 64, 128 + c mod 64]
      else if c < 1114112 then
        Some [240 + c div 262144, 128 + (c div 4096) mod 64, 128 + (c div 64) mod 64, 128 + c mod 64]
      else None)"

fun utf8_encode :: "ustring \<Rightarrow> octets option" where
  "utf8_encode [] = Some []"
| "utf8_encode (c # cs) =
     (case utf8_char c of
        None \<Rightarrow> None
      | Some b \<Rightarrow> (case utf8_encode cs of None \<Rightarrow> None | Some bs \<Rightarrow> Some (b @ bs)))"

lemma utf8_char_bytes: "utf8_char c = Some b \<Longrightarrow> x \<in> set b \<Longrightarrow> x < 256"
  by (auto simp: utf8_char_def split: if_splits)

lemma utf8_encode_bytes: "utf8_encode s = Some b \<Longrightarrow> x \<in> set b \<Longrightarrow> x < 256"
  by (induction s arbitrary: b) (auto dest: utf8_char_bytes split: option.splits)

lemma utf8_encode_append:
  "utf8_encode (s @ t) =
     (case utf8_encode s of None \<Rightarrow> None
      | Some a \<Rightarrow> (case utf8_encode t of None \<Rightarrow> None | Some b \<Rightarrow> Some (a @ b)))"
  by (induction s) (auto split: option.splits)

lemma utf8_ascii: "\<forall>c\<in>set s. c < 128 \<Longrightarrow> utf8_encode s = Some s"
  by (induction s) (auto simp: utf8_char_def)

lemma utf8_encode_length: "utf8_encode s = Some b \<Longrightarrow> length s \<le> length b"
  by (induction s arbitrary: b)
    (fastforce simp: utf8_char_def split: option.splits if_splits)+

text \<open>
  The first byte of a character's encoding tells its length, and the bytes determine the
  character: a decoder for one character, and from it the injectivity of the encoding.
\<close>

fun utf8_decode1 :: "octets \<Rightarrow> (nat \<times> octets) option" where
  "utf8_decode1 [] = None"
| "utf8_decode1 (a # r) =
     (if a < 128 then Some (a, r)
      else if a < 224 then (case r of x # r' \<Rightarrow> Some ((a - 192) * 64 + (x - 128), r') | _ \<Rightarrow> None)
      else if a < 240 then
        (case r of x # y # r' \<Rightarrow> Some ((a - 224) * 4096 + (x - 128) * 64 + (y - 128), r') | _ \<Rightarrow> None)
      else
        (case r of x # y # z # r' \<Rightarrow>
           Some ((a - 240) * 262144 + (x - 128) * 4096 + (y - 128) * 64 + (z - 128), r') | _ \<Rightarrow> None))"

lemma digits64_2: "(c::nat) div 4096 * 4096 + (c div 64) mod 64 * 64 + c mod 64 = c"
proof -
  have "c div 4096 = c div 64 div 64" by (simp add: div_mult2_eq [symmetric])
  then show ?thesis
    using div_mult_mod_eq [of c 64] div_mult_mod_eq [of "c div 64" 64] by linarith
qed

lemma digits64_3:
  "(c::nat) div 262144 * 262144 + (c div 4096) mod 64 * 4096 + (c div 64) mod 64 * 64 + c mod 64 = c"
proof -
  have "c div 262144 = c div 4096 div 64" by (simp add: div_mult2_eq [symmetric])
  then show ?thesis
    using digits64_2 [of c] div_mult_mod_eq [of "c div 4096" 64] by linarith
qed

lemmas digits64 = digits64_2 digits64_3

lemma lead_bounds: "(c::nat) < 2048 \<Longrightarrow> c div 64 < 32" "(c::nat) < 65536 \<Longrightarrow> c div 4096 < 16"
  by (simp_all add: div_less_iff_less_mult)

lemma decode1_lead:
  "a < 128 \<Longrightarrow> utf8_decode1 (a # r) = Some (a, r)"
  "a < 32 \<Longrightarrow> utf8_decode1 ((192 + a) # (128 + x) # r) = Some (a * 64 + x, r)"
  "a < 16 \<Longrightarrow> utf8_decode1 ((224 + a) # (128 + x) # (128 + y) # r) = Some (a * 4096 + x * 64 + y, r)"
  "utf8_decode1 ((240 + a) # (128 + x) # (128 + y) # (128 + z) # r) = Some (a * 262144 + x * 4096 + y * 64 + z, r)"
  by simp_all

lemma utf8_decode1_encode: "utf8_char c = Some b \<Longrightarrow> utf8_decode1 (b @ r) = Some (c, r)"
  by (auto simp: utf8_char_def decode1_lead lead_bounds digits64 simp del: utf8_decode1.simps split: if_splits)

lemma utf8_char_nonempty: "utf8_char c = Some b \<Longrightarrow> b \<noteq> []"
  by (auto simp: utf8_char_def split: if_splits)

lemma utf8_encode_inj:
  "utf8_encode s = Some b \<Longrightarrow> utf8_encode t = Some b \<Longrightarrow> s = t"
proof (induction s arbitrary: t b)
  case Nil
  then show ?case
    by (cases t) (auto dest: utf8_char_nonempty split: option.splits)
next
  case (Cons c s)
  then obtain x y where xy: "utf8_char c = Some x" "utf8_encode s = Some y" "b = x @ y"
    by (auto split: option.splits)
  then have "t \<noteq> []" using Cons.prems(2) by (auto dest: utf8_char_nonempty)
  then obtain d t' where t: "t = d # t'" by (cases t) auto
  then obtain x' y' where xy': "utf8_char d = Some x'" "utf8_encode t' = Some y'" "b = x' @ y'"
    using Cons.prems(2) by (auto split: option.splits)
  from utf8_decode1_encode [OF xy(1), of y] utf8_decode1_encode [OF xy'(1), of y']
  have "c = d" "y = y'" using xy(3) xy'(3) by auto
  with Cons.IH xy xy' t show ?case by auto
qed

section \<open>Percent-encoding\<close>

text \<open>\<open>quote(s, safe=...)\<close>: the always-safe set is \<open>_ALWAYS_SAFE\<close> of \<open>urllib.parse\<close>.\<close>

definition hex_upper :: "nat \<Rightarrow> nat" where
  "hex_upper n = (if n < 10 then 48 + n else 55 + n)"

definition always_safe :: "nat \<Rightarrow> bool" where
  "always_safe b \<longleftrightarrow> (65 \<le> b \<and> b \<le> 90) \<or> (97 \<le> b \<and> b \<le> 122) \<or> (48 \<le> b \<and> b \<le> 57)
     \<or> b = 95 \<or> b = 46 \<or> b = 45 \<or> b = 126"

definition quote_byte :: "ustring \<Rightarrow> nat \<Rightarrow> ustring" where
  "quote_byte safe b =
     (if always_safe b \<or> b \<in> set safe then [b] else [37, hex_upper (b div 16), hex_upper (b mod 16)])"

definition quote :: "ustring \<Rightarrow> ustring \<Rightarrow> ustring option" where
  "quote safe s = map_option (\<lambda>bs. concat (map (quote_byte safe) bs)) (utf8_encode s)"

definition hex_value :: "nat \<Rightarrow> nat" where
  "hex_value c = (if c \<le> 57 then c - 48 else c - 55)"

fun unquote_to_bytes :: "ustring \<Rightarrow> octets" where
  "unquote_to_bytes [] = []"
| "unquote_to_bytes (c # cs) =
     (if c = 37 then
        (case cs of h # l # r \<Rightarrow> (hex_value h * 16 + hex_value l) # unquote_to_bytes r | _ \<Rightarrow> c # cs)
      else c # unquote_to_bytes cs)"

lemma hex_value_upper: "n < 16 \<Longrightarrow> hex_value (hex_upper n) = n"
  by (auto simp: hex_value_def hex_upper_def)

lemma hex_upper_range: "n < 16 \<Longrightarrow> (48 \<le> hex_upper n \<and> hex_upper n \<le> 57) \<or> (65 \<le> hex_upper n \<and> hex_upper n \<le> 70)"
  by (auto simp: hex_upper_def)

lemma unquote_quote_byte:
  assumes "b < 256" "37 \<notin> set safe"
  shows "unquote_to_bytes (quote_byte safe b @ r) = b # unquote_to_bytes r"
proof -
  have "b div 16 < 16" using assms(1) by auto
  then have "hex_value (hex_upper (b div 16)) * 16 + hex_value (hex_upper (b mod 16)) = b"
    by (simp add: hex_value_upper)
  moreover have "always_safe b \<Longrightarrow> b \<noteq> 37" by (auto simp: always_safe_def)
  ultimately show ?thesis using assms(2) by (auto simp: quote_byte_def)
qed

lemma unquote_quote_bytes:
  "\<forall>b\<in>set bs. b < 256 \<Longrightarrow> 37 \<notin> set safe \<Longrightarrow>
     unquote_to_bytes (concat (map (quote_byte safe) bs)) = bs"
  by (induction bs) (auto simp: unquote_quote_byte)

lemma unquote_quote:
  assumes "quote safe s = Some q" "37 \<notin> set safe"
  shows "utf8_encode s = Some (unquote_to_bytes q)"
proof -
  from assms(1) obtain bs where bs: "utf8_encode s = Some bs" "q = concat (map (quote_byte safe) bs)"
    by (auto simp: quote_def)
  then have "\<forall>b\<in>set bs. b < 256" using utf8_encode_bytes by blast
  with bs assms(2) show ?thesis by (simp add: unquote_quote_bytes)
qed

lemma quote_inj:
  "quote safe s = Some q \<Longrightarrow> quote safe t = Some q \<Longrightarrow> 37 \<notin> set safe \<Longrightarrow> s = t"
  by (metis unquote_quote utf8_encode_inj)

lemma quote_byte_chars:
  "b < 256 \<Longrightarrow> c \<in> set (quote_byte safe b) \<Longrightarrow> always_safe c \<or> c \<in> set safe \<or> c = 37"
proof -
  assume b: "b < 256" and c: "c \<in> set (quote_byte safe b)"
  have hex: "always_safe (hex_upper n)" if "n < 16" for n
    using hex_upper_range [OF that] by (auto simp: always_safe_def)
  have "always_safe (hex_upper (b div 16))" "always_safe (hex_upper (b mod 16))"
    using b by (auto intro: hex)
  with c show ?thesis by (auto simp: quote_byte_def split: if_splits)
qed

lemma quote_chars:
  assumes "quote safe s = Some q" "c \<in> set q"
  shows "always_safe c \<or> c \<in> set safe \<or> c = 37"
proof -
  from assms obtain bs b where bs: "utf8_encode s = Some bs" "b \<in> set bs" "c \<in> set (quote_byte safe b)"
    by (auto simp: quote_def)
  then have "b < 256" using utf8_encode_bytes by blast
  with bs show ?thesis using quote_byte_chars by blast
qed

lemma quote_empty_safe_no_slash: "quote [] s = Some q \<Longrightarrow> slash \<notin> set q"
  using quote_chars [of "[]" s q slash] by (auto simp: always_safe_def)

section \<open>Integers\<close>

text \<open>
  \<open>int(raw)\<close> of a text: white space around it, one sign, and ASCII digits with single
  underscores between them, at most 4300 of them; \<open>None\<close> where it raises.
\<close>

definition digit :: "nat \<Rightarrow> bool" where "digit c \<longleftrightarrow> 48 \<le> c \<and> c \<le> 57"

definition decimal :: "ustring \<Rightarrow> int option" where
  "decimal s =
     (if list_all (\<lambda>run. run \<noteq> [] \<and> list_all digit run) (split_on 95 s) \<and> length (filter digit s) \<le> 4300
      then Some (foldl (\<lambda>n c. 10 * n + int (c - 48)) 0 (filter digit s)) else None)"

definition python_int :: "ustring \<Rightarrow> int option" where
  "python_int raw =
     (let s = strip is_space raw in
      if take 1 s = [hyphen] then map_option uminus (decimal (drop 1 s))
      else if take 1 s = [43] then decimal (drop 1 s) else decimal s)"

end
