(* ===== verification/Contract.thy ===== *)
theory Contract
  imports Scopes Codecs
begin

text \<open>
  The REST contract the components share: the error codes and what every exception is
  answered with (\<open>common/errors.py\<close>, \<open>ErrorCode\<close> of \<open>common/schema.py\<close>, the handler for
  a full volume in \<open>backend/app.py\<close>), the request bodies' validation and the response
  bodies (\<open>common/schema.py\<close>), and the route table with the URLs built from it
  (\<open>common/routes.py\<close>).  Message texts are not modelled; statuses and codes are.
\<close>

section \<open>Errors\<close>

datatype error_code =
    INVALID_NAME | INVALID_PATH | CONFIRM_MISMATCH | BAD_REQUEST
  | UNAUTHORIZED | INVALID_CREDENTIALS
  | FORBIDDEN | SESSION_REQUIRED | WRONG_PASSWORD | WRONG_TOKEN_TYPE
  | NOT_FOUND
  | METHOD_NOT_ALLOWED
  | SITE_EXISTS | FILE_EXISTS | FOLDER_NOT_EMPTY | NOT_A_FILE | NOT_A_FOLDER | USER_EXISTS | LAST_USER
  | PAYLOAD_TOO_LARGE
  | VALIDATION_ERROR
  | INTERNAL_ERROR | INSUFFICIENT_STORAGE
  | BACKEND_UNREACHABLE

text \<open>The status each code is paired with, the comments that group the enumeration.\<close>

fun status_of :: "error_code \<Rightarrow> nat" where
  "status_of INVALID_NAME = 400" | "status_of INVALID_PATH = 400"
| "status_of CONFIRM_MISMATCH = 400" | "status_of BAD_REQUEST = 400"
| "status_of UNAUTHORIZED = 401" | "status_of INVALID_CREDENTIALS = 401"
| "status_of FORBIDDEN = 403" | "status_of SESSION_REQUIRED = 403"
| "status_of WRONG_PASSWORD = 403" | "status_of WRONG_TOKEN_TYPE = 403"
| "status_of NOT_FOUND = 404"
| "status_of METHOD_NOT_ALLOWED = 405"
| "status_of SITE_EXISTS = 409" | "status_of FILE_EXISTS = 409" | "status_of FOLDER_NOT_EMPTY = 409"
| "status_of NOT_A_FILE = 409" | "status_of NOT_A_FOLDER = 409" | "status_of USER_EXISTS = 409"
| "status_of LAST_USER = 409"
| "status_of PAYLOAD_TOO_LARGE = 413"
| "status_of VALIDATION_ERROR = 422"
| "status_of INTERNAL_ERROR = 500" | "status_of INSUFFICIENT_STORAGE = 507"
| "status_of BACKEND_UNREACHABLE = 503"

datatype os_errno = ENOSPC | EDQUOT | EEXIST | ENOTDIR | ENOENT

text \<open>
  What a request may raise: the contract's own \<open>ApiError\<close>, the framework's validation and
  HTTP errors, the database layer's \<open>Conflict\<close>, SQLite's \<open>IntegrityError\<close> (a constraint)
  and \<open>OperationalError\<close> (a full disk, a lock timeout), an \<open>OSError\<close>, the client going
  away while its body is read, and three of Python's own.
\<close>

datatype exn =
    ApiError nat error_code
  | RequestValidationError
  | HTTPException nat
  | Conflict | IntegrityError | OperationalError
  | OSErr os_errno
  | ClientDisconnect
  | UnicodeEncodeError | ValueError | KeyError

text \<open>\<open>_STATUS_CODES\<close> and the handler of the framework's own HTTP errors.\<close>

definition STATUS_CODES :: "(nat \<times> error_code) list" where
  "STATUS_CODES =
     [(400, BAD_REQUEST), (401, UNAUTHORIZED), (403, FORBIDDEN), (404, NOT_FOUND),
      (405, METHOD_NOT_ALLOWED), (413, PAYLOAD_TOO_LARGE), (422, VALIDATION_ERROR),
      (507, INSUFFICIENT_STORAGE)]"

definition http_error_code :: "nat \<Rightarrow> error_code" where
  "http_error_code status =
     (case map_of STATUS_CODES status of
        Some code \<Rightarrow> code
      | None \<Rightarrow> if status < 500 then BAD_REQUEST else INTERNAL_ERROR)"

definition STORAGE_FULL :: "os_errno \<Rightarrow> bool" where
  "STORAGE_FULL e \<longleftrightarrow> e = ENOSPC \<or> e = EDQUOT"

text \<open>The status and code of the answer to an exception that leaves a route.\<close>

fun error_answer :: "exn \<Rightarrow> nat \<times> error_code" where
  "error_answer (ApiError status code) = (status, code)"
| "error_answer RequestValidationError = (422, VALIDATION_ERROR)"
| "error_answer (HTTPException status) = (status, http_error_code status)"
| "error_answer (OSErr e) =
     (if STORAGE_FULL e then (507, INSUFFICIENT_STORAGE) else (500, INTERNAL_ERROR))"
| "error_answer _ = (500, INTERNAL_ERROR)"

text \<open>An exception that carries the status the contract pairs with its code.\<close>

fun in_contract :: "exn \<Rightarrow> bool" where
  "in_contract (ApiError status code) \<longleftrightarrow> status = status_of code \<and> code \<noteq> BACKEND_UNREACHABLE \<and> code \<noteq> WRONG_TOKEN_TYPE"
| "in_contract (HTTPException status) \<longleftrightarrow> status \<in> fst ` set STATUS_CODES"
| "in_contract _ \<longleftrightarrow> True"

lemma error_answer_paired: "in_contract e \<Longrightarrow> fst (error_answer e) = status_of (snd (error_answer e))"
  by (cases e) (auto simp: STATUS_CODES_def http_error_code_def)

section \<open>Request bodies\<close>

text \<open>The fields' constraints; \<open>len\<close> counts code points.\<close>

definition valid_login :: "ustring \<Rightarrow> ustring \<Rightarrow> bool" where
  "valid_login username password \<longleftrightarrow> 1 \<le> length username \<and> length username \<le> 64 \<and> 1 \<le> length password"

definition valid_site_name :: "ustring \<Rightarrow> bool" where
  "valid_site_name name \<longleftrightarrow> 1 \<le> length name \<and> length name \<le> 120"

definition valid_token_name :: "ustring \<Rightarrow> bool" where
  "valid_token_name name \<longleftrightarrow> 1 \<le> length name \<and> length name \<le> 120"

definition ascii_alnum :: "nat \<Rightarrow> bool" where
  "ascii_alnum c \<longleftrightarrow> (65 \<le> c \<and> c \<le> 90) \<or> (97 \<le> c \<and> c \<le> 122) \<or> (48 \<le> c \<and> c \<le> 57)"

text \<open>
  \<open>^[A-Za-z0-9][A-Za-z0-9._-]*$\<close>, matched by pydantic's own regex engine, in which \<open>$\<close> is
  the end of the text only.
\<close>

definition username_pattern :: "ustring \<Rightarrow> bool" where
  "username_pattern s \<longleftrightarrow> s \<noteq> [] \<and> ascii_alnum (hd s)
     \<and> list_all (\<lambda>c. ascii_alnum c \<or> c = dot \<or> c = 95 \<or> c = hyphen) (tl s)"

definition valid_new_user :: "ustring \<Rightarrow> ustring \<Rightarrow> bool" where
  "valid_new_user username password \<longleftrightarrow>
     1 \<le> length username \<and> length username \<le> 64 \<and> username_pattern username \<and> 8 \<le> length password"

definition valid_password_change :: "ustring \<Rightarrow> ustring \<Rightarrow> bool" where
  "valid_password_change current new \<longleftrightarrow> 1 \<le> length current \<and> 8 \<le> length new"

section \<open>Response bodies\<close>

record user_out =
  uo_id :: ustring
  uo_username :: ustring
  uo_created_at :: time

record site_out =
  so_slug :: ustring
  so_name :: ustring
  so_url :: ustring
  so_created_at :: time
  so_file_count :: nat
  so_bytes :: nat

datatype entry_type = FILE | FOLDER

record file_entry =
  fe_name :: ustring
  fe_type :: entry_type
  fe_bytes :: nat
  fe_modified_at :: time
  fe_sha256 :: "ustring option"

record file_listing =
  fl_site :: ustring
  fl_path :: ustring
  fl_entries :: "file_entry list"

record upload_result =
  ur_path :: ustring
  ur_bytes :: nat
  ur_sha256 :: ustring
  ur_replaced :: bool

record token_out =
  to_id :: ustring
  to_name :: ustring
  to_type :: token_type
  to_scope :: scope
  to_username :: ustring
  to_created_at :: time
  to_last_used_at :: "time option"
  to_expires_at :: "time option"

record token_self_out =
  ts_id :: ustring
  ts_name :: ustring
  ts_type :: token_type
  ts_scope :: scope
  ts_username :: ustring
  ts_expires_at :: "time option"

section \<open>The route table\<close>

datatype http_method = GET | POST | PUT | DELETE

record route_spec =
  rs_name :: ustring
  rs_method :: http_method
  rs_path :: ustring
  rs_access :: access

definition API_PREFIX :: ustring where "API_PREFIX = lit ''/api/v1''"

abbreviation mk_route :: "string \<Rightarrow> http_method \<Rightarrow> string \<Rightarrow> access \<Rightarrow> route_spec" where
  "mk_route n m p a \<equiv> \<lparr>rs_name = lit n, rs_method = m, rs_path = API_PREFIX @ lit p, rs_access = a\<rparr>"

definition ROUTES :: "route_spec list" where
  "ROUTES =
    [mk_route ''login'' POST ''/auth/login'' PUBLIC,
     mk_route ''logout'' POST ''/auth/logout'' SESSION_ONLY,
     mk_route ''list_sites'' GET ''/sites'' NEEDS_READ_ONLY,
     mk_route ''create_site'' POST ''/sites'' NEEDS_READ_WRITE,
     mk_route ''get_site'' GET ''/sites/{slug}'' NEEDS_READ_ONLY,
     mk_route ''delete_site'' DELETE ''/sites/{slug}'' NEEDS_REMOVE_DESTRUCTIVE,
     mk_route ''list_files'' GET ''/sites/{slug}/files'' NEEDS_READ_ONLY,
     mk_route ''upload_file'' PUT ''/sites/{slug}/files/{path:path}'' NEEDS_READ_WRITE,
     mk_route ''download_file'' GET ''/sites/{slug}/files/{path:path}'' NEEDS_READ_ONLY,
     mk_route ''delete_file'' DELETE ''/sites/{slug}/files/{path:path}'' NEEDS_REMOVE_DESTRUCTIVE,
     mk_route ''delete_folder'' DELETE ''/sites/{slug}/folders/{path:path}'' NEEDS_REMOVE_DESTRUCTIVE,
     mk_route ''list_tokens'' GET ''/tokens'' SESSION_ONLY,
     mk_route ''create_token'' POST ''/tokens'' SESSION_ONLY,
     mk_route ''token_self'' GET ''/tokens/self'' ANY_TOKEN,
     mk_route ''revoke_token'' DELETE ''/tokens/{token_id}'' SESSION_ONLY,
     mk_route ''list_users'' GET ''/users'' SESSION_ONLY,
     mk_route ''create_user'' POST ''/users'' SESSION_ONLY,
     mk_route ''change_password'' POST ''/users/self/password'' SESSION_ONLY,
     mk_route ''delete_user'' DELETE ''/users/{user_id}'' SESSION_ONLY]"

text \<open>\<open>ROUTES_BY_NAME[name]\<close>; the names are distinct, so first and last entry agree.\<close>

definition route :: "ustring \<Rightarrow> route_spec option" where
  "route name = find (\<lambda>r. rs_name r = name) ROUTES"

lemma route_names_distinct: "distinct (map rs_name ROUTES)"
  by (simp add: ROUTES_def)

lemma find_named: "distinct (map f xs) \<Longrightarrow> x \<in> set xs \<Longrightarrow> find (\<lambda>y. f y = f x) xs = Some x"
  by (induction xs) force+

lemma route_named: "r \<in> set ROUTES \<Longrightarrow> rs_name r = name \<Longrightarrow> route name = Some r"
  unfolding route_def using find_named [OF route_names_distinct] by blast

lemma route_table:
  "route (lit ''login'') = Some (mk_route ''login'' POST ''/auth/login'' PUBLIC)"
  "route (lit ''logout'') = Some (mk_route ''logout'' POST ''/auth/logout'' SESSION_ONLY)"
  "route (lit ''list_sites'') = Some (mk_route ''list_sites'' GET ''/sites'' NEEDS_READ_ONLY)"
  "route (lit ''create_site'') = Some (mk_route ''create_site'' POST ''/sites'' NEEDS_READ_WRITE)"
  "route (lit ''get_site'') = Some (mk_route ''get_site'' GET ''/sites/{slug}'' NEEDS_READ_ONLY)"
  "route (lit ''delete_site'') = Some (mk_route ''delete_site'' DELETE ''/sites/{slug}'' NEEDS_REMOVE_DESTRUCTIVE)"
  "route (lit ''list_files'') = Some (mk_route ''list_files'' GET ''/sites/{slug}/files'' NEEDS_READ_ONLY)"
  "route (lit ''upload_file'') = Some (mk_route ''upload_file'' PUT ''/sites/{slug}/files/{path:path}'' NEEDS_READ_WRITE)"
  "route (lit ''download_file'') = Some (mk_route ''download_file'' GET ''/sites/{slug}/files/{path:path}'' NEEDS_READ_ONLY)"
  "route (lit ''delete_file'') = Some (mk_route ''delete_file'' DELETE ''/sites/{slug}/files/{path:path}'' NEEDS_REMOVE_DESTRUCTIVE)"
  "route (lit ''delete_folder'') = Some (mk_route ''delete_folder'' DELETE ''/sites/{slug}/folders/{path:path}'' NEEDS_REMOVE_DESTRUCTIVE)"
  "route (lit ''list_tokens'') = Some (mk_route ''list_tokens'' GET ''/tokens'' SESSION_ONLY)"
  "route (lit ''create_token'') = Some (mk_route ''create_token'' POST ''/tokens'' SESSION_ONLY)"
  "route (lit ''token_self'') = Some (mk_route ''token_self'' GET ''/tokens/self'' ANY_TOKEN)"
  "route (lit ''revoke_token'') = Some (mk_route ''revoke_token'' DELETE ''/tokens/{token_id}'' SESSION_ONLY)"
  "route (lit ''list_users'') = Some (mk_route ''list_users'' GET ''/users'' SESSION_ONLY)"
  "route (lit ''create_user'') = Some (mk_route ''create_user'' POST ''/users'' SESSION_ONLY)"
  "route (lit ''change_password'') = Some (mk_route ''change_password'' POST ''/users/self/password'' SESSION_ONLY)"
  "route (lit ''delete_user'') = Some (mk_route ''delete_user'' DELETE ''/users/{user_id}'' SESSION_ONLY)"
  by (rule route_named; simp only: ROUTES_def list.set insert_iff route_spec.simps simp_thms)+

section \<open>URLs\<close>

text \<open>
  \<open>_PARAM_RE\<close> is \<open>\{(\w+)(?::path)?\}\<close>: after an opening brace, a run of word characters, an
  optional \<open>:path\<close> and the closing brace.  \<open>param_at\<close> is given what follows the brace.
\<close>

definition word_char :: "nat \<Rightarrow> bool" where
  "word_char c \<longleftrightarrow> ascii_alnum c \<or> c = 95"

definition param_at :: "ustring \<Rightarrow> (ustring \<times> ustring) option" where
  "param_at s =
     (let key = takeWhile word_char s; r = dropWhile word_char s
      in if key = [] then None
         else if take 1 r = lit ''}'' then Some (key, drop 1 r)
         else if take 6 r = lit '':path}'' then Some (key, drop 6 r)
         else None)"

lemma param_at_shorter: "param_at s = Some (key, r) \<Longrightarrow> length r < length s"
  using length_dropWhile_le [of word_char s]
  by (cases "dropWhile word_char s") (auto simp: param_at_def Let_def split: if_splits)

text \<open>
  \<open>_PARAM_RE.sub(substitute, template)\<close>: \<open>None\<close> where \<open>substitute\<close> raises, for a missing
  parameter or one that cannot be encoded.
\<close>

function sub_params :: "(ustring \<Rightarrow> ustring option) \<Rightarrow> ustring \<Rightarrow> ustring option" where
  "sub_params f [] = Some []"
| "sub_params f (c # cs) =
     (case (if c = 123 then param_at cs else None) of
        Some (key, r) \<Rightarrow>
          (case f key of None \<Rightarrow> None | Some v \<Rightarrow> map_option (\<lambda>t. v @ t) (sub_params f r))
      | None \<Rightarrow> map_option (\<lambda>t. c # t) (sub_params f cs))"
  by pat_completeness auto
termination
  by (relation "measure (\<lambda>(_, s). length s)")
    (auto split: if_splits dest: param_at_shorter)

definition substitute :: "(ustring \<times> ustring) list \<Rightarrow> ustring \<Rightarrow> ustring option" where
  "substitute params key =
     (case map_of params key of
        None \<Rightarrow> None
      | Some value \<Rightarrow> if key = lit ''path'' then quote [slash] value else quote [] value)"

definition build_path :: "ustring \<Rightarrow> (ustring \<times> ustring) list \<Rightarrow> ustring option" where
  "build_path name params =
     (case route name of None \<Rightarrow> None | Some spec \<Rightarrow> sub_params (substitute params) (rs_path spec))"

definition site_url :: "ustring \<Rightarrow> ustring \<Rightarrow> ustring" where
  "site_url public_sites_url slug = rstrip (\<lambda>c. c = slash) public_sites_url @ [slash] @ slug @ [slash]"

lemma quote_slug_boundary:
  assumes "quote [] s = Some q" "quote [] s' = Some q'" "q @ slash # r = q' @ slash # r'"
  shows "q = q' \<and> r = r'"
proof -
  have "slash \<notin> set q" "slash \<notin> set q'"
    using assms(1,2) by (auto dest: quote_empty_safe_no_slash)
  then have "partition_on slash (q @ slash # r) = (q, r)" "partition_on slash (q' @ slash # r') = (q', r')"
    by (simp_all add: partition_found)
  then show ?thesis unfolding assms(3) by simp
qed

definition file_params :: "ustring \<Rightarrow> ustring \<Rightarrow> (ustring \<times> ustring) list" where
  "file_params slug path = [(lit ''slug'', slug), (lit ''path'', path)]"

lemma build_download_path:
  "build_path (lit ''download_file'') (file_params slug path) =
     (case quote [] slug of None \<Rightarrow> None
      | Some qs \<Rightarrow> (case quote [slash] path of None \<Rightarrow> None
          | Some qp \<Rightarrow> Some (API_PREFIX @ lit ''/sites/'' @ qs @ lit ''/files/'' @ qp)))"
proof -
  have r: "route (lit ''download_file'') = Some (mk_route ''download_file'' GET ''/sites/{slug}/files/{path:path}'' NEEDS_READ_ONLY)"
    by code_simp
  show ?thesis
    unfolding build_path_def r
    by (simp add: API_PREFIX_def file_params_def param_at_def word_char_def
        ascii_alnum_def substitute_def split: option.split)
qed

text \<open>
  The URL of a download determines the site and the path it was built for: quoting
  keeps a slug from contributing a slash and loses no character, so two different pairs of slug
  and path never give the same address.
\<close>

theorem build_path_inj:
  assumes "build_path (lit ''download_file'') (file_params slug path) = Some url"
    and "build_path (lit ''download_file'') (file_params slug' path') = Some url"
  shows "slug = slug' \<and> path = path'"
proof -
  obtain qs qp where q: "quote [] slug = Some qs" "quote [slash] path = Some qp"
    "url = API_PREFIX @ lit ''/sites/'' @ qs @ lit ''/files/'' @ qp"
    using assms(1) by (auto simp: build_download_path simp del: list.map split: option.splits)
  obtain qs' qp' where q': "quote [] slug' = Some qs'" "quote [slash] path' = Some qp'"
    "url = API_PREFIX @ lit ''/sites/'' @ qs' @ lit ''/files/'' @ qp'"
    using assms(2) by (auto simp: build_download_path simp del: list.map split: option.splits)
  have "qs @ slash # (lit ''files/'' @ qp) = qs' @ slash # (lit ''files/'' @ qp')"
    using q(3) q'(3) by simp
  from quote_slug_boundary [OF q(1) q'(1) this] have "qs = qs' \<and> qp = qp'" by simp
  then show ?thesis using q q' quote_inj [of "[]"] quote_inj [of "[slash]"] by auto
qed

theorem build_path_inj_witness:
  "build_path (lit ''download_file'') (file_params (lit ''docs'') (lit ''a b'')) =
     Some (lit ''/api/v1/sites/docs/files/a%20b'')
   \<and> (\<forall>path'. build_path (lit ''download_file'') (file_params (lit ''docs'') path') =
     Some (lit ''/api/v1/sites/docs/files/a%20b'') \<longleftrightarrow> path' = lit ''a b'')"
proof -
  have h: "build_path (lit ''download_file'') (file_params (lit ''docs'') (lit ''a b'')) =
     Some (lit ''/api/v1/sites/docs/files/a%20b'')" by code_simp
  then show ?thesis using build_path_inj [OF _ h] by blast
qed

section \<open>Every template is filled in\<close>

lemma quote_none: "quote safe s = None \<longleftrightarrow> utf8_encode s = None"
  by (simp add: quote_def)

lemma quote_no_brace:
  assumes "quote safe s = Some q" "123 \<notin> set safe" "125 \<notin> set safe"
  shows "123 \<notin> set q \<and> 125 \<notin> set q"
  using quote_chars [OF assms(1), of 123] quote_chars [OF assms(1), of 125] assms(2,3) by (auto simp: always_safe_def)

text \<open>
  A template that \<open>keys\<close> fill in: with nothing in the place of its parameters no brace is left.
\<close>

definition filled_by :: "ustring list \<Rightarrow> ustring \<Rightarrow> bool" where
  "filled_by keys template =
     (case sub_params (\<lambda>k. if k \<in> set keys then Some [] else None) template of
        None \<Rightarrow> False | Some t \<Rightarrow> 123 \<notin> set t \<and> 125 \<notin> set t)"

lemma sub_params_prefix:
  "123 \<notin> set p \<Longrightarrow> sub_params f (p @ s) = map_option ((@) p) (sub_params f s)"
  by (induction p) (cases "sub_params f s"; simp)+

lemma sub_params_filled:
  assumes "filled_by keys template"
    and "\<And>k v. k \<in> set keys \<Longrightarrow> f k = Some v \<Longrightarrow> 123 \<notin> set v \<and> 125 \<notin> set v"
  shows "case sub_params f template of
           Some url \<Rightarrow> 123 \<notin> set url \<and> 125 \<notin> set url | None \<Rightarrow> \<exists>k \<in> set keys. f k = None"
  using assms
proof (induction f template rule: sub_params.induct)
  case (2 f c cs)
  show ?case
  proof (cases "if c = 123 then param_at cs else None")
    case None
    with 2 show ?thesis by (auto simp: filled_by_def split: if_splits option.splits)
  next
    case (Some kr)
    obtain k r where kr: "kr = (k, r)" by (cases kr)
    have k: "k \<in> set keys" "filled_by keys r"
      using 2(3) Some kr by (auto simp: filled_by_def split: if_splits option.splits)
    show ?thesis
    proof (cases "f k")
      case None
      with k(1) Some kr show ?thesis by auto
    next
      case (Some v)
      with 2(2) [OF \<open>_ = Some kr\<close> kr [symmetric] Some k(2) 2(4)] 2(4) [OF k(1) Some] kr \<open>_ = Some kr\<close>
      show ?thesis by (auto split: option.splits)
    qed
  qed
qed (simp add: filled_by_def)

lemma templates_filled:
  "list_all (\<lambda>(keys, names).
       list_all (\<lambda>name. case route name of None \<Rightarrow> False | Some spec \<Rightarrow> filled_by keys (rs_path spec)) names)
     [([], [lit ''login'', lit ''logout'', lit ''list_sites'', lit ''create_site'', lit ''list_tokens'', lit ''create_token'', lit ''token_self'', lit ''list_users'', lit ''create_user'', lit ''change_password'']),
        ([lit ''slug''], [lit ''get_site'', lit ''delete_site'', lit ''list_files'']),
        ([lit ''slug'', lit ''path''], [lit ''upload_file'', lit ''download_file'', lit ''delete_file'', lit ''delete_folder'']),
        ([lit ''token_id''], [lit ''revoke_token'']),
        ([lit ''user_id''], [lit ''delete_user''])]"
  by (simp only: list.pred_inject prod.case route_table option.case route_spec.simps simp_thms) code_simp

lemmas filled_table = templates_filled
  [unfolded list.pred_inject prod.case route_table option.case route_spec.simps simp_thms]

lemma build_path_shape:
  assumes "route name = Some \<lparr>rs_name = n, rs_method = m, rs_path = API_PREFIX @ p, rs_access = a\<rparr>"
    and "filled_by (map fst params) (API_PREFIX @ p)"
  shows "case build_path name params of
           Some url \<Rightarrow> prefix API_PREFIX url \<and> 123 \<notin> set url \<and> 125 \<notin> set url | None \<Rightarrow> \<exists>s. utf8_encode s = None"
proof -
  have v: "123 \<notin> set v \<and> 125 \<notin> set v" if "substitute params k = Some v" for k v
    using that by (auto simp: substitute_def dest: quote_no_brace split: option.splits if_splits)
  have n: "\<exists>s. utf8_encode s = None" if "k \<in> set (map fst params)" "substitute params k = None" for k
    using that by (auto simp: substitute_def quote_none map_of_eq_None_iff split: option.splits if_splits)
  have p: "sub_params f (API_PREFIX @ p) = map_option ((@) API_PREFIX) (sub_params f p)" for f
    by (rule sub_params_prefix) (simp add: API_PREFIX_def)
  have b: "build_path name params = sub_params (substitute params) (API_PREFIX @ p)"
    unfolding build_path_def assms(1) option.case route_spec.simps ..
  have "case sub_params (substitute params) (API_PREFIX @ p) of
      Some url \<Rightarrow> 123 \<notin> set url \<and> 125 \<notin> set url | None \<Rightarrow> \<exists>k \<in> set (map fst params). substitute params k = None"
    using assms(2) v by (rule sub_params_filled)
  moreover have "prefix API_PREFIX url" if "sub_params (substitute params) (API_PREFIX @ p) = Some url" for url
    using that unfolding p by (auto simp: prefix_def)
  ultimately show ?thesis unfolding b using n by (auto simp del: set_map list.map split: option.splits)
qed

lemmas build_path_shapes = build_path_shape [where params = "[]", unfolded list.map]
  build_path_shape [where params = "[(k, v)]" for k v, unfolded list.map fst_conv]
  build_path_shape [where params = "[(k, v), (k', v')]" for k v k' v', unfolded list.map fst_conv]

end
