(* ===== verification/Db.thy ===== *)
theory Db
  imports Rows Contract "HOL-Library.Product_Lexorder"
begin

text \<open>
  The database, \<open>src/paper_boxing/backend/db.py\<close>: four tables as lists of rows in the order
  of insertion, one definition per method of \<open>Database\<close>.  A statement that violates a
  constraint raises and its transaction is rolled back, so a failing operation has no new state.
  A deletion cascades over the foreign keys of the schema.  Timestamps are integers;
  \<open>Tables\<close> has the texts the tables hold in their place.
\<close>

section \<open>Rows and tables\<close>

record user_row =
  u_id :: ustring
  u_username :: ustring
  u_password_hash :: ustring
  u_created_at :: time

record token_row =
  t_id :: ustring
  t_name :: ustring
  t_type :: token_type
  t_scope :: scope
  t_user_id :: ustring
  t_created_at :: time
  t_last_used_at :: "time option"
  t_expires_at :: "time option"
  t_revoked_at :: "time option"

record site_row =
  s_slug :: ustring
  s_name :: ustring
  s_created_at :: time

record file_row =
  f_site :: ustring
  f_path :: ustring
  f_bytes :: nat
  f_mtime_ns :: time
  f_sha256 :: ustring

record totals =
  tt_file_count :: nat
  tt_bytes :: nat
  tt_newest_mtime_ns :: "time option"

text \<open>A stored token is its row with the digest of its secret, the column \<open>secret_sha256\<close>.\<close>

record database =
  db_users :: "user_row list"
  db_tokens :: "(ustring \<times> token_row) list"
  db_sites :: "site_row list"
  db_files :: "file_row list"

abbreviation tok_id :: "ustring \<times> token_row \<Rightarrow> ustring" where "tok_id \<equiv> t_id \<circ> snd"
abbreviation file_key :: "file_row \<Rightarrow> ustring \<times> ustring" where "file_key r \<equiv> (f_site r, f_path r)"

definition empty_db :: database where
  "empty_db = \<lparr>db_users = [], db_tokens = [], db_sites = [], db_files = []\<rparr>"

section \<open>Users\<close>

definition count_users :: "database \<Rightarrow> nat" where
  "count_users db = length (db_users db)"

definition user_by_id :: "database \<Rightarrow> ustring \<Rightarrow> user_row option" where
  "user_by_id db user_id = row_with u_id user_id (db_users db)"

definition user_by_username :: "database \<Rightarrow> ustring \<Rightarrow> user_row option" where
  "user_by_username db username = row_with u_username username (db_users db)"

definition insert_user :: "database \<Rightarrow> user_row \<Rightarrow> exn + database" where
  "insert_user db user =
     (if user_by_id db (u_id user) \<noteq> None \<or> user_by_username db (u_username user) \<noteq> None
      then Inl Conflict
      else Inr (db\<lparr>db_users := db_users db @ [user]\<rparr>))"

definition list_users :: "database \<Rightarrow> user_row list" where
  "list_users db = sort_key u_username (db_users db)"

definition set_password_hash :: "database \<Rightarrow> ustring \<Rightarrow> ustring \<Rightarrow> database" where
  "set_password_hash db user_id password_hash =
     db\<lparr>db_users := update_rows (\<lambda>u. u_id u = user_id) (u_password_hash_update (\<lambda>_. password_hash)) (db_users db)\<rparr>"

definition delete_user :: "database \<Rightarrow> ustring \<Rightarrow> bool \<times> database" where
  "delete_user db user_id =
     (user_by_id db user_id \<noteq> None,
      db\<lparr>db_users := delete_rows (\<lambda>u. u_id u = user_id) (db_users db),
         db_tokens := delete_rows (\<lambda>(_, t). t_user_id t = user_id) (db_tokens db)\<rparr>)"

section \<open>Tokens\<close>

definition token_by_secret :: "database \<Rightarrow> ustring \<Rightarrow> token_row option" where
  "token_by_secret db secret_sha256 = map_option snd (row_with fst secret_sha256 (db_tokens db))"

definition token_by_id :: "database \<Rightarrow> ustring \<Rightarrow> token_row option" where
  "token_by_id db token_id = map_option snd (row_with tok_id token_id (db_tokens db))"

definition insert_token :: "database \<Rightarrow> token_row \<Rightarrow> ustring \<Rightarrow> exn + database" where
  "insert_token db token secret_sha256 =
     (if token_by_id db (t_id token) \<noteq> None \<or> token_by_secret db secret_sha256 \<noteq> None
         \<or> user_by_id db (t_user_id token) = None
      then Inl IntegrityError
      else Inr (db\<lparr>db_tokens := db_tokens db @ [(secret_sha256, token)]\<rparr>))"

definition update_token :: "database \<Rightarrow> (token_row \<Rightarrow> bool) \<Rightarrow> (token_row \<Rightarrow> token_row) \<Rightarrow> database" where
  "update_token db P f =
     db\<lparr>db_tokens := update_rows (\<lambda>(_, t). P t) (\<lambda>(d, t). (d, f t)) (db_tokens db)\<rparr>"

definition touch_token :: "database \<Rightarrow> ustring \<Rightarrow> time \<Rightarrow> time option \<Rightarrow> database" where
  "touch_token db token_id last_used_at expires_at =
     (case expires_at of
        None \<Rightarrow> update_token db (\<lambda>t. t_id t = token_id) (t_last_used_at_update (\<lambda>_. Some last_used_at))
      | Some e \<Rightarrow> update_token db (\<lambda>t. t_id t = token_id)
          (\<lambda>t. t\<lparr>t_last_used_at := Some last_used_at, t_expires_at := Some e\<rparr>))"

definition revoke_token :: "database \<Rightarrow> ustring \<Rightarrow> time \<Rightarrow> database" where
  "revoke_token db token_id at =
     update_token db (\<lambda>t. t_id t = token_id \<and> t_revoked_at t = None) (t_revoked_at_update (\<lambda>_. Some at))"

definition other_live_session :: "ustring \<Rightarrow> ustring \<Rightarrow> token_row \<Rightarrow> bool" where
  "other_live_session user_id keep t \<longleftrightarrow>
     t_user_id t = user_id \<and> t_type t = SESSION \<and> t_id t \<noteq> keep \<and> t_revoked_at t = None"

definition revoke_other_sessions :: "database \<Rightarrow> ustring \<Rightarrow> ustring \<Rightarrow> time \<Rightarrow> nat \<times> database" where
  "revoke_other_sessions db user_id keep at =
     (length (filter (\<lambda>(_, t). other_live_session user_id keep t) (db_tokens db)),
      update_token db (other_live_session user_id keep) (t_revoked_at_update (\<lambda>_. Some at)))"

definition list_agent_tokens :: "database \<Rightarrow> (token_row \<times> ustring) list" where
  "list_agent_tokens db =
     sort_key (\<lambda>(t, _). (t_created_at t, t_id t))
       [(t, u_username u). (_, t) \<leftarrow> db_tokens db, t_type t = AGENT \<and> t_revoked_at t = None,
                           u \<leftarrow> db_users db, u_id u = t_user_id t]"

definition dead_session :: "time \<Rightarrow> token_row \<Rightarrow> bool" where
  "dead_session now t \<longleftrightarrow> t_type t = SESSION
     \<and> (t_revoked_at t \<noteq> None \<or> (case t_expires_at t of None \<Rightarrow> False | Some e \<Rightarrow> e \<le> now))"

definition delete_dead_sessions :: "database \<Rightarrow> time \<Rightarrow> nat \<times> database" where
  "delete_dead_sessions db now =
     (length (filter (\<lambda>(_, t). dead_session now t) (db_tokens db)),
      db\<lparr>db_tokens := delete_rows (\<lambda>(_, t). dead_session now t) (db_tokens db)\<rparr>)"

section \<open>Sites\<close>

definition site_by_slug :: "database \<Rightarrow> ustring \<Rightarrow> site_row option" where
  "site_by_slug db slug = row_with s_slug slug (db_sites db)"

definition insert_site :: "database \<Rightarrow> site_row \<Rightarrow> exn + database" where
  "insert_site db site =
     (if site_by_slug db (s_slug site) \<noteq> None then Inl Conflict
      else Inr (db\<lparr>db_sites := db_sites db @ [site]\<rparr>))"

definition list_sites :: "database \<Rightarrow> site_row list" where
  "list_sites db = sort_key s_slug (db_sites db)"

definition delete_site_row :: "database \<Rightarrow> ustring \<Rightarrow> bool \<times> database" where
  "delete_site_row db slug =
     (site_by_slug db slug \<noteq> None,
      db\<lparr>db_sites := delete_rows (\<lambda>s. s_slug s = slug) (db_sites db),
         db_files := delete_rows (\<lambda>f. f_site f = slug) (db_files db)\<rparr>)"

section \<open>The file index\<close>

definition file_row_at :: "database \<Rightarrow> ustring \<Rightarrow> ustring \<Rightarrow> file_row option" where
  "file_row_at db site path = row_with file_key (site, path) (db_files db)"

definition upsert_file :: "database \<Rightarrow> file_row \<Rightarrow> exn + database" where
  "upsert_file db row =
     (if site_by_slug db (f_site row) = None then Inl IntegrityError
      else if file_row_at db (f_site row) (f_path row) \<noteq> None then
        Inr (db\<lparr>db_files := update_rows (\<lambda>f. file_key f = file_key row)
               (\<lambda>f. f\<lparr>f_bytes := f_bytes row, f_mtime_ns := f_mtime_ns row, f_sha256 := f_sha256 row\<rparr>)
               (db_files db)\<rparr>)
      else Inr (db\<lparr>db_files := db_files db @ [row]\<rparr>))"

definition delete_file_row :: "database \<Rightarrow> ustring \<Rightarrow> ustring \<Rightarrow> database" where
  "delete_file_row db site path =
     db\<lparr>db_files := delete_rows (\<lambda>f. f_site f = site \<and> f_path f = path) (db_files db)\<rparr>"

text \<open>\<open>_below\<close>: \<open>substr(path, 1, len(prefix)) = prefix\<close>, or no condition for the site root.\<close>

definition below :: "ustring \<Rightarrow> ustring \<Rightarrow> bool" where
  "below folder path \<longleftrightarrow>
     folder = [] \<or> (let pre = folder @ [slash] in take (length pre) path = pre)"

definition delete_files_under :: "database \<Rightarrow> ustring \<Rightarrow> ustring \<Rightarrow> nat \<times> database" where
  "delete_files_under db site folder =
     (length (filter (\<lambda>f. f_site f = site \<and> below folder (f_path f)) (db_files db)),
      db\<lparr>db_files := delete_rows (\<lambda>f. f_site f = site \<and> below folder (f_path f)) (db_files db)\<rparr>)"

text \<open>\<open>instr(substr(path, start), '/') = 0\<close>, where \<open>substr\<close> counts from 1.\<close>

definition directly_in :: "ustring \<Rightarrow> ustring \<Rightarrow> bool" where
  "directly_in folder path \<longleftrightarrow>
     (let start = (if folder = [] then 1 else length folder + 2)
      in below folder path \<and> slash \<notin> set (drop (start - 1) path))"

definition files_in_folder :: "database \<Rightarrow> ustring \<Rightarrow> ustring \<Rightarrow> file_row list" where
  "files_in_folder db site folder =
     sort_key f_path (filter (\<lambda>f. f_site f = site \<and> directly_in folder (f_path f)) (db_files db))"

definition folder_totals :: "database \<Rightarrow> ustring \<Rightarrow> ustring \<Rightarrow> totals" where
  "folder_totals db site folder =
     (let rows = filter (\<lambda>f. f_site f = site \<and> below folder (f_path f)) (db_files db)
      in \<lparr>tt_file_count = length rows,
          tt_bytes = sum_list (map f_bytes rows),
          tt_newest_mtime_ns = (if rows = [] then None else Some (Max (set (map f_mtime_ns rows))))\<rparr>)"

section \<open>Integrity\<close>

text \<open>
  What the schema's constraints keep: the unique columns are unique, every token's owner and
  every indexed file's site exist.
\<close>

definition db_ok :: "database \<Rightarrow> bool" where
  "db_ok db \<longleftrightarrow>
     distinct (map u_id (db_users db)) \<and> distinct (map u_username (db_users db))
     \<and> distinct (map tok_id (db_tokens db)) \<and> distinct (map fst (db_tokens db))
     \<and> (\<forall>(_, t)\<in>set (db_tokens db). t_user_id t \<in> u_id ` set (db_users db))
     \<and> distinct (map s_slug (db_sites db)) \<and> distinct (map file_key (db_files db))
     \<and> (\<forall>f\<in>set (db_files db). f_site f \<in> s_slug ` set (db_sites db))"

lemma db_okD:
  assumes "db_ok db"
  shows "distinct (map u_id (db_users db))" "distinct (map u_username (db_users db))"
    "distinct (map tok_id (db_tokens db))" "distinct (map fst (db_tokens db))"
    "\<And>d t. (d, t) \<in> set (db_tokens db) \<Longrightarrow> t_user_id t \<in> u_id ` set (db_users db)"
    "distinct (map s_slug (db_sites db))" "distinct (map file_key (db_files db))"
    "\<And>f. f \<in> set (db_files db) \<Longrightarrow> f_site f \<in> s_slug ` set (db_sites db)"
  using assms by (auto simp: db_ok_def)

lemma db_ok_empty: "db_ok empty_db"
  by (simp add: db_ok_def empty_db_def)

lemma insert_user_ok [preserves]: "db_ok db \<Longrightarrow> insert_user db user = Inr db' \<Longrightarrow> db_ok db'"
  by (auto simp: db_ok_def insert_user_def user_by_id_def user_by_username_def row_with_None split: if_splits)

lemma set_password_hash_ok [preserves]: "db_ok db \<Longrightarrow> db_ok (set_password_hash db user_id h)"
  by (simp add: db_ok_def set_password_hash_def)

lemma delete_user_ok [preserves]: "db_ok db \<Longrightarrow> db_ok (snd (delete_user db user_id))"
  by (fastforce simp: db_ok_def delete_user_def distinct_delete_rows)

lemma insert_token_ok [preserves]: "db_ok db \<Longrightarrow> insert_token db t d = Inr db' \<Longrightarrow> db_ok db'"
  by (force simp: db_ok_def insert_token_def token_by_id_def token_by_secret_def user_by_id_def row_with_None
      dest!: row_with_SomeD split: if_splits)

lemma update_token_ok:
  assumes "db_ok db" "\<And>t. t_id (f t) = t_id t" "\<And>t. t_user_id (f t) = t_user_id t"
  shows "db_ok (update_token db P f)"
proof -
  have "map tok_id (db_tokens (update_token db P f)) = map tok_id (db_tokens db)"
    "map fst (db_tokens (update_token db P f)) = map fst (db_tokens db)"
    using assms(2) by (simp_all add: update_token_def update_rows_def split: prod.splits)
  moreover have "\<forall>(_, t)\<in>set (db_tokens (update_token db P f)). t_user_id t \<in> u_id ` set (db_users db)"
    using db_okD(5) [OF assms(1)] assms(3) by (fastforce simp: update_token_def set_update_rows split: prod.splits)
  ultimately show ?thesis using assms(1) by (simp add: db_ok_def update_token_def)
qed

lemma touch_token_ok [preserves]: "db_ok db \<Longrightarrow> db_ok (touch_token db i l e)"
  by (auto simp: touch_token_def intro!: update_token_ok split: option.split)

lemma revoke_token_ok [preserves]: "db_ok db \<Longrightarrow> db_ok (revoke_token db i at)"
  by (auto simp: revoke_token_def intro!: update_token_ok)

lemma revoke_other_sessions_ok [preserves]: "db_ok db \<Longrightarrow> db_ok (snd (revoke_other_sessions db u k at))"
  by (auto simp: revoke_other_sessions_def intro!: update_token_ok)

lemma delete_dead_sessions_ok [preserves]: "db_ok db \<Longrightarrow> db_ok (snd (delete_dead_sessions db now))"
  by (auto simp: db_ok_def delete_dead_sessions_def distinct_delete_rows)

lemma insert_site_ok [preserves]: "db_ok db \<Longrightarrow> insert_site db s = Inr db' \<Longrightarrow> db_ok db'"
  by (auto simp: db_ok_def insert_site_def site_by_slug_def row_with_None split: if_splits)

lemma delete_site_row_ok [preserves]: "db_ok db \<Longrightarrow> db_ok (snd (delete_site_row db slug))"
  by (fastforce simp: db_ok_def delete_site_row_def distinct_delete_rows)

lemma upsert_file_ok [preserves]: "db_ok db \<Longrightarrow> upsert_file db row = Inr db' \<Longrightarrow> db_ok db'"
  by (force simp: db_ok_def upsert_file_def file_row_at_def site_by_slug_def row_with_None set_update_rows
      dest!: row_with_SomeD split: if_splits)

lemma delete_file_row_ok [preserves]: "db_ok db \<Longrightarrow> db_ok (delete_file_row db s p)"
  by (auto simp: db_ok_def delete_file_row_def distinct_delete_rows)

lemma delete_files_under_ok [preserves]: "db_ok db \<Longrightarrow> db_ok (snd (delete_files_under db s f))"
  by (auto simp: db_ok_def delete_files_under_def distinct_delete_rows)

section \<open>What lookups find\<close>

lemma token_by_secret_update [row_simps]:
  "token_by_secret (update_token db P f) d = map_option (\<lambda>t. if P t then f t else t) (token_by_secret db d)"
proof -
  have "row_with fst d (update_rows (\<lambda>(_, t). P t) (\<lambda>(d, t). (d, f t)) (db_tokens db)) =
      map_option (\<lambda>r. if (case r of (_, t) \<Rightarrow> P t) then (case r of (d, t) \<Rightarrow> (d, f t)) else r)
        (row_with fst d (db_tokens db))"
    by (rule row_with_update) auto
  then show ?thesis
    by (auto simp: token_by_secret_def update_token_def option.map_comp o_def split: prod.splits
        intro!: map_option_cong)
qed

lemma token_by_id_update [row_simps]:
  assumes "\<And>t. t_id (f t) = t_id t"
  shows "token_by_id (update_token db P f) i = map_option (\<lambda>t. if P t then f t else t) (token_by_id db i)"
proof -
  have "row_with tok_id i (update_rows (\<lambda>(_, t). P t) (\<lambda>(d, t). (d, f t)) (db_tokens db)) =
      map_option (\<lambda>r. if (case r of (_, t) \<Rightarrow> P t) then (case r of (d, t) \<Rightarrow> (d, f t)) else r)
        (row_with tok_id i (db_tokens db))"
    using assms by (intro row_with_update) auto
  then show ?thesis
    by (auto simp: token_by_id_def update_token_def option.map_comp o_def split: prod.splits
        intro!: map_option_cong)
qed

lemma token_by_secret_insert [row_simps]:
  "insert_token db t d = Inr db' \<Longrightarrow> token_by_secret db' d' = (if d' = d then Some t else token_by_secret db d')"
  by (auto simp: insert_token_def token_by_secret_def row_with_append split: if_splits option.splits)

lemma token_by_secret_in: "token_by_secret db d = Some t \<Longrightarrow> (d, t) \<in> set (db_tokens db)"
  by (auto simp: token_by_secret_def dest!: row_with_SomeD)

lemma token_by_id_in: "token_by_id db i = Some t \<Longrightarrow> t_id t = i \<and> (\<exists>d. (d, t) \<in> set (db_tokens db))"
  by (auto simp: token_by_id_def dest!: row_with_SomeD)

lemma token_by_secret_iff: "db_ok db \<Longrightarrow> token_by_secret db d = Some t \<longleftrightarrow> (d, t) \<in> set (db_tokens db)"
  using row_with_unique [of fst "db_tokens db" "(d, t)"]
  by (auto simp: db_ok_def token_by_secret_def dest: row_with_SomeD)

lemma same_token_id:
  assumes "db_ok db" "(d, t) \<in> set (db_tokens db)" "(d', t') \<in> set (db_tokens db)" "t_id t = t_id t'"
  shows "d = d' \<and> t = t'"
proof -
  have "row_with tok_id (tok_id r) (db_tokens db) = Some r" if "r \<in> set (db_tokens db)" for r
    using db_okD(3) [OF assms(1)] that by (rule row_with_unique)
  from this [OF assms(2)] this [OF assms(3)] assms(4) show ?thesis by simp
qed

lemma token_owner: "db_ok db \<Longrightarrow> (d, t) \<in> set (db_tokens db) \<Longrightarrow> \<exists>u. user_by_id db (t_user_id t) = Some u"
  using db_okD(5) [of db d t] row_with_None [of u_id "t_user_id t" "db_users db"]
  by (auto simp: user_by_id_def)

lemma update_token_frame [simp]:
  "db_users (update_token db P f) = db_users db" "db_sites (update_token db P f) = db_sites db"
  "db_files (update_token db P f) = db_files db"
  by (simp_all add: update_token_def)

lemma file_row_at_upsert [row_simps]:
  assumes "upsert_file db row = Inr db'"
  shows "file_row_at db' s p = (if (s, p) = file_key row then Some row else file_row_at db s p)"
proof (cases "file_row_at db (f_site row) (f_path row)")
  case None
  then have "db' = db\<lparr>db_files := db_files db @ [row]\<rparr>"
    using assms by (auto simp: upsert_file_def split: if_splits)
  then show ?thesis using None by (auto simp: file_row_at_def row_with_append split: option.splits)
next
  case (Some old)
  let ?f = "\<lambda>f. f\<lparr>f_bytes := f_bytes row, f_mtime_ns := f_mtime_ns row, f_sha256 := f_sha256 row\<rparr>"
  have db': "db' = db\<lparr>db_files := update_rows (\<lambda>f. file_key f = file_key row) ?f (db_files db)\<rparr>"
    using assms Some by (auto simp: upsert_file_def split: if_splits)
  have "file_row_at db' s p = map_option (\<lambda>r. if file_key r = file_key row then ?f r else r) (file_row_at db s p)"
    unfolding db' file_row_at_def using row_with_update [of file_key ?f "(s, p)"] by simp
  moreover have "?f f = row" if "file_key f = file_key row" for f
    using that by simp
  moreover have "file_key f = (s, p)" if "file_row_at db s p = Some f" for f
    using that by (auto simp: file_row_at_def dest!: row_with_SomeD)
  ultimately show ?thesis
    using Some by (cases "file_row_at db s p") auto
qed

lemma upsert_file_frame:
  "upsert_file db row = Inr db' \<Longrightarrow> db_users db' = db_users db \<and> db_tokens db' = db_tokens db \<and> db_sites db' = db_sites db"
  by (auto simp: upsert_file_def split: if_splits)

lemma upsert_file_fails: "upsert_file db row = Inl e \<Longrightarrow> site_by_slug db (f_site row) = None"
  by (auto simp: upsert_file_def split: if_splits)

lemma file_row_at_delete [row_simps]:
  assumes "db_ok db"
  shows "file_row_at (delete_file_row db site path) s p = (if (s, p) = (site, path) then None else file_row_at db s p)"
    and "file_row_at (snd (delete_files_under db site folder)) s p =
      (if s = site \<and> below folder p then None else file_row_at db s p)"
    and "file_row_at (snd (delete_site_row db site)) s p = (if s = site then None else file_row_at db s p)"
  using row_with_delete [OF db_okD(7) [OF assms], of "(s, p)"]
  by (auto simp: file_row_at_def delete_file_row_def delete_files_under_def delete_site_row_def
      split: option.splits dest!: row_with_SomeD)

lemma user_by_id_cong: "db_users db' = db_users db \<Longrightarrow> user_by_id db' i = user_by_id db i"
  by (simp add: user_by_id_def)

text \<open>Which tables each operation leaves alone.\<close>

lemma token_ops_frame [simp]:
  "db_users (touch_token db i l e) = db_users db" "db_sites (touch_token db i l e) = db_sites db"
  "db_files (touch_token db i l e) = db_files db"
  "db_users (revoke_token db i at) = db_users db" "db_sites (revoke_token db i at) = db_sites db"
  "db_files (revoke_token db i at) = db_files db"
  "db_users (snd (revoke_other_sessions db u k at)) = db_users db"
  "db_sites (snd (revoke_other_sessions db u k at)) = db_sites db"
  "db_files (snd (revoke_other_sessions db u k at)) = db_files db"
  by (simp_all add: touch_token_def revoke_token_def revoke_other_sessions_def split: option.split)

lemma insert_token_frame:
  "insert_token db t d = Inr db' \<Longrightarrow> db_users db' = db_users db \<and> db_sites db' = db_sites db \<and> db_files db' = db_files db"
  by (auto simp: insert_token_def split: if_splits)

lemma insert_user_frame:
  "insert_user db u = Inr db' \<Longrightarrow> db_tokens db' = db_tokens db \<and> db_sites db' = db_sites db \<and> db_files db' = db_files db"
  by (auto simp: insert_user_def split: if_splits)

lemma user_ops_frame [simp]:
  "db_tokens (set_password_hash db u h) = db_tokens db" "db_sites (set_password_hash db u h) = db_sites db"
  "db_files (set_password_hash db u h) = db_files db"
  "db_sites (snd (delete_user db u)) = db_sites db" "db_files (snd (delete_user db u)) = db_files db"
  by (simp_all add: set_password_hash_def delete_user_def)

lemma count_set_password_hash [simp]: "count_users (set_password_hash db u h) = count_users db"
  by (simp add: count_users_def set_password_hash_def)

end
