(* ===== verification/Accounts.thy ===== *)
theory Accounts
  imports Db
begin

text \<open>
  Accounts, sessions and agent tokens, \<open>src/paper_boxing/backend/accounts.py\<close>.  Each method of
  \<open>Accounts\<close> takes the database and returns the new one.  What the code draws or reads from
  outside is an argument: the time (\<open>now\<close>), the random draws (\<open>draws\<close>), the argon2
  password hasher and sha256 (\<open>accounts\<close>).  The verification against a decoy hash, made so that
  an unknown username takes the time a wrong password takes, computes nothing and has no place
  here.
\<close>

section \<open>Secrets and headers\<close>

text \<open>
  The argon2 hasher: \<open>h_hash salt password\<close>, \<open>h_verify hash password\<close> (true when
  \<open>verify\<close> returns, false when it raises), \<open>h_needs_rehash hash\<close>.
\<close>

record hasher =
  h_hash :: "ustring \<Rightarrow> ustring \<Rightarrow> ustring"
  h_verify :: "ustring \<Rightarrow> ustring \<Rightarrow> bool"
  h_needs_rehash :: "ustring \<Rightarrow> bool"

record accounts =
  ac_session_length :: time
  ac_hasher :: hasher
  ac_sha256 :: "octets \<Rightarrow> ustring"

text \<open>What one call draws: \<open>token_hex(6)\<close>, \<open>token_urlsafe(32)\<close> and argon2's salt.\<close>

record draws =
  dr_hex :: ustring
  dr_urlsafe :: ustring
  dr_salt :: ustring

definition TOKEN_PREFIX :: ustring where "TOKEN_PREFIX = lit ''pb_''"

definition new_secret :: "draws \<Rightarrow> ustring" where
  "new_secret dr = TOKEN_PREFIX @ dr_urlsafe dr"

definition new_id :: "draws \<Rightarrow> string \<Rightarrow> ustring" where
  "new_id dr pre = lit pre @ lit ''_'' @ dr_hex dr"

definition secret_digest :: "accounts \<Rightarrow> ustring \<Rightarrow> exn + ustring" where
  "secret_digest ac secret =
     (case utf8_encode secret of None \<Rightarrow> Inl UnicodeEncodeError | Some b \<Rightarrow> Inr (ac_sha256 ac b))"

text \<open>
  The comparison of \<open>scheme.lower()\<close> with an ASCII word needs ASCII letters only: no other
  character a header can hold has an ASCII letter as its lowercase form.
\<close>

definition parse_bearer :: "ustring option \<Rightarrow> ustring option" where
  "parse_bearer header =
     (case header of None \<Rightarrow> None
      | Some h \<Rightarrow>
          if h = [] then None
          else let (scheme, v) = partition_on 32 h; value = strip is_space v in
            if map ascii_lower scheme \<noteq> lit ''bearer'' \<or> value = [] then None else Some value)"

section \<open>Users\<close>

record actor =
  a_token :: token_row
  a_user :: user_row

definition public_user :: "user_row \<Rightarrow> user_out" where
  "public_user user = \<lparr>uo_id = u_id user, uo_username = u_username user, uo_created_at = u_created_at user\<rparr>"

definition public_token :: "token_row \<Rightarrow> ustring \<Rightarrow> token_out" where
  "public_token token username =
     \<lparr>to_id = t_id token, to_name = t_name token, to_type = t_type token, to_scope = t_scope token,
      to_username = username, to_created_at = t_created_at token,
      to_last_used_at = t_last_used_at token, to_expires_at = t_expires_at token\<rparr>"

definition create_user ::
  "accounts \<Rightarrow> time \<Rightarrow> draws \<Rightarrow> ustring \<Rightarrow> ustring \<Rightarrow> database \<Rightarrow> (exn + user_row) \<times> database" where
  "create_user ac now dr username password db =
     (let user = \<lparr>u_id = new_id dr ''usr'', u_username = username,
                  u_password_hash = h_hash (ac_hasher ac) (dr_salt dr) password, u_created_at = now\<rparr>
      in case insert_user db user of Inl e \<Rightarrow> (Inl e, db) | Inr db' \<Rightarrow> (Inr user, db'))"

definition bootstrap ::
  "accounts \<Rightarrow> time \<Rightarrow> draws \<Rightarrow> ustring option \<Rightarrow> ustring option \<Rightarrow> database
    \<Rightarrow> (exn + user_row option) \<times> database" where
  "bootstrap ac now dr username password db =
     (if count_users db > 0 then (Inr None, db)
      else case (username, password) of
        (Some name, Some pw) \<Rightarrow>
          if \<not> valid_new_user name pw then (Inl ValueError, db)
          else (case create_user ac now dr name pw db of
                  (Inl e, db') \<Rightarrow> (Inl e, db') | (Inr user, db') \<Rightarrow> (Inr (Some user), db'))
      | _ \<Rightarrow> (Inr None, db))"

definition verify_password ::
  "accounts \<Rightarrow> draws \<Rightarrow> user_row \<Rightarrow> ustring \<Rightarrow> database \<Rightarrow> bool \<times> database" where
  "verify_password ac dr user password db =
     (let h = ac_hasher ac in
      if \<not> h_verify h (u_password_hash user) password then (False, db)
      else if h_needs_rehash h (u_password_hash user)
        then (True, set_password_hash db (u_id user) (h_hash h (dr_salt dr) password))
      else (True, db))"

definition set_new_password ::
  "accounts \<Rightarrow> draws \<Rightarrow> user_row \<Rightarrow> ustring \<Rightarrow> database \<Rightarrow> database" where
  "set_new_password ac dr user new_password db =
     set_password_hash db (u_id user) (h_hash (ac_hasher ac) (dr_salt dr) new_password)"

definition remove_user :: "ustring \<Rightarrow> database \<Rightarrow> bool \<times> database" where
  "remove_user user_id db = delete_user db user_id"

section \<open>Sessions\<close>

definition login ::
  "accounts \<Rightarrow> time \<Rightarrow> draws \<Rightarrow> ustring \<Rightarrow> ustring \<Rightarrow> database
    \<Rightarrow> (exn + (user_row \<times> token_row \<times> ustring) option) \<times> database" where
  "login ac now dr username password db =
     (case user_by_username db username of
        None \<Rightarrow> (Inr None, db)
      | Some user \<Rightarrow>
          (case verify_password ac dr user password db of
             (False, db') \<Rightarrow> (Inr None, db')
           | (True, db') \<Rightarrow>
               let session = \<lparr>t_id = new_id dr ''tok'', t_name = lit ''session'', t_type = SESSION,
                     t_scope = SESSION_SCOPE, t_user_id = u_id user, t_created_at = now,
                     t_last_used_at = None, t_expires_at = Some (now + ac_session_length ac),
                     t_revoked_at = None\<rparr>;
                   secret = new_secret dr
               in case secret_digest ac secret of
                    Inl e \<Rightarrow> (Inl e, db')
                  | Inr digest \<Rightarrow>
                      (case insert_token db' session digest of
                         Inl e \<Rightarrow> (Inl e, db')
                       | Inr db'' \<Rightarrow> (Inr (Some (user, session, secret)), db''))))"

definition logout :: "time \<Rightarrow> token_row \<Rightarrow> database \<Rightarrow> database" where
  "logout now session db = revoke_token db (t_id session) now"

definition sign_out_others :: "time \<Rightarrow> user_row \<Rightarrow> token_row \<Rightarrow> database \<Rightarrow> nat \<times> database" where
  "sign_out_others now user keep db = revoke_other_sessions db (u_id user) (t_id keep) now"

definition resolve_bearer ::
  "accounts \<Rightarrow> time \<Rightarrow> ustring option \<Rightarrow> database \<Rightarrow> (exn + actor option) \<times> database" where
  "resolve_bearer ac now header db =
     (case parse_bearer header of None \<Rightarrow> (Inr None, db)
      | Some secret \<Rightarrow>
        (case secret_digest ac secret of Inl e \<Rightarrow> (Inl e, db)
         | Inr digest \<Rightarrow>
           (case token_by_secret db digest of None \<Rightarrow> (Inr None, db)
            | Some token \<Rightarrow>
                if t_revoked_at token \<noteq> None then (Inr None, db)
                else if (case t_expires_at token of None \<Rightarrow> False | Some e \<Rightarrow> e \<le> now)
                  then (Inr None, revoke_token db (t_id token) now)
                else
                  (case user_by_id db (t_user_id token) of None \<Rightarrow> (Inr None, db)
                   | Some user \<Rightarrow>
                       let expires_at = (if t_type token = SESSION then Some (now + ac_session_length ac) else None)
                       in (Inr (Some \<lparr>a_token = token\<lparr>t_last_used_at := Some now, t_expires_at := expires_at\<rparr>,
                                      a_user = user\<rparr>),
                           touch_token db (t_id token) now expires_at)))))"

definition purge_dead_sessions :: "time \<Rightarrow> database \<Rightarrow> nat \<times> database" where
  "purge_dead_sessions now db = delete_dead_sessions db now"

section \<open>Agent tokens\<close>

definition create_agent_token ::
  "accounts \<Rightarrow> time \<Rightarrow> draws \<Rightarrow> user_row \<Rightarrow> ustring \<Rightarrow> scope \<Rightarrow> database
    \<Rightarrow> (exn + token_row \<times> ustring) \<times> database" where
  "create_agent_token ac now dr owner name scope db =
     (let token = \<lparr>t_id = new_id dr ''tok'', t_name = name, t_type = AGENT, t_scope = scope,
            t_user_id = u_id owner, t_created_at = now, t_last_used_at = None, t_expires_at = None,
            t_revoked_at = None\<rparr>;
          secret = new_secret dr
      in case secret_digest ac secret of
           Inl e \<Rightarrow> (Inl e, db)
         | Inr digest \<Rightarrow>
             (case insert_token db token digest of
                Inl e \<Rightarrow> (Inl e, db) | Inr db' \<Rightarrow> (Inr (token, secret), db')))"

definition revoke_agent_token :: "time \<Rightarrow> ustring \<Rightarrow> database \<Rightarrow> bool \<times> database" where
  "revoke_agent_token now token_id db =
     (case token_by_id db token_id of
        None \<Rightarrow> (False, db)
      | Some token \<Rightarrow>
          if t_type token \<noteq> AGENT \<or> t_revoked_at token \<noteq> None then (False, db)
          else (True, revoke_token db token_id now))"

definition public_agent_tokens :: "database \<Rightarrow> token_out list" where
  "public_agent_tokens db = map (\<lambda>(token, username). public_token token username) (list_agent_tokens db)"

definition token_self :: "actor \<Rightarrow> token_self_out" where
  "token_self a =
     \<lparr>ts_id = t_id (a_token a), ts_name = t_name (a_token a), ts_type = t_type (a_token a),
      ts_scope = t_scope (a_token a), ts_username = u_username (a_user a),
      ts_expires_at = t_expires_at (a_token a)\<rparr>"

section \<open>Invariants\<close>

text \<open>
  Every stored session has an expiry and the session scope; an agent token has no expiry.
  Together with the integrity of the database this is the invariant of the accounts.
\<close>

definition token_shape :: "token_row \<Rightarrow> bool" where
  "token_shape t \<longleftrightarrow>
     (if t_type t = SESSION then t_expires_at t \<noteq> None \<and> t_scope t = SESSION_SCOPE
      else t_expires_at t = None)"

definition accounts_ok :: "database \<Rightarrow> bool" where
  "accounts_ok db \<longleftrightarrow> db_ok db \<and> list_all (token_shape \<circ> snd) (db_tokens db)"

lemma accounts_okD: "accounts_ok db \<Longrightarrow> db_ok db"
  by (simp add: accounts_ok_def)

lemma accounts_ok_shape: "accounts_ok db \<Longrightarrow> (d, t) \<in> set (db_tokens db) \<Longrightarrow> token_shape t"
  by (auto simp: accounts_ok_def list_all_iff)

text \<open>What a call does to the tokens, as an update of the row each digest finds.\<close>

lemma accounts_ok_update:
  assumes "accounts_ok db" "\<And>t. t_id (f t) = t_id t" "\<And>t. t_user_id (f t) = t_user_id t"
    "\<And>t. P t \<Longrightarrow> token_shape t \<Longrightarrow> token_shape (f t)"
  shows "accounts_ok (update_token db P f)"
  using assms update_token_ok [of db f P]
  by (fastforce simp: accounts_ok_def list_all_iff update_token_def set_update_rows)

lemma accounts_ok_revoke [preserves]: "accounts_ok db \<Longrightarrow> accounts_ok (revoke_token db i at)"
  unfolding revoke_token_def by (rule accounts_ok_update) (auto simp: token_shape_def)

lemma accounts_ok_revoke_others [preserves]:
  "accounts_ok db \<Longrightarrow> accounts_ok (snd (revoke_other_sessions db u k at))"
  unfolding revoke_other_sessions_def snd_conv by (rule accounts_ok_update) (auto simp: token_shape_def)

lemma accounts_ok_delete:
  assumes "accounts_ok db" "db_ok db'" "set (db_tokens db') \<subseteq> set (db_tokens db)"
  shows "accounts_ok db'"
  using assms by (auto simp: accounts_ok_def list_all_iff)

lemma accounts_ok_insert_token [preserves]:
  "accounts_ok db \<Longrightarrow> token_shape t \<Longrightarrow> insert_token db t d = Inr db' \<Longrightarrow> accounts_ok db'"
  using insert_token_ok [of db t d db'] by (auto simp: accounts_ok_def insert_token_def list_all_iff split: if_splits)

lemma accounts_ok_same_tokens [preserves]:
  "accounts_ok db \<Longrightarrow> db_ok db' \<Longrightarrow> db_tokens db' = db_tokens db \<Longrightarrow> accounts_ok db'"
  by (simp add: accounts_ok_def)

lemma accounts_ok_touch:
  assumes "accounts_ok db" "(d, t) \<in> set (db_tokens db)" "e \<noteq> None \<longleftrightarrow> t_type t = SESSION"
  shows "accounts_ok (touch_token db (t_id t) l e)"
proof -
  have "token_shape t'" if "(d', t') \<in> set (db_tokens (touch_token db (t_id t) l e))" for d' t'
  proof -
    have "\<exists>t0. (d', t0) \<in> set (db_tokens db) \<and>
        t' = (if t_id t0 = t_id t then (case e of None \<Rightarrow> t0\<lparr>t_last_used_at := Some l\<rparr>
               | Some x \<Rightarrow> t0\<lparr>t_last_used_at := Some l, t_expires_at := Some x\<rparr>) else t0)"
      using that by (auto simp: touch_token_def update_token_def set_update_rows split: option.splits if_splits)
    then obtain t0 where t0: "(d', t0) \<in> set (db_tokens db)"
      "t' = (if t_id t0 = t_id t then (case e of None \<Rightarrow> t0\<lparr>t_last_used_at := Some l\<rparr>
               | Some x \<Rightarrow> t0\<lparr>t_last_used_at := Some l, t_expires_at := Some x\<rparr>) else t0)" by blast
    have "t_id t0 = t_id t \<Longrightarrow> t0 = t"
      using same_token_id [OF accounts_okD [OF assms(1)] t0(1) assms(2)] by simp
    moreover have "token_shape t0" using accounts_ok_shape [OF assms(1) t0(1)] .
    ultimately show ?thesis
      using t0(2) assms(3) by (auto simp: token_shape_def split: option.splits)
  qed
  then have "list_all (token_shape \<circ> snd) (db_tokens (touch_token db (t_id t) l e))"
    by (auto simp: list_all_iff)
  then show ?thesis using assms(1) touch_token_ok by (simp add: accounts_ok_def)
qed

section \<open>Live tokens\<close>

definition live_token :: "time \<Rightarrow> token_row \<Rightarrow> bool" where
  "live_token now t \<longleftrightarrow>
     t_revoked_at t = None \<and> (case t_expires_at t of None \<Rightarrow> True | Some e \<Rightarrow> now < e)"

text \<open>The row a presented secret finds.\<close>

definition stored_token :: "accounts \<Rightarrow> database \<Rightarrow> ustring \<Rightarrow> token_row option" where
  "stored_token ac db secret =
     (case secret_digest ac secret of Inl e \<Rightarrow> None | Inr d \<Rightarrow> token_by_secret db d)"

lemma live_token_later: "live_token now' t \<Longrightarrow> now \<le> now' \<Longrightarrow> live_token now t"
  by (auto simp: live_token_def split: option.splits)

lemma stored_tokenE:
  assumes "stored_token ac db secret = Some t"
  obtains d where "secret_digest ac secret = Inr d" "token_by_secret db d = Some t"
  using assms by (auto simp: stored_token_def split: sum.splits)

text \<open>The cases of a resolution, as one equation over the stored row.\<close>

lemma resolve_bearer_live:
  assumes "accounts_ok db" "parse_bearer h = Some secret" "stored_token ac db secret = Some t" "live_token now t"
  obtains u where "user_by_id db (t_user_id t) = Some u"
    "resolve_bearer ac now h db =
       (let e = (if t_type t = SESSION then Some (now + ac_session_length ac) else None)
        in (Inr (Some \<lparr>a_token = t\<lparr>t_last_used_at := Some now, t_expires_at := e\<rparr>, a_user = u\<rparr>),
            touch_token db (t_id t) now e))"
proof -
  obtain d where d: "secret_digest ac secret = Inr d" "token_by_secret db d = Some t"
    using assms(3) by (rule stored_tokenE)
  obtain u where u: "user_by_id db (t_user_id t) = Some u"
    using token_owner [OF accounts_okD [OF assms(1)] token_by_secret_in [OF d(2)]] by blast
  show ?thesis
    by (rule that [OF u])
      (use assms(2,4) d u in \<open>auto simp: resolve_bearer_def live_token_def Let_def split: option.splits\<close>)
qed

lemma resolve_bearer_dead:
  assumes "parse_bearer h = Some secret" "stored_token ac db secret = Some t" "\<not> live_token now t"
  shows "resolve_bearer ac now h db =
     (Inr None, if t_revoked_at t = None then revoke_token db (t_id t) now else db)"
  using assms by (auto simp: resolve_bearer_def live_token_def elim!: stored_tokenE split: option.splits)

lemma resolve_bearer_unknown:
  assumes "parse_bearer h = None \<or> (\<exists>secret. parse_bearer h = Some secret \<and> stored_token ac db secret = None)"
  shows "resolve_bearer ac now h db = (Inr None, db) \<or> resolve_bearer ac now h db = (Inl UnicodeEncodeError, db)"
  using assms
  by (auto simp: resolve_bearer_def stored_token_def secret_digest_def split: option.splits sum.splits)

end
