(* ===== verification/Sessions.thy ===== *)
theory Sessions
  imports Accounts
begin

text \<open>
  What the tokens of \<open>src/paper_boxing/backend/accounts.py\<close> grant, and for how long: the
  effect of each operation of \<open>Accounts\<close> on what every stored secret is good for, and the
  runs of the whole module as a step relation over a clock that does not go back.
\<close>

section \<open>Grants\<close>

text \<open>What the secret with a given digest is good for at a time: type, scope and owner.\<close>

definition grant_of :: "token_row \<Rightarrow> token_type \<times> scope \<times> ustring" where
  "grant_of t = (t_type t, t_scope t, t_user_id t)"

definition grants :: "time \<Rightarrow> database \<Rightarrow> ustring \<Rightarrow> (token_type \<times> scope \<times> ustring) option" where
  "grants now db d =
     (case token_by_secret db d of None \<Rightarrow> None
      | Some t \<Rightarrow> if live_token now t then Some (grant_of t) else None)"

lemma grants_later: "grants now' db d = Some g \<Longrightarrow> now \<le> now' \<Longrightarrow> grants now db d = Some g"
  by (auto simp: grants_def intro: live_token_later split: option.splits if_splits)

text \<open>The header the clients send (\<open>_headers\<close> of \<open>common/client.py\<close>).\<close>

definition bearer_header :: "ustring \<Rightarrow> ustring" where
  "bearer_header secret = lit ''Bearer '' @ secret"

definition urlsafe_char :: "nat \<Rightarrow> bool" where
  "urlsafe_char c \<longleftrightarrow> ascii_alnum c \<or> c = hyphen \<or> c = 95"

lemma urlsafe_not_space: "urlsafe_char c \<Longrightarrow> \<not> is_space c"
  by (auto simp: urlsafe_char_def ascii_alnum_def is_space_def)

lemma new_secret_not_space:
  assumes "list_all urlsafe_char (dr_urlsafe dr)" "c \<in> set (new_secret dr)"
  shows "\<not> is_space c"
proof -
  have "list_all urlsafe_char (new_secret dr)"
    using assms(1) by (simp add: new_secret_def TOKEN_PREFIX_def urlsafe_char_def ascii_alnum_def)
  then show ?thesis using assms(2) urlsafe_not_space by (auto simp: list_all_iff)
qed

lemma parse_bearer_header:
  assumes "secret \<noteq> []" "\<And>c. c \<in> set secret \<Longrightarrow> \<not> is_space c"
  shows "parse_bearer (Some (bearer_header secret)) = Some secret"
proof -
  have "partition_on 32 (lit ''Bearer'' @ 32 # secret) = (lit ''Bearer'', secret)"
    by (rule partition_found) simp
  moreover have "strip is_space secret = secret"
    using assms by (intro strip_id) auto
  moreover have "bearer_header secret = lit ''Bearer'' @ 32 # secret" by (simp add: bearer_header_def)
  ultimately show ?thesis using assms(1)
    by (simp add: parse_bearer_def ascii_lower_def)
qed

section \<open>The effect of each write\<close>

lemma touch_found:
  assumes "accounts_ok db" "token_by_secret db d = Some t" "e \<noteq> None \<longleftrightarrow> t_type t = SESSION"
  shows "token_by_secret (touch_token db (t_id t) l e) d' =
     (if d' = d then Some (t\<lparr>t_last_used_at := Some l, t_expires_at := e\<rparr>) else token_by_secret db d')"
proof -
  have other: "d' = d" if "token_by_secret db d' = Some t'" "t_id t' = t_id t" for t'
    using same_token_id [OF accounts_okD [OF assms(1)] token_by_secret_in [OF that(1)] token_by_secret_in [OF assms(2)]]
      that(2) by simp
  have "token_shape t" using accounts_ok_shape [OF assms(1) token_by_secret_in [OF assms(2)]] .
  then have agent: "e = None \<Longrightarrow> t_expires_at t = None" using assms(3) by (auto simp: token_shape_def)
  show ?thesis
    using assms(2) other agent
    by (cases "token_by_secret db d'") (auto simp: touch_token_def row_simps split: option.splits)
qed

lemma revoke_found:
  "token_by_secret (revoke_token db i at) d =
     map_option (\<lambda>t. if t_id t = i \<and> t_revoked_at t = None then t\<lparr>t_revoked_at := Some at\<rparr> else t) (token_by_secret db d)"
  by (simp add: revoke_token_def row_simps)

lemma delete_found:
  assumes "db_ok db" "db_tokens db' = delete_rows (\<lambda>(_, t). P t) (db_tokens db)"
  shows "token_by_secret db' d =
     (case token_by_secret db d of None \<Rightarrow> None | Some t \<Rightarrow> if P t then None else Some t)"
  using row_with_delete [OF db_okD(4) [OF assms(1)], of d "\<lambda>(_, t). P t"] assms(2)
  by (auto simp: token_by_secret_def split: option.splits prod.splits)

lemma same_tokens_found: "db_tokens db' = db_tokens db \<Longrightarrow> token_by_secret db' d = token_by_secret db d"
  by (simp add: token_by_secret_def)

lemma grants_revoke:
  "grants now (revoke_token db i at) d =
     (case token_by_secret db d of None \<Rightarrow> None | Some t \<Rightarrow> if t_id t = i then None else grants now db d)"
  by (auto simp: grants_def revoke_found live_token_def split: option.splits)

section \<open>Who may act\<close>

lemma resolve_found:
  assumes "accounts_ok db" "resolve_bearer ac now h db = (Inr (Some a), db')"
  shows "\<exists>secret d t. parse_bearer h = Some secret \<and> secret_digest ac secret = Inr d
     \<and> token_by_secret db d = Some t \<and> live_token now t
     \<and> user_by_id db (t_user_id t) = Some (a_user a)
     \<and> a_token a = t\<lparr>t_last_used_at := Some now,
          t_expires_at := (if t_type t = SESSION then Some (now + ac_session_length ac) else None)\<rparr>
     \<and> (\<forall>d'. token_by_secret db' d' = (if d' = d then Some (a_token a) else token_by_secret db d'))
     \<and> db_users db' = db_users db \<and> accounts_ok db'"
proof -
  obtain secret where s: "parse_bearer h = Some secret"
    using assms(2) by (auto simp: resolve_bearer_def split: option.splits)
  obtain t where t: "stored_token ac db secret = Some t"
    using assms(2) resolve_bearer_unknown [of h ac db now] s by (cases "stored_token ac db secret") auto
  have live: "live_token now t"
    using assms(2) resolve_bearer_dead [OF s t, of now] by (cases "live_token now t") auto
  obtain d where d: "secret_digest ac secret = Inr d" "token_by_secret db d = Some t"
    using t by (rule stored_tokenE)
  define e where "e = (if t_type t = SESSION then Some (now + ac_session_length ac) else None)"
  obtain u where u: "user_by_id db (t_user_id t) = Some u"
    "a = \<lparr>a_token = t\<lparr>t_last_used_at := Some now, t_expires_at := e\<rparr>, a_user = u\<rparr>"
    "db' = touch_token db (t_id t) now e"
    using resolve_bearer_live [OF assms(1) s t live] assms(2) unfolding e_def
    by (metis (no_types, lifting) Inr_inject option.inject prod.inject)
  have "e \<noteq> None \<longleftrightarrow> t_type t = SESSION" by (simp add: e_def)
  from touch_found [OF assms(1) d(2) this] accounts_ok_touch [OF assms(1) token_by_secret_in [OF d(2)] this]
  show ?thesis using s d live u by (auto simp: e_def)
qed

lemma resolve_kept:
  assumes "resolve_bearer ac now h db = (r, db')" "\<not> (\<exists>a. r = Inr (Some a))" "accounts_ok db" "now \<le> now'"
  shows "grants now' db' d = grants now' db d"
proof -
  consider "db' = db" | secret t where "parse_bearer h = Some secret" "stored_token ac db secret = Some t"
    "\<not> live_token now t" "db' = revoke_token db (t_id t) now"
  proof (cases "parse_bearer h")
    case (Some secret)
    show ?thesis
    proof (cases "stored_token ac db secret")
      case None
      then show ?thesis using resolve_bearer_unknown [of h ac db now] Some assms(1) that(1) by auto
    next
      case t: (Some t)
      have dead: "\<not> live_token now t"
        using resolve_bearer_live [OF assms(3) Some t, of now] assms(1,2) by (metis prod.inject)
      show ?thesis
        using resolve_bearer_dead [OF Some t dead] assms(1) that(1) that(2) [OF Some t dead]
        by (auto split: if_splits)
    qed
  qed (use resolve_bearer_unknown [of h ac db now] assms(1) that(1) in auto)
  then show ?thesis
  proof cases
    case (2 secret t)
    obtain d0 where d0: "token_by_secret db d0 = Some t" using 2(2) by (rule stored_tokenE)
    have "t' = t" if "token_by_secret db d = Some t'" "t_id t' = t_id t" for t'
      using same_token_id [OF accounts_okD [OF assms(3)] token_by_secret_in [OF that(1)] token_by_secret_in [OF d0]]
        that(2) by simp
    moreover have "\<not> live_token now' t" using 2(3) assms(4) live_token_later by blast
    ultimately show ?thesis
      unfolding 2(4) grants_revoke by (auto simp: grants_def split: option.splits)
  qed simp
qed

text \<open>
  A request gets an actor only from a secret that is stored and live at that moment.
  The actor is that token with its owner; the use is recorded on that token and on no other,
  and a session's expiry moves to one session length from now while an agent token stays
  without one.
\<close>

theorem resolve_bearer_actor:
  assumes "accounts_ok db" "resolve_bearer ac now h db = (Inr (Some a), db')"
  shows "\<exists>secret d t. parse_bearer h = Some secret \<and> secret_digest ac secret = Inr d
     \<and> token_by_secret db d = Some t \<and> live_token now t
     \<and> user_by_id db (t_user_id t) = Some (a_user a)
     \<and> a_token a = t\<lparr>t_last_used_at := Some now,
          t_expires_at := (if t_type t = SESSION then Some (now + ac_session_length ac) else None)\<rparr>
     \<and> (\<forall>d'. token_by_secret db' d' = (if d' = d then Some (a_token a) else token_by_secret db d'))
     \<and> db_users db' = db_users db \<and> accounts_ok db'"
  using assms by (rule resolve_found)

text \<open>
  A call that gets no actor takes nothing from anyone and gives nothing to anyone: the
  refusal may end a session that has already expired, and every stored secret is good for
  exactly what it was good for, at this time and at any later one.
\<close>

theorem resolve_bearer_refused:
  assumes "resolve_bearer ac now h db = (r, db')" "\<not> (\<exists>a. r = Inr (Some a))" "accounts_ok db" "now \<le> now'"
  shows "grants now' db' d = grants now' db d"
  using assms by (rule resolve_kept)

section \<open>Opening and ending sessions\<close>

lemma verify_password_frame:
  assumes "verify_password ac dr u pw db = (b, db')"
  shows "db_tokens db' = db_tokens db" "map u_id (db_users db') = map u_id (db_users db)"
    "map u_username (db_users db') = map u_username (db_users db)" "db_ok db \<Longrightarrow> db_ok db'"
    "db_sites db' = db_sites db" "db_files db' = db_files db" "\<not> b \<Longrightarrow> db' = db"
  using assms set_password_hash_ok
  by (auto simp: verify_password_def Let_def set_password_hash_def split: if_splits)

lemma verify_password_ok: "accounts_ok db \<Longrightarrow> verify_password ac dr u pw db = (b, db') \<Longrightarrow> accounts_ok db'"
  using verify_password_frame [of ac dr u pw db b db'] accounts_ok_same_tokens accounts_okD by blast

text \<open>A successful login, step by step.\<close>

lemma login_cases:
  assumes "login ac now dr un pw db = (Inr (Some (u, s, secret)), db')"
  obtains db1 d where "user_by_username db un = Some u" "verify_password ac dr u pw db = (True, db1)"
    "s = \<lparr>t_id = new_id dr ''tok'', t_name = lit ''session'', t_type = SESSION, t_scope = SESSION_SCOPE,
          t_user_id = u_id u, t_created_at = now, t_last_used_at = None,
          t_expires_at = Some (now + ac_session_length ac), t_revoked_at = None\<rparr>"
    "secret = new_secret dr" "secret_digest ac secret = Inr d" "insert_token db1 s d = Inr db'"
  using assms by (auto simp: login_def Let_def split: option.splits bool.splits prod.splits sum.splits)

lemma login_refused:
  "login ac now dr un pw db = (Inr None, db') \<Longrightarrow> db' = db"
  using verify_password_frame(7)
  by (auto simp: login_def Let_def split: option.splits bool.splits prod.splits sum.splits)

lemma login_session:
  assumes "accounts_ok db" "login ac now dr un pw db = (Inr (Some (u, s, secret)), db')"
    and "list_all urlsafe_char (dr_urlsafe dr)"
  obtains "parse_bearer (Some (bearer_header secret)) = Some secret" "stored_token ac db' secret = Some s"
    "s = \<lparr>t_id = new_id dr ''tok'', t_name = lit ''session'', t_type = SESSION, t_scope = SESSION_SCOPE,
          t_user_id = u_id u, t_created_at = now, t_last_used_at = None,
          t_expires_at = Some (now + ac_session_length ac), t_revoked_at = None\<rparr>"
    "user_by_username db un = Some u" "accounts_ok db'"
proof -
  obtain db1 d where l: "user_by_username db un = Some u" "verify_password ac dr u pw db = (True, db1)"
    "s = \<lparr>t_id = new_id dr ''tok'', t_name = lit ''session'', t_type = SESSION, t_scope = SESSION_SCOPE,
          t_user_id = u_id u, t_created_at = now, t_last_used_at = None,
          t_expires_at = Some (now + ac_session_length ac), t_revoked_at = None\<rparr>"
    "secret = new_secret dr" "secret_digest ac secret = Inr d" "insert_token db1 s d = Inr db'"
    using assms(2) by (rule login_cases)
  have ok1: "accounts_ok db1" by (rule verify_password_ok [OF assms(1) l(2)])
  have "accounts_ok db'"
    by (rule accounts_ok_insert_token [OF ok1 _ l(6)]) (simp add: l(3) token_shape_def)
  moreover have "secret \<noteq> []" by (simp add: l(4) new_secret_def TOKEN_PREFIX_def)
  then have "parse_bearer (Some (bearer_header secret)) = Some secret"
    using new_secret_not_space [OF assms(3)] l(4) by (intro parse_bearer_header) auto
  moreover have "stored_token ac db' secret = Some s"
    using l(5) token_by_secret_insert [OF l(6), of d] by (simp add: stored_token_def)
  ultimately show ?thesis using that l(1,3) by blast
qed

text \<open>
  A login opens a session for the account it names and nothing else: until the session
  length has passed, the header the clients build from the returned secret resolves to that
  account, with a session token of the session's scope whose expiry slides forward again.
\<close>

theorem login_opens_session:
  assumes "accounts_ok db" "login ac now dr un pw db = (Inr (Some (u, s, secret)), db')"
    and "list_all urlsafe_char (dr_urlsafe dr)" "now \<le> now'" "now' < now + ac_session_length ac"
  shows "\<exists>a db''. resolve_bearer ac now' (Some (bearer_header secret)) db' = (Inr (Some a), db'')
     \<and> u_id (a_user a) = u_id u \<and> u_username u = un
     \<and> t_type (a_token a) = SESSION \<and> t_scope (a_token a) = SESSION_SCOPE
     \<and> t_expires_at (a_token a) = Some (now' + ac_session_length ac) \<and> accounts_ok db'"
proof -
  obtain p: "parse_bearer (Some (bearer_header secret)) = Some secret" and st: "stored_token ac db' secret = Some s"
    and s: "s = \<lparr>t_id = new_id dr ''tok'', t_name = lit ''session'', t_type = SESSION, t_scope = SESSION_SCOPE,
          t_user_id = u_id u, t_created_at = now, t_last_used_at = None,
          t_expires_at = Some (now + ac_session_length ac), t_revoked_at = None\<rparr>"
    and u: "user_by_username db un = Some u" and ok: "accounts_ok db'"
    using assms(1-3) by (rule login_session)
  have live: "live_token now' s" using assms(5) by (simp add: live_token_def s)
  obtain u' where "user_by_id db' (t_user_id s) = Some u'"
    "resolve_bearer ac now' (Some (bearer_header secret)) db' =
       (let e = (if t_type s = SESSION then Some (now' + ac_session_length ac) else None)
        in (Inr (Some \<lparr>a_token = s\<lparr>t_last_used_at := Some now', t_expires_at := e\<rparr>, a_user = u'\<rparr>),
            touch_token db' (t_id s) now' e))"
    using resolve_bearer_live [OF ok p st live] by blast
  moreover have "u_id u' = u_id u" if "user_by_id db' (t_user_id s) = Some u'"
    using that by (auto simp: user_by_id_def s dest!: row_with_SomeD)
  moreover have "u_username u = un" using u by (auto simp: user_by_username_def dest!: row_with_SomeD)
  ultimately show ?thesis using ok by (simp add: s Let_def)
qed

text \<open>What each ending operation takes away, and that it takes nothing else.\<close>

lemma grants_delete:
  assumes "db_ok db" "db_tokens db' = delete_rows (\<lambda>(_, t). P t) (db_tokens db)"
  shows "grants now db' d = (case token_by_secret db d of None \<Rightarrow> None | Some t \<Rightarrow> if P t then None else grants now db d)"
  using delete_found [OF assms, of d] by (auto simp: grants_def split: option.splits)

lemma remove_user_grants:
  assumes "accounts_ok db"
  shows "grants now (snd (remove_user i db)) d =
     (case grants now db d of None \<Rightarrow> None | Some (ty, sc, u) \<Rightarrow> if u = i then None else Some (ty, sc, u))"
  using grants_delete [OF accounts_okD [OF assms], of "snd (remove_user i db)" "\<lambda>t. t_user_id t = i" now d]
  by (auto simp: remove_user_def delete_user_def grants_def grant_of_def split: option.splits)

lemma sign_out_grants:
  "grants now' (snd (sign_out_others now u keep db)) d =
     (case token_by_secret db d of None \<Rightarrow> None
      | Some t \<Rightarrow> if t_type t = SESSION \<and> t_user_id t = u_id u \<and> t_id t \<noteq> t_id keep then None
                 else grants now' db d)"
  by (auto simp: sign_out_others_def revoke_other_sessions_def grants_def row_simps other_live_session_def
      live_token_def grant_of_def split: option.splits)

lemma token_by_id_found:
  assumes "db_ok db"
  shows "token_by_id db i = Some t \<longleftrightarrow> (\<exists>d. token_by_secret db d = Some t \<and> t_id t = i)"
proof
  assume "token_by_id db i = Some t"
  then show "\<exists>d. token_by_secret db d = Some t \<and> t_id t = i"
    using token_by_id_in token_by_secret_iff [OF assms] by blast
next
  assume "\<exists>d. token_by_secret db d = Some t \<and> t_id t = i"
  then obtain d where d: "(d, t) \<in> set (db_tokens db)" "t_id t = i" using token_by_secret_in by blast
  have "row_with tok_id (tok_id (d, t)) (db_tokens db) = Some (d, t)"
    using db_okD(3) [OF assms] d(1) by (rule row_with_unique)
  with d(2) show "token_by_id db i = Some t" by (simp add: token_by_id_def)
qed

lemma revoke_agent_grants:
  assumes "accounts_ok db"
  shows "grants now' (snd (revoke_agent_token now i db)) d =
     (case token_by_secret db d of None \<Rightarrow> None
      | Some t \<Rightarrow> if t_id t = i \<and> t_type t = AGENT then None else grants now' db d)"
proof (cases "token_by_secret db d")
  case (Some t)
  show ?thesis
  proof (cases "t_id t = i")
    case True
    then have "token_by_id db i = Some t" using Some token_by_id_found [OF accounts_okD [OF assms]] by blast
    then show ?thesis
      using True Some by (auto simp: revoke_agent_token_def revoke_found grants_def live_token_def)
  next
    case False
    then show ?thesis
      using Some by (auto simp: revoke_agent_token_def grants_revoke split: option.splits)
  qed
qed (auto simp: revoke_agent_token_def revoke_found grants_def split: option.splits)

lemma purge_grants:
  assumes "accounts_ok db" "now \<le> now'"
  shows "grants now' (snd (purge_dead_sessions now db)) d = grants now' db d"
proof -
  have "\<not> live_token now' t" if "dead_session now t" for t
    using that assms(2) by (auto simp: dead_session_def live_token_def split: option.splits)
  then show ?thesis
    using grants_delete [OF accounts_okD [OF assms(1)], of "snd (purge_dead_sessions now db)" "dead_session now" now' d]
    by (auto simp: purge_dead_sessions_def delete_dead_sessions_def grants_def split: option.splits)
qed

text \<open>
  Removing an account ends every token it owned, sessions and agent tokens alike, at
  once and for every secret, leaves the account out of the database, and leaves the tokens of
  every other account exactly what they were.
\<close>

theorem remove_user_ends_tokens:
  assumes "accounts_ok db" "remove_user i db = (b, db')"
  shows "grants now db' d =
       (case grants now db d of None \<Rightarrow> None | Some (ty, sc, u) \<Rightarrow> if u = i then None else Some (ty, sc, u))
     \<and> user_by_id db' i = None \<and> b = (user_by_id db i \<noteq> None) \<and> accounts_ok db'"
proof -
  have db': "db' = snd (remove_user i db)" "b = (user_by_id db i \<noteq> None)"
    using assms(2) by (auto simp: remove_user_def delete_user_def)
  have "user_by_id db' i = None"
    unfolding db' by (auto simp: user_by_id_def remove_user_def delete_user_def row_with_None)
  moreover have "accounts_ok db'"
    using accounts_ok_delete [OF assms(1) delete_user_ok [OF accounts_okD [OF assms(1)], of i]]
    unfolding db' by (auto simp: remove_user_def delete_user_def)
  ultimately show ?thesis using remove_user_grants [OF assms(1)] db' by simp
qed

text \<open>
  Signing out the other sessions after a password change ends the live sessions of that
  user except the one kept, and leaves that session, every agent token and every other user's
  session what they were.
\<close>

theorem sign_out_others_exact:
  "grants now' (snd (sign_out_others now u keep db)) d =
     (case token_by_secret db d of None \<Rightarrow> None
      | Some t \<Rightarrow> if t_type t = SESSION \<and> t_user_id t = u_id u \<and> t_id t \<noteq> t_id keep then None
                 else grants now' db d)"
  by (rule sign_out_grants)

text \<open>
  Revoking a token by its id succeeds exactly for an agent token that is live, ends that
  token and no other, and cannot touch a session.
\<close>

theorem revoke_agent_token_exact:
  assumes "accounts_ok db" "revoke_agent_token now i db = (b, db')"
  shows "b = (\<exists>d t. token_by_secret db d = Some t \<and> t_id t = i \<and> t_type t = AGENT \<and> live_token now t)
     \<and> grants now' db' d =
        (case token_by_secret db d of None \<Rightarrow> None
         | Some t \<Rightarrow> if t_id t = i \<and> t_type t = AGENT then None else grants now' db d)"
proof -
  note ok = accounts_okD [OF assms(1)]
  have live: "live_token now t \<longleftrightarrow> t_revoked_at t = None" if "token_by_secret db d = Some t" "t_type t = AGENT" for d t
    using accounts_ok_shape [OF assms(1) token_by_secret_in [OF that(1)]] that(2)
    by (auto simp: live_token_def token_shape_def split: option.splits)
  have "b = (\<exists>t. token_by_id db i = Some t \<and> t_type t = AGENT \<and> t_revoked_at t = None)"
    using assms(2) by (auto simp: revoke_agent_token_def split: option.splits if_splits)
  then have "b = (\<exists>d t. token_by_secret db d = Some t \<and> t_id t = i \<and> t_type t = AGENT \<and> live_token now t)"
    unfolding token_by_id_found [OF ok] using live by metis
  then show ?thesis using revoke_agent_grants [OF assms(1), of now' now i d] assms(2) by simp
qed

section \<open>Runs of the module\<close>

datatype auth_op =
    Bootstrap draws "ustring option" "ustring option"
  | CreateUser draws ustring ustring
  | VerifyPassword draws user_row ustring
  | ChangePassword draws user_row ustring
  | RemoveUser ustring
  | Login draws ustring ustring
  | Logout token_row
  | SignOutOthers user_row token_row
  | ResolveBearer "ustring option"
  | PurgeDeadSessions
  | CreateAgentToken draws user_row ustring scope
  | RevokeAgentToken ustring

fun auth_effect :: "accounts \<Rightarrow> time \<Rightarrow> auth_op \<Rightarrow> database \<Rightarrow> database" where
  "auth_effect ac now (Bootstrap dr un pw) db = snd (bootstrap ac now dr un pw db)"
| "auth_effect ac now (CreateUser dr un pw) db = snd (create_user ac now dr un pw db)"
| "auth_effect ac now (VerifyPassword dr u pw) db = snd (verify_password ac dr u pw db)"
| "auth_effect ac now (ChangePassword dr u pw) db = set_new_password ac dr u pw db"
| "auth_effect ac now (RemoveUser i) db = snd (remove_user i db)"
| "auth_effect ac now (Login dr un pw) db = snd (login ac now dr un pw db)"
| "auth_effect ac now (Logout t) db = logout now t db"
| "auth_effect ac now (SignOutOthers u t) db = snd (sign_out_others now u t db)"
| "auth_effect ac now (ResolveBearer h) db = snd (resolve_bearer ac now h db)"
| "auth_effect ac now PurgeDeadSessions db = snd (purge_dead_sessions now db)"
| "auth_effect ac now (CreateAgentToken dr u n sc) db = snd (create_agent_token ac now dr u n sc db)"
| "auth_effect ac now (RevokeAgentToken i) db = snd (revoke_agent_token now i db)"

text \<open>The secret an operation would hand out.\<close>

fun minted :: "accounts \<Rightarrow> auth_op \<Rightarrow> ustring option" where
  "minted ac (Login dr un pw) = (case secret_digest ac (new_secret dr) of Inl e \<Rightarrow> None | Inr d \<Rightarrow> Some d)"
| "minted ac (CreateAgentToken dr u n sc) = (case secret_digest ac (new_secret dr) of Inl e \<Rightarrow> None | Inr d \<Rightarrow> Some d)"
| "minted ac _ = None"

inductive auth_run :: "accounts \<Rightarrow> auth_op list \<Rightarrow> time \<times> database \<Rightarrow> time \<times> database \<Rightarrow> bool"
  for ac :: accounts where
  nothing: "now \<le> now' \<Longrightarrow> auth_run ac [] (now, db) (now', db)"
| then_op: "now \<le> now1 \<Longrightarrow> auth_run ac ops (now1, auth_effect ac now1 op db) s \<Longrightarrow> auth_run ac (op # ops) (now, db) s"

inductive_cases auth_run_NilE: "auth_run ac [] s s'"
inductive_cases auth_run_ConsE: "auth_run ac (op # ops) s s'"

lemma create_user_cases:
  "create_user ac now dr un pw db = (Inl Conflict, db) \<or>
   (\<exists>u db'. create_user ac now dr un pw db = (Inr u, db') \<and> insert_user db u = Inr db' \<and> u_username u = un)"
  by (auto simp: create_user_def Let_def insert_user_def split: sum.splits if_splits)

lemma create_user_step:
  assumes "accounts_ok db"
  shows "accounts_ok (snd (create_user ac now dr un pw db))"
    and "db_tokens (snd (create_user ac now dr un pw db)) = db_tokens db"
  using create_user_cases [of ac now dr un pw db] assms insert_user_frame [of db]
    accounts_ok_same_tokens [OF assms insert_user_ok [OF accounts_okD [OF assms]]]
  by auto

lemma bootstrap_step:
  assumes "accounts_ok db"
  shows "accounts_ok (snd (bootstrap ac now dr un pw db))"
    and "db_tokens (snd (bootstrap ac now dr un pw db)) = db_tokens db"
proof -
  have "snd (bootstrap ac now dr un pw db) = db \<or>
     (\<exists>n p. snd (bootstrap ac now dr un pw db) = snd (create_user ac now dr n p db))"
    by (auto simp: bootstrap_def split: option.splits sum.splits prod.splits intro: exI)
      (metis (no_types) snd_conv)+
  then show "accounts_ok (snd (bootstrap ac now dr un pw db))"
    "db_tokens (snd (bootstrap ac now dr un pw db)) = db_tokens db"
    using create_user_step [OF assms] assms by auto
qed

lemma login_step:
  assumes "accounts_ok db"
  shows "accounts_ok (snd (login ac now dr un pw db))"
    and "minted ac (Login dr un pw) \<noteq> Some d \<Longrightarrow>
      token_by_secret (snd (login ac now dr un pw db)) d = token_by_secret db d"
proof -
  obtain r db' where l: "login ac now dr un pw db = (r, db')" by fastforce
  consider u db1 b where "verify_password ac dr u pw db = (b, db1)" "db' = db1" | "db' = db"
    | u s secret where "r = Inr (Some (u, s, secret))"
    using l by (auto simp: login_def Let_def split: option.splits bool.splits prod.splits sum.splits)
  then have "accounts_ok db' \<and> (minted ac (Login dr un pw) \<noteq> Some d \<longrightarrow> token_by_secret db' d = token_by_secret db d)"
  proof cases
    case 1
    then show ?thesis using verify_password_ok [OF assms] verify_password_frame(1) same_tokens_found by blast
  next
    case 3
    obtain db1 d0 where l': "verify_password ac dr u pw db = (True, db1)"
      "s = \<lparr>t_id = new_id dr ''tok'', t_name = lit ''session'', t_type = SESSION, t_scope = SESSION_SCOPE,
            t_user_id = u_id u, t_created_at = now, t_last_used_at = None,
            t_expires_at = Some (now + ac_session_length ac), t_revoked_at = None\<rparr>"
      "secret = new_secret dr" "secret_digest ac secret = Inr d0" "insert_token db1 s d0 = Inr db'"
      using login_cases l 3 by metis
    have "token_shape s" by (simp add: l'(2) token_shape_def)
    from accounts_ok_insert_token [OF verify_password_ok [OF assms l'(1)] this l'(5)]
    show ?thesis
      using l'(3,4) token_by_secret_insert [OF l'(5)] same_tokens_found [OF verify_password_frame(1) [OF l'(1)]]
      by auto
  qed (use assms in auto)
  then show "accounts_ok (snd (login ac now dr un pw db))"
    "minted ac (Login dr un pw) \<noteq> Some d \<Longrightarrow>
      token_by_secret (snd (login ac now dr un pw db)) d = token_by_secret db d"
    using l by auto
qed

lemma create_agent_token_step:
  assumes "accounts_ok db"
  shows "accounts_ok (snd (create_agent_token ac now dr u n sc db))"
    and "minted ac (CreateAgentToken dr u n sc) \<noteq> Some d \<Longrightarrow>
      token_by_secret (snd (create_agent_token ac now dr u n sc db)) d = token_by_secret db d"
proof -
  obtain r db' where r: "create_agent_token ac now dr u n sc db = (r, db')" by fastforce
  define t0 where "t0 = \<lparr>t_id = new_id dr ''tok'', t_name = n, t_type = AGENT, t_scope = sc,
    t_user_id = u_id u, t_created_at = now, t_last_used_at = None, t_expires_at = None, t_revoked_at = None\<rparr>"
  consider "db' = db" | d0 where "secret_digest ac (new_secret dr) = Inr d0" "insert_token db t0 d0 = Inr db'"
    using r by (auto simp: create_agent_token_def Let_def t0_def split: sum.splits)
  then have "accounts_ok db' \<and> (minted ac (CreateAgentToken dr u n sc) \<noteq> Some d \<longrightarrow>
      token_by_secret db' d = token_by_secret db d)"
  proof cases
    case (2 d0)
    have "token_shape t0" by (simp add: token_shape_def t0_def)
    from accounts_ok_insert_token [OF assms this 2(2)] token_by_secret_insert [OF 2(2), of d] 2(1)
    show ?thesis by auto
  qed (use assms in auto)
  then show "accounts_ok (snd (create_agent_token ac now dr u n sc db))"
    "minted ac (CreateAgentToken dr u n sc) \<noteq> Some d \<Longrightarrow>
      token_by_secret (snd (create_agent_token ac now dr u n sc db)) d = token_by_secret db d"
    using r by auto
qed

lemma resolve_step:
  assumes "accounts_ok db"
  shows "accounts_ok (snd (resolve_bearer ac now h db))"
    and "grants now (snd (resolve_bearer ac now h db)) d = Some g \<Longrightarrow> grants now db d = Some g"
proof -
  obtain r db' where r: "resolve_bearer ac now h db = (r, db')" by fastforce
  have "accounts_ok db' \<and> (grants now db' d = Some g \<longrightarrow> grants now db d = Some g)"
  proof (cases "\<exists>a. r = Inr (Some a)")
    case True
    then obtain a where "resolve_bearer ac now h db = (Inr (Some a), db')" using r by blast
    from resolve_found [OF assms this] obtain d0 t where t: "token_by_secret db d0 = Some t" "live_token now t"
      "grant_of (a_token a) = grant_of t" "accounts_ok db'"
      "\<forall>d'. token_by_secret db' d' = (if d' = d0 then Some (a_token a) else token_by_secret db d')"
      by (auto simp: grant_of_def)
    have "grants now db' d = Some g \<Longrightarrow> grants now db d = Some g"
      using t(1-3,5) by (cases "d = d0") (auto simp: grants_def split: if_splits)
    with t(4) show ?thesis by blast
  next
    case False
    have "db' = db \<or> (\<exists>i. db' = revoke_token db i now)"
      using r False by (auto simp: resolve_bearer_def Let_def split: option.splits sum.splits if_splits)
    then have "accounts_ok db'" using assms accounts_ok_revoke by auto
    then show ?thesis using resolve_kept [OF r False assms, of now d] by simp
  qed
  then show "accounts_ok (snd (resolve_bearer ac now h db))"
    "grants now (snd (resolve_bearer ac now h db)) d = Some g \<Longrightarrow> grants now db d = Some g"
    using r by auto
qed

lemma auth_effect_ok [preserves]: "accounts_ok db \<Longrightarrow> accounts_ok (auth_effect ac now op db)"
proof (cases op)
  case (VerifyPassword dr u pw)
  then show "accounts_ok db \<Longrightarrow> ?thesis"
    using verify_password_ok [of db ac dr u pw "fst (verify_password ac dr u pw db)"] by simp
next
  case (ChangePassword dr u pw)
  show "accounts_ok db \<Longrightarrow> ?thesis"
    unfolding ChangePassword auth_effect.simps set_new_password_def
    by (intro accounts_ok_same_tokens [OF _ set_password_hash_ok [OF accounts_okD]]) auto
next
  case (RemoveUser i)
  then show "accounts_ok db \<Longrightarrow> ?thesis"
    using accounts_ok_delete [of db, OF _ delete_user_ok [OF accounts_okD]]
    by (auto simp: remove_user_def delete_user_def)
next
  case PurgeDeadSessions
  then show "accounts_ok db \<Longrightarrow> ?thesis"
    using accounts_ok_delete [of db, OF _ delete_dead_sessions_ok [OF accounts_okD]]
    by (auto simp: purge_dead_sessions_def delete_dead_sessions_def)
next
  case (RevokeAgentToken i)
  then show "accounts_ok db \<Longrightarrow> ?thesis"
    by (auto simp: revoke_agent_token_def intro: accounts_ok_revoke split: option.split)
qed (auto simp: bootstrap_step create_user_step login_step resolve_step create_agent_token_step logout_def
    sign_out_others_def accounts_ok_revoke accounts_ok_revoke_others)

lemma auth_effect_grants:
  assumes "accounts_ok db" "minted ac op \<noteq> Some d" "grants now (auth_effect ac now op db) d = Some g"
  shows "grants now db d = Some g"
proof (cases op)
  case (Bootstrap dr un pw)
  then show ?thesis using assms same_tokens_found [OF bootstrap_step(2) [OF assms(1)]] by (simp add: grants_def)
next
  case (CreateUser dr un pw)
  then show ?thesis using assms same_tokens_found [OF create_user_step(2) [OF assms(1)]] by (simp add: grants_def)
next
  case (VerifyPassword dr u pw)
  obtain b db1 where v: "verify_password ac dr u pw db = (b, db1)" by fastforce
  then show ?thesis
    using assms(3) VerifyPassword same_tokens_found [OF verify_password_frame(1) [OF v]] by (simp add: grants_def)
next
  case (ChangePassword dr u pw)
  then show ?thesis
    using assms(3) same_tokens_found [of "set_new_password ac dr u pw db" db]
    by (simp add: grants_def set_new_password_def)
next
  case (RemoveUser i)
  then show ?thesis using assms(3) remove_user_grants [OF assms(1)] by (auto split: option.splits if_splits)
next
  case (Login dr un pw)
  then show ?thesis using assms login_step(2) [OF assms(1)] by (simp add: grants_def)
next
  case (Logout t)
  then show ?thesis using assms(3) by (auto simp: logout_def grants_revoke split: option.splits if_splits)
next
  case (SignOutOthers u t)
  then show ?thesis using assms(3) by (auto simp: sign_out_grants split: option.splits if_splits)
next
  case (ResolveBearer h)
  then show ?thesis using assms(3) resolve_step(2) [OF assms(1)] by simp
next
  case PurgeDeadSessions
  then show ?thesis using assms(3) purge_grants [OF assms(1)] by simp
next
  case (CreateAgentToken dr u n sc)
  then show ?thesis using assms create_agent_token_step(2) [OF assms(1)] by (simp add: grants_def)
next
  case (RevokeAgentToken i)
  then show ?thesis using assms(3) revoke_agent_grants [OF assms(1)] by (auto split: option.splits if_splits)
qed

lemma auth_run_ok: "auth_run ac ops s s' \<Longrightarrow> accounts_ok (snd s) \<Longrightarrow> accounts_ok (snd s')"
  by (induction rule: auth_run.induct) (auto simp: auth_effect_ok)

lemma auth_run_grants:
  "auth_run ac ops s s' \<Longrightarrow> accounts_ok (snd s) \<Longrightarrow> \<forall>op\<in>set ops. minted ac op \<noteq> Some d
    \<Longrightarrow> grants (fst s') (snd s') d = Some g \<Longrightarrow> grants (fst s) (snd s) d = Some g"
proof (induction rule: auth_run.induct)
  case (then_op now now1 ops op db s)
  then have "grants now1 (auth_effect ac now1 op db) d = Some g" by (simp add: auth_effect_ok)
  from auth_effect_grants [OF _ _ this] then_op.prems(1,2) have "grants now1 db d = Some g" by simp
  then have "grants now db d = Some g" using then_op.hyps(1) by (rule grants_later)
  then show ?case by simp
qed (auto intro: grants_later)

text \<open>
  C35. Whatever the module is asked to do, in whatever order, its invariant holds: unique
  users, names, token ids and digests, every token owned by an existing account, every session
  with an expiry and the session scope, every agent token without an expiry.
\<close>

theorem accounts_invariant:
  assumes "auth_run ac ops (now, empty_db) (now', db)"
  shows "accounts_ok db"
  using auth_run_ok [OF assms] db_ok_empty by (simp add: accounts_ok_def empty_db_def)

text \<open>
  C5. Authority never grows: a secret that grants a type, a scope and an owner after any run
  that did not mint it anew granted exactly the same before the run.  So a token that is
  revoked, expired, deleted or unknown stays refused for good (expiry is final, though a live
  session slides), and no token ever gains a scope or changes hands.
\<close>

theorem authority_never_grows:
  assumes "accounts_ok db" "auth_run ac ops (now, db) (now', db')" "\<forall>op\<in>set ops. minted ac op \<noteq> Some d"
    and "grants now' db' d = Some g"
  shows "grants now db d = Some g"
  using auth_run_grants [OF assms(2)] assms(1,3,4) by simp

section \<open>A concrete instance\<close>

text \<open>A hasher, a digest and a database small enough to evaluate, for the instances below.\<close>

definition sample_accounts :: accounts where
  "sample_accounts = \<lparr>ac_session_length = 100,
     ac_hasher = \<lparr>h_hash = (\<lambda>salt pw. salt @ pw), h_verify = (\<lambda>hash pw. drop 1 hash = pw), h_needs_rehash = (\<lambda>_. False)\<rparr>,
     ac_sha256 = (\<lambda>b. b)\<rparr>"

definition sample_draws :: "nat \<Rightarrow> draws" where
  "sample_draws n = \<lparr>dr_hex = [48 + n], dr_urlsafe = [65 + n], dr_salt = [97 + n]\<rparr>"

definition sample_user :: user_row where
  "sample_user = \<lparr>u_id = lit ''usr_0'', u_username = lit ''ann'', u_password_hash = lit ''asecret'', u_created_at = 1\<rparr>"

definition sample_session :: token_row where
  "sample_session = \<lparr>t_id = lit ''tok_1'', t_name = lit ''session'', t_type = SESSION, t_scope = SESSION_SCOPE,
     t_user_id = lit ''usr_0'', t_created_at = 2, t_last_used_at = None, t_expires_at = Some 102, t_revoked_at = None\<rparr>"

definition sample_agent :: token_row where
  "sample_agent = \<lparr>t_id = lit ''tok_2'', t_name = lit ''ci'', t_type = AGENT, t_scope = READ_ONLY,
     t_user_id = lit ''usr_0'', t_created_at = 3, t_last_used_at = None, t_expires_at = None, t_revoked_at = None\<rparr>"

text \<open>The account, a session opened by its login and an agent token, made by the operations.\<close>

definition sample_ops :: "auth_op list" where
  "sample_ops = [CreateUser (sample_draws 0) (lit ''ann'') (lit ''secret''),
     Login (sample_draws 1) (lit ''ann'') (lit ''secret''),
     CreateAgentToken (sample_draws 2) sample_user (lit ''ci'') READ_ONLY]"

definition sample_db :: database where
  "sample_db = \<lparr>db_users = [sample_user],
     db_tokens = [(lit ''pb_B'', sample_session), (lit ''pb_C'', sample_agent)], db_sites = [], db_files = []\<rparr>"

lemma sample_db_ok: "accounts_ok sample_db"
  by code_simp

lemma sample_run: "auth_run sample_accounts sample_ops (0, empty_db) (3, sample_db)"
proof -
  have 1: "auth_effect sample_accounts 3 (sample_ops ! 2) (auth_effect sample_accounts 2 (sample_ops ! 1)
      (auth_effect sample_accounts 1 (sample_ops ! 0) empty_db)) = sample_db"
    by code_simp
  have 2: "sample_ops = [sample_ops ! 0, sample_ops ! 1, sample_ops ! 2]" by (simp add: sample_ops_def)
  show ?thesis
    by (subst 2, rule auth_run.then_op [where ?now1.0 = 1], simp, rule auth_run.then_op [where ?now1.0 = 2], simp,
        rule auth_run.then_op [where ?now1.0 = 3], simp, unfold 1, rule auth_run.nothing, simp)
qed

lemma sample_parse: "parse_bearer (Some (lit ''Bearer pb_B'')) = Some (lit ''pb_B'')"
  by (simp add: parse_bearer_def partition_on_def ascii_lower_def strip_def lstrip_def rstrip_def is_space_def)

theorem resolve_bearer_actor_witness:
  "\<exists>a db'. resolve_bearer sample_accounts 50 (Some (lit ''Bearer pb_B'')) sample_db = (Inr (Some a), db')
     \<and> t_expires_at (a_token a) = Some 150 \<and> accounts_ok db'"
proof -
  let ?r = "resolve_bearer sample_accounts 50 (Some (lit ''Bearer pb_B'')) sample_db"
  let ?a = "\<lparr>a_token = sample_session\<lparr>t_last_used_at := Some 50, t_expires_at := Some 150\<rparr>, a_user = sample_user\<rparr>"
  have "fst ?r = Inr (Some ?a)" unfolding resolve_bearer_def sample_parse by code_simp
  then have r: "?r = (Inr (Some ?a), snd ?r)" by (metis prod.collapse)
  from resolve_bearer_actor [OF sample_db_ok r] have "accounts_ok (snd ?r)" by blast
  moreover have "t_expires_at (a_token ?a) = Some 150" by simp
  ultimately show ?thesis using r by metis
qed

theorem resolve_bearer_refused_witness:
  "grants 200 (snd (resolve_bearer sample_accounts 150 (Some (lit ''Bearer pb_B'')) sample_db)) (lit ''pb_C'') =
     Some (AGENT, READ_ONLY, lit ''usr_0'')"
proof -
  let ?r = "resolve_bearer sample_accounts 150 (Some (lit ''Bearer pb_B'')) sample_db"
  have "fst ?r = Inr None" unfolding resolve_bearer_def sample_parse by code_simp
  then have r: "?r = (Inr None, snd ?r)" by (metis prod.collapse)
  have g: "grants 200 sample_db (lit ''pb_C'') = Some (AGENT, READ_ONLY, lit ''usr_0'')" by code_simp
  from resolve_bearer_refused [OF r _ sample_db_ok, of 200 "lit ''pb_C''"] g show ?thesis by simp
qed

theorem login_opens_session_witness:
  "\<exists>a db''. resolve_bearer sample_accounts 60
       (Some (bearer_header (new_secret (sample_draws 5))))
       (snd (login sample_accounts 10 (sample_draws 5) (lit ''ann'') (lit ''secret'') sample_db)) = (Inr (Some a), db'')
     \<and> t_expires_at (a_token a) = Some 160"
proof -
  let ?r = "login sample_accounts 10 (sample_draws 5) (lit ''ann'') (lit ''secret'') sample_db"
  let ?s = "sample_session\<lparr>t_id := lit ''tok_5'', t_created_at := 10, t_expires_at := Some 110\<rparr>"
  have "fst ?r = Inr (Some (sample_user, ?s, new_secret (sample_draws 5)))" by code_simp
  then have r: "?r = (Inr (Some (sample_user, ?s, new_secret (sample_draws 5))), snd ?r)" by (metis prod.collapse)
  have "list_all urlsafe_char (dr_urlsafe (sample_draws 5))" "(10::time) \<le> 60"
    "(60::time) < 10 + ac_session_length sample_accounts" "60 + ac_session_length sample_accounts = 160"
    by code_simp+
  with login_opens_session [OF sample_db_ok r, of 60] show ?thesis by auto
qed

theorem remove_user_ends_tokens_witness:
  "grants 50 (snd (remove_user (lit ''usr_0'') sample_db)) (lit ''pb_C'') = None
   \<and> grants 50 sample_db (lit ''pb_C'') \<noteq> None"
proof -
  have g: "grants 50 sample_db (lit ''pb_C'') = Some (AGENT, READ_ONLY, lit ''usr_0'')" by code_simp
  from remove_user_ends_tokens [OF sample_db_ok prod.collapse [symmetric], of 50 "lit ''usr_0''" "lit ''pb_C''"] g
  show ?thesis by simp
qed

theorem revoke_agent_token_exact_witness:
  "fst (revoke_agent_token 50 (lit ''tok_2'') sample_db)
   \<and> grants 60 (snd (revoke_agent_token 50 (lit ''tok_2'') sample_db)) (lit ''pb_C'') = None
   \<and> grants 60 (snd (revoke_agent_token 50 (lit ''tok_2'') sample_db)) (lit ''pb_B'') \<noteq> None"
proof -
  have f: "token_by_secret sample_db (lit ''pb_C'') = Some sample_agent"
    "token_by_secret sample_db (lit ''pb_B'') = Some sample_session"
    "t_id sample_agent = lit ''tok_2''" "t_id sample_session \<noteq> lit ''tok_2''" "t_type sample_agent = AGENT"
    "live_token 50 sample_agent" "grants 60 sample_db (lit ''pb_B'') \<noteq> None"
    by code_simp+
  note t = revoke_agent_token_exact [OF sample_db_ok prod.collapse [symmetric], of 50 "lit ''tok_2''" 60]
  have "fst (revoke_agent_token 50 (lit ''tok_2'') sample_db)" using t f(1,3,5,6) by blast
  with t [of "lit ''pb_C''"] t [of "lit ''pb_B''"] f show ?thesis by simp
qed

theorem accounts_invariant_witness: "accounts_ok sample_db"
  by (rule accounts_invariant [OF sample_run])

theorem authority_never_grows_witness:
  "\<exists>db'. auth_run sample_accounts [ResolveBearer (Some (lit ''Bearer pb_B'')), PurgeDeadSessions] (10, sample_db) (90, db')
     \<and> grants 90 db' (lit ''pb_B'') = Some (SESSION, SESSION_SCOPE, lit ''usr_0'')
     \<and> grants 10 sample_db (lit ''pb_B'') = Some (SESSION, SESSION_SCOPE, lit ''usr_0'')"
proof -
  let ?d1 = "auth_effect sample_accounts 80 (ResolveBearer (Some (lit ''Bearer pb_B''))) sample_db"
  let ?db = "auth_effect sample_accounts 90 PurgeDeadSessions ?d1"
  have run: "auth_run sample_accounts [ResolveBearer (Some (lit ''Bearer pb_B'')), PurgeDeadSessions] (10, sample_db) (90, ?db)"
    by (intro auth_run.then_op [where ?now1.0 = 80] auth_run.then_op [where ?now1.0 = 90] auth_run.nothing) simp_all
  have g: "grants 90 ?db (lit ''pb_B'') = Some (SESSION, SESSION_SCOPE, lit ''usr_0'')"
    unfolding auth_effect.simps resolve_bearer_def sample_parse by code_simp
  from authority_never_grows [OF sample_db_ok run _ g] run g show ?thesis by auto
qed

end
