(* ===== verification/Filesystem.thy ===== *)
theory Filesystem
  imports Prelude "HOL-Library.AList"
begin

text \<open>
  The file system below a directory, as far as \<open>src/paper_boxing/backend/storage.py\<close> uses it:
  a tree of folders and regular files with their modification times, and the entries that are
  neither.  A path is the list of its segments.  Creating, replacing or removing an entry sets
  the modification time of the folder it is in.  The collection \<open>tree_simps\<close> says what each
  operation leaves at every path.
\<close>

named_theorems tree_simps \<open>files and folders after an operation on a tree\<close>

datatype node =
    Reg octets time
  | Folder "(ustring \<times> node) list" time
  | Symlink
  | Special

fun lookup :: "node \<Rightarrow> ustring list \<Rightarrow> node option" where
  "lookup n [] = Some n"
| "lookup (Folder es m) (x # p) = (case map_of es x of None \<Rightarrow> None | Some n \<Rightarrow> lookup n p)"
| "lookup _ (x # p) = None"

text \<open>The entry at a path is created or replaced; its folder must exist.\<close>

fun insert_at :: "time \<Rightarrow> ustring list \<Rightarrow> node \<Rightarrow> node \<Rightarrow> node" where
  "insert_at t (x # p) new (Folder es m) =
     (if p = [] then Folder (AList.update x new es) t
      else case map_of es x of None \<Rightarrow> Folder es m
           | Some n \<Rightarrow> Folder (AList.update x (insert_at t p new n) es) m)"
| "insert_at t p new n = n"

text \<open>The entry at a path is removed with everything below it.\<close>

fun remove_at :: "time \<Rightarrow> ustring list \<Rightarrow> node \<Rightarrow> node" where
  "remove_at t (x # p) (Folder es m) =
     (case map_of es x of None \<Rightarrow> Folder es m
      | Some n \<Rightarrow> if p = [] then Folder (AList.delete x es) t
                 else Folder (AList.update x (remove_at t p n) es) m)"
| "remove_at t p n = n"

text \<open>\<open>mkdir(parents=True, exist_ok=True)\<close>: the missing folders along a path are created.\<close>

fun mkdirs :: "time \<Rightarrow> ustring list \<Rightarrow> node \<Rightarrow> node" where
  "mkdirs t (x # p) (Folder es m) =
     (case map_of es x of
        None \<Rightarrow> Folder (es @ [(x, mkdirs t p (Folder [] t))]) t
      | Some n \<Rightarrow> Folder (AList.update x (mkdirs t p n) es) m)"
| "mkdirs t p n = n"

text \<open>Whether some component on the way to a path exists and is not a folder.\<close>

fun blocked :: "ustring list \<Rightarrow> node \<Rightarrow> bool" where
  "blocked [] n = (case n of Folder _ _ \<Rightarrow> False | _ \<Rightarrow> True)"
| "blocked (x # p) (Folder es m) = (case map_of es x of None \<Rightarrow> False | Some n \<Rightarrow> blocked p n)"
| "blocked (x # p) n = True"

section \<open>What is at a path\<close>

datatype what = Missing | A_File octets time | A_Folder | Odd

fun what_of :: "node \<Rightarrow> what" where
  "what_of (Reg c m) = A_File c m"
| "what_of (Folder es m) = A_Folder"
| "what_of _ = Odd"

definition what_at :: "node \<Rightarrow> ustring list \<Rightarrow> what" where
  "what_at n p = (case lookup n p of None \<Rightarrow> Missing | Some n' \<Rightarrow> what_of n')"

lemma what_of_not_missing [simp]: "what_of n \<noteq> Missing"
  by (cases n) auto

lemma what_at_Nil [simp]: "what_at n [] = what_of n"
  by (simp add: what_at_def)

lemma what_at_Cons [simp]:
  "what_at n (x # p) = (case n of Folder es m \<Rightarrow> (case map_of es x of None \<Rightarrow> Missing | Some n' \<Rightarrow> what_at n' p) | _ \<Rightarrow> Missing)"
  by (cases n) (auto simp: what_at_def split: option.split)

lemma what_of_folder: "what_of n = A_Folder \<longleftrightarrow> (\<exists>es m. n = Folder es m)"
  by (cases n) auto

lemma what_at_lookup: "what_at n p = w \<Longrightarrow> w \<noteq> Missing \<Longrightarrow> \<exists>n'. lookup n p = Some n' \<and> what_of n' = w"
  by (auto simp: what_at_def split: option.splits)

lemma lookup_append: "lookup n (p @ q) = (case lookup n p of None \<Rightarrow> None | Some n' \<Rightarrow> lookup n' q)"
  by (induction n p rule: lookup.induct) (auto split: option.splits)

lemma what_at_append: "what_at n (p @ q) = (case lookup n p of None \<Rightarrow> Missing | Some n' \<Rightarrow> what_at n' q)"
  by (simp add: what_at_def lookup_append split: option.split)

text \<open>Only a folder has anything below it.\<close>

lemma above_is_folder:
  assumes "strict_prefix p q" "what_at n q \<noteq> Missing"
  shows "what_at n p = A_Folder"
proof -
  obtain x r where "q = p @ x # r" using assms(1) by (metis strict_prefixE')
  with assms(2) obtain n' where "lookup n p = Some n'" "what_at n' (x # r) \<noteq> Missing"
    by (auto simp: what_at_append split: option.splits)
  then show ?thesis by (cases n') (auto simp: what_at_def)
qed

lemma below_no_folder: "what_at n p \<noteq> A_Folder \<Longrightarrow> strict_prefix p q \<Longrightarrow> what_at n q = Missing"
  using above_is_folder by blast

section \<open>What the operations leave\<close>

lemma what_at_insert [tree_simps]:
  "p \<noteq> [] \<Longrightarrow> what_at n (butlast p) = A_Folder \<Longrightarrow>
     what_at (insert_at t p new n) q =
       (if prefix p q then what_at new (drop (length p) q) else what_at n q)"
proof (induction p arbitrary: n q)
  case (Cons x p)
  obtain es m where n: "n = Folder es m"
    using Cons.prems(2) by (cases n; cases p) auto
  show ?case
  proof (cases q)
    case q: (Cons y r)
    show ?thesis
    proof (cases "p = []")
      case True
      then show ?thesis using q n by (auto simp: update_conv')
    next
      case False
      then obtain n' where n': "map_of es x = Some n'" "what_at n' (butlast p) = A_Folder"
        using Cons.prems n by (auto split: option.splits)
      from Cons.IH [OF False n'(2)] show ?thesis using q n n'(1) False by (simp add: update_conv')
    qed
  qed (simp add: n split: option.split)
qed simp

lemma what_at_insert_file [tree_simps]:
  assumes "p \<noteq> []" "what_at n (butlast p) = A_Folder" "what_at n p \<noteq> A_Folder"
  shows "what_at (insert_at t p (Reg c m) n) q = (if q = p then A_File c m else what_at n q)"
proof (cases "strict_prefix p q")
  case True
  then obtain x r where "q = p @ x # r" by (metis strict_prefixE')
  then show ?thesis
    using what_at_insert [OF assms(1,2)] below_no_folder [OF assms(3) True] by simp
qed (auto simp: what_at_insert [OF assms(1,2)] strict_prefix_def)

lemma what_at_remove [tree_simps]:
  "p \<noteq> [] \<Longrightarrow> what_at (remove_at t p n) q = (if prefix p q then Missing else what_at n q)"
proof (induction p arbitrary: n q)
  case (Cons x p)
  show ?case
  proof (cases n)
    case n: (Folder es m)
    show ?thesis
      using Cons.IH Cons.prems
      by (cases q; cases "map_of es x"; cases "p = []") (auto simp: n update_conv' delete_conv')
  qed (cases q; simp)+
qed simp

lemma blocked_iff: "blocked p n \<longleftrightarrow> (\<exists>q. prefix q p \<and> what_at n q \<noteq> Missing \<and> what_at n q \<noteq> A_Folder)"
proof (induction p n rule: blocked.induct)
  case (2 x p es m)
  show ?case
  proof (cases "map_of es x")
    case None
    then show ?thesis by (auto simp: prefix_Cons split: node.splits)
  next
    case (Some n')
    then have "(\<exists>q. prefix q (x # p) \<and> what_at (Folder es m) q \<noteq> Missing \<and> what_at (Folder es m) q \<noteq> A_Folder)
      \<longleftrightarrow> (\<exists>q. prefix q p \<and> what_at n' q \<noteq> Missing \<and> what_at n' q \<noteq> A_Folder)"
      by (auto simp: prefix_Cons)
    then show ?thesis using 2 [OF Some] Some by simp
  qed
qed (auto split: node.split intro!: exI [of _ "[]"])

lemma what_at_mkdirs [tree_simps]:
  "\<not> blocked p n \<Longrightarrow>
     what_at (mkdirs t p n) q = (if prefix q p \<and> what_at n q = Missing then A_Folder else what_at n q)"
proof (induction p arbitrary: n q)
  case Nil
  then show ?case by (auto split: node.splits)
next
  case (Cons x p)
  then obtain es m where n: "n = Folder es m" by (cases n) auto
  show ?case
  proof (cases "map_of es x")
    case None
    have "\<not> blocked p (Folder [] t)" by (cases p) auto
    moreover have "what_at (Folder [] t) r = (if r = [] then A_Folder else Missing)" for r by (cases r) auto
    ultimately have "what_at (mkdirs t p (Folder [] t)) r = (if prefix r p then A_Folder else Missing)" for r
      using Cons.IH by auto
    then show ?thesis
      by (cases q) (auto simp: n None map_add_def prefix_Cons split: option.splits list.splits)
  next
    case (Some n')
    then have "\<not> blocked p n'" using Cons.prems n by simp
    from Cons.IH [OF this] show ?thesis by (cases q) (auto simp: n Some update_conv' split: option.splits)
  qed
qed

section \<open>Trees as the API leaves them\<close>

text \<open>
  The names in a folder are distinct, as on any file system, and every entry is a folder or
  a regular file, as long as nothing else writes below the directory.
\<close>

fun tidy :: "node \<Rightarrow> bool" where
  "tidy (Folder es m) \<longleftrightarrow> distinct (map fst es) \<and> (\<forall>e\<in>set es. tidy (snd e))"
| "tidy (Reg c m) \<longleftrightarrow> True"
| "tidy _ \<longleftrightarrow> False"

lemma tidy_child: "tidy (Folder es m) \<Longrightarrow> map_of es x = Some n \<Longrightarrow> tidy n"
  by (auto dest: map_of_SomeD)

lemma tidy_lookup: "tidy n \<Longrightarrow> lookup n p = Some n' \<Longrightarrow> tidy n'"
  by (induction n p rule: lookup.induct) (auto split: option.splits simp del: tidy.simps(1) dest: tidy_child)

lemma tidy_not_odd: "tidy n \<Longrightarrow> what_at n p \<noteq> Odd"
  using tidy_lookup [of n p] by (fastforce simp: what_at_def split: option.splits elim: tidy.elims)

lemma set_alist_update: "set (AList.update x v es) \<subseteq> insert (x, v) (set es)"
  by (induction es) auto

lemma tidy_update: "tidy (Folder es m) \<Longrightarrow> tidy n \<Longrightarrow> tidy (Folder (AList.update x n es) m')"
  using set_alist_update [of x n es] by (auto simp: distinct_update)

lemma set_alist_delete: "set (AList.delete x es) \<subseteq> set es"
  by (auto simp: AList.delete_eq)

lemma tidy_insert [preserves]: "tidy n \<Longrightarrow> tidy new \<Longrightarrow> tidy (insert_at t p new n)"
  by (induction t p new n rule: insert_at.induct)
    (auto simp del: tidy.simps(1) intro!: tidy_update dest: tidy_child split: option.split)

lemma tidy_remove [preserves]: "tidy n \<Longrightarrow> tidy (remove_at t p n)"
proof (induction t p n rule: remove_at.induct)
  case (1 t x p es m)
  then have "tidy (Folder (AList.delete x es) t)" using distinct_delete [of es x] set_alist_delete [of x es] by auto
  with 1 show ?case
    by (auto simp del: tidy.simps(1) intro!: tidy_update dest: tidy_child split: option.split)
qed auto

lemma tidy_mkdirs [preserves]: "tidy n \<Longrightarrow> tidy (mkdirs t p n)"
proof (induction t p n rule: mkdirs.induct)
  case (1 t x p es m)
  show ?case
  proof (cases "map_of es x")
    case None
    then have "x \<notin> fst ` set es" by (simp add: map_of_eq_None_iff)
    with 1(1) [OF None] 1(3) show ?thesis by (auto simp: None)
  next
    case (Some n)
    have "tidy (mkdirs t p n)" using 1(2) [OF Some] tidy_child [OF 1(3) Some] by blast
    with 1(3) Some show ?thesis by (simp del: tidy.simps(1) add: tidy_update)
  qed
qed auto

text \<open>The entries of a folder.\<close>

definition entries_at :: "node \<Rightarrow> ustring list \<Rightarrow> (ustring \<times> node) list" where
  "entries_at n p = (case lookup n p of Some (Folder es m) \<Rightarrow> es | _ \<Rightarrow> [])"

lemma entries_at_iff:
  assumes "tidy n"
  shows "(x, n') \<in> set (entries_at n p) \<longleftrightarrow> lookup n (p @ [x]) = Some n'"
proof (cases "lookup n p")
  case (Some f)
  then have "tidy f" using tidy_lookup [OF assms] by blast
  then show ?thesis
    by (cases f) (auto simp: entries_at_def lookup_append Some split: option.splits dest: eq_key_imp_eq_value map_of_SomeD)
qed (auto simp: entries_at_def lookup_append)

lemma distinct_entries: "tidy n \<Longrightarrow> distinct (map fst (entries_at n p))"
  using tidy_lookup [of n p] by (auto simp: entries_at_def split: option.splits node.splits)

text \<open>Outside this theory a location is not taken apart unless a proof asks for it.\<close>

declare what_at_Cons [simp del]

end
