(* ===== verification/Naming.thy ===== *)
theory Naming
  imports Codecs
begin

text \<open>
  The naming rules of the contract, \<open>src/paper_boxing/common/naming.py\<close>: site slugs and
  canonical paths.  Every function of the module is a definition here under its own name.
  \<open>unicodedata.normalize("NFKD", _)\<close> is the argument \<open>nfkd\<close>; all that is ever used of
  it is that it leaves ASCII text alone (\<open>nfkd_ascii\<close>).  A \<open>ValueError\<close> is an \<open>Inl\<close>
  whose constructor names the check that raised it.
\<close>

section \<open>Slugs\<close>

definition SLUG_MAX_LENGTH :: nat where "SLUG_MAX_LENGTH = 63"

definition slug_alnum :: "nat \<Rightarrow> bool" where
  "slug_alnum c \<longleftrightarrow> (97 \<le> c \<and> c \<le> 122) \<or> (48 \<le> c \<and> c \<le> 57)"

definition slug_char :: "nat \<Rightarrow> bool" where
  "slug_char c \<longleftrightarrow> slug_alnum c \<or> c = hyphen"

text \<open>\<open>re.sub(r"[^a-z0-9]+", "-", s)\<close>: every maximal run of other characters becomes one \<open>r\<close>.\<close>

function sub_runs :: "(nat \<Rightarrow> bool) \<Rightarrow> nat \<Rightarrow> ustring \<Rightarrow> ustring" where
  "sub_runs keep r [] = []"
| "sub_runs keep r (c # cs) =
     (if keep c then c # sub_runs keep r cs
      else r # sub_runs keep r (dropWhile (\<lambda>x. \<not> keep x) cs))"
  by pat_completeness auto
termination
  by (relation "measure (\<lambda>(_, _, s). length s)") (auto simp: le_imp_less_Suc length_dropWhile_le)

datatype slug_error = NoSlug | BadSlug

definition slug_from_name :: "(ustring \<Rightarrow> ustring) \<Rightarrow> ustring \<Rightarrow> slug_error + ustring" where
  "slug_from_name nfkd name =
     (let ascii_name = filter (\<lambda>c. c < 128) (nfkd name);
          slug = strip (\<lambda>c. c = hyphen) (sub_runs slug_alnum hyphen (map ascii_lower ascii_name));
          slug = strip (\<lambda>c. c = hyphen) (take SLUG_MAX_LENGTH slug)
      in if slug = [] then Inl NoSlug else Inr slug)"

text \<open>
  \<open>SLUG_RE\<close> is \<open>^[a-z0-9](?:[a-z0-9-]{0,61}[a-z0-9])?$\<close>.  \<open>slug_core\<close> is the part between
  the anchors: one alphanumeric, or two around at most 61 slug characters.  Python's \<open>$\<close>
  matches at the end of the string and also just before a newline that ends it.
\<close>

definition slug_core :: "ustring \<Rightarrow> bool" where
  "slug_core s \<longleftrightarrow> s \<noteq> [] \<and> slug_alnum (hd s) \<and> slug_alnum (last s) \<and> list_all slug_char s
     \<and> length s \<le> SLUG_MAX_LENGTH"

definition SLUG_RE_match :: "ustring \<Rightarrow> bool" where
  "SLUG_RE_match s \<longleftrightarrow> slug_core s \<or> (s \<noteq> [] \<and> last s = 10 \<and> slug_core (butlast s))"

definition validate_slug :: "ustring \<Rightarrow> slug_error + ustring" where
  "validate_slug slug = (if \<not> SLUG_RE_match slug then Inl BadSlug else Inr slug)"

section \<open>Paths\<close>

definition PATH_MAX_LENGTH :: nat where "PATH_MAX_LENGTH = 1024"
definition SEGMENT_MAX_BYTES :: nat where "SEGMENT_MAX_BYTES = 255"

definition forbidden_path_char :: "nat \<Rightarrow> bool" where
  "forbidden_path_char c \<longleftrightarrow> c = 92 \<or> c \<le> 31 \<or> c = 127"

datatype path_error =
  ForbiddenChar | NamesRoot | PathTooLong | EmptySegment | DotSegment | SegmentTooLong | Unencodable

text \<open>The loop over the segments: the first failing check, or none.\<close>

fun check_segments :: "ustring list \<Rightarrow> path_error option" where
  "check_segments [] = None"
| "check_segments (segment # rest) =
     (if segment = [] then Some EmptySegment
      else if segment = [dot] \<or> segment = [dot, dot] then Some DotSegment
      else (case utf8_encode segment of
              None \<Rightarrow> Some Unencodable
            | Some b \<Rightarrow> if SEGMENT_MAX_BYTES < length b then Some SegmentTooLong
                        else check_segments rest))"

definition validate_site_path :: "ustring \<Rightarrow> bool \<Rightarrow> path_error + ustring" where
  "validate_site_path path allow_root =
     (if list_ex forbidden_path_char path then Inl ForbiddenChar
      else let stripped = strip (\<lambda>c. c = slash) path in
        if stripped = [] then (if allow_root then Inr [] else Inl NamesRoot)
        else if PATH_MAX_LENGTH < length stripped then Inl PathTooLong
        else let segments = split_on slash stripped in
          (case check_segments segments of
             Some e \<Rightarrow> Inl e
           | None \<Rightarrow> Inr (join_on slash segments)))"

definition path_parent :: "ustring \<Rightarrow> ustring" where
  "path_parent path = fst (rpartition_on slash path)"

definition path_name :: "ustring \<Rightarrow> ustring" where
  "path_name path = snd (rpartition_on slash path)"

section \<open>What a canonical path is\<close>

definition good_segment :: "ustring \<Rightarrow> bool" where
  "good_segment s \<longleftrightarrow> s \<noteq> [] \<and> s \<noteq> [dot] \<and> s \<noteq> [dot, dot] \<and> slash \<notin> set s
     \<and> \<not> list_ex forbidden_path_char s
     \<and> (case utf8_encode s of None \<Rightarrow> False | Some b \<Rightarrow> length b \<le> SEGMENT_MAX_BYTES)"

definition canonical_path :: "ustring \<Rightarrow> bool" where
  "canonical_path p \<longleftrightarrow> p \<noteq> [] \<and> length p \<le> PATH_MAX_LENGTH \<and> list_all good_segment (split_on slash p)"

text \<open>The segments of a canonical path, \<open>path.split("/") if path else ()\<close>.\<close>

definition segments_of :: "ustring \<Rightarrow> ustring list" where
  "segments_of path = (if path = [] then [] else split_on slash path)"

lemma check_segments_None:
  "check_segments ss = None \<longleftrightarrow>
     list_all (\<lambda>s. s \<noteq> [] \<and> s \<noteq> [dot] \<and> s \<noteq> [dot, dot]
        \<and> (case utf8_encode s of None \<Rightarrow> False | Some b \<Rightarrow> length b \<le> SEGMENT_MAX_BYTES)) ss"
  by (induction ss) (auto split: option.splits)

lemma good_segments_split:
  assumes "\<not> list_ex forbidden_path_char p"
  shows "check_segments (split_on slash p) = None \<longleftrightarrow> list_all good_segment (split_on slash p)"
proof -
  have "good_segment s \<longleftrightarrow> s \<noteq> [] \<and> s \<noteq> [dot] \<and> s \<noteq> [dot, dot]
      \<and> (case utf8_encode s of None \<Rightarrow> False | Some b \<Rightarrow> length b \<le> SEGMENT_MAX_BYTES)"
    if "s \<in> set (split_on slash p)" for s
    using that split_no_sep [OF that] set_split [OF that] assms
    by (auto simp: good_segment_def list_ex_iff)
  then show ?thesis by (simp add: check_segments_None list_all_iff)
qed

lemma good_segment_chars: "good_segment s \<Longrightarrow> c \<in> set s \<Longrightarrow> \<not> forbidden_path_char c \<and> c \<noteq> slash"
  by (auto simp: good_segment_def list_ex_iff)

lemma forbidden_not_slash: "\<not> forbidden_path_char slash"
  by (simp add: forbidden_path_char_def)

lemma join_chars: "c \<in> set (join_on d xs) \<Longrightarrow> c = d \<or> (\<exists>x\<in>set xs. c \<in> set x)"
  by (induction xs rule: join_on.induct) auto

lemma canonical_chars:
  assumes "canonical_path p" "c \<in> set p"
  shows "\<not> forbidden_path_char c"
proof -
  have "c \<in> set (join_on slash (split_on slash p))" using assms(2) by simp
  then have "c = slash \<or> (\<exists>x\<in>set (split_on slash p). c \<in> set x)" by (rule join_chars)
  with assms(1) show ?thesis
    by (auto simp: canonical_path_def list_all_iff forbidden_not_slash dest: good_segment_chars)
qed

lemma hd_split: "s \<noteq> [] \<Longrightarrow> hd s = c \<Longrightarrow> [] \<in> set (split_on c s)"
  by (cases s) auto

lemma split_snoc_sep: "split_on c (s @ [c]) = split_on c s @ [[]]"
  by (induction s) (auto split: list.splits)

lemma last_split: "s \<noteq> [] \<Longrightarrow> last s = c \<Longrightarrow> [] \<in> set (split_on c s)"
  by (cases s rule: rev_cases) (auto simp: split_snoc_sep)

lemma canonical_ends:
  assumes "canonical_path p"
  shows "hd p \<noteq> slash \<and> last p \<noteq> slash"
  using assms hd_split [of p slash] last_split [of p slash]
  by (auto simp: canonical_path_def list_all_iff good_segment_def)

lemma strip_forbidden:
  "list_ex forbidden_path_char (strip (\<lambda>c. c = slash) p) \<longleftrightarrow> list_ex forbidden_path_char p"
  using set_strip [of "\<lambda>c. c = slash" p] in_strip [of _ p "\<lambda>c. c = slash"] forbidden_not_slash
  by (auto simp: list_ex_iff)

section \<open>The path rules\<close>

lemma validate_ok_iff:
  "validate_site_path raw allow_root = Inr p \<longleftrightarrow>
     p = strip (\<lambda>c. c = slash) raw \<and> (if p = [] then allow_root else canonical_path p)"
proof -
  let ?s = "strip (\<lambda>c. c = slash) raw"
  have bad: "list_ex forbidden_path_char raw \<longleftrightarrow> list_ex forbidden_path_char ?s"
    by (simp add: strip_forbidden)
  have "canonical_path ?s \<Longrightarrow> \<not> list_ex forbidden_path_char ?s"
    using canonical_chars [of ?s] by (auto simp: list_ex_iff)
  then show ?thesis
    using good_segments_split [of ?s]
    by (auto simp: validate_site_path_def bad Let_def canonical_path_def split: option.splits)
qed

lemma validate_canonical: "validate_site_path raw allow_root = Inr p \<Longrightarrow> p = [] \<or> canonical_path p"
  by (auto simp: validate_ok_iff split: if_splits)

text \<open>
  C39. \<open>validate_site_path\<close> answers a path exactly when the raw path, with the slashes at
  its ends removed, is canonical (or empty where the root is allowed), and the answer is that
  stripped path: nothing else is accepted, and nothing canonical is refused.
\<close>

theorem validate_site_path_iff:
  "validate_site_path raw allow_root = Inr p \<longleftrightarrow>
     p = strip (\<lambda>c. c = slash) raw \<and> (if p = [] then allow_root else canonical_path p)"
  by (rule validate_ok_iff)

text \<open>
  A canonical path is a fixed point: validating it again, whatever \<open>allow_root\<close>, gives
  it back, so the check the frontend or the MCP server makes is the check the backend repeats.
\<close>

theorem validate_site_path_idem:
  assumes "validate_site_path raw allow_root = Inr p" and "p \<noteq> []"
  shows "validate_site_path p allow_root' = Inr p"
proof -
  from assms have "canonical_path p" by (auto simp: validate_ok_iff)
  with canonical_ends [OF this] assms(2) show ?thesis
    by (simp add: validate_ok_iff strip_id)
qed

theorem validate_site_path_idem_witness:
  "validate_site_path (lit ''/docs/a/'') False = Inr (lit ''docs/a'')
   \<and> validate_site_path (lit ''docs/a'') True = Inr (lit ''docs/a'')"
proof -
  have h: "validate_site_path (lit ''/docs/a/'') False = Inr (lit ''docs/a'')" by code_simp
  then show ?thesis using validate_site_path_idem [OF h, of True] by simp
qed

section \<open>Parent and name\<close>

lemma segments_of_join:
  "list_all good_segment ss \<Longrightarrow> segments_of (join_on slash ss) = ss"
proof (cases "ss = []")
  case False
  moreover assume "list_all good_segment ss"
  ultimately have "split_on slash (join_on slash ss) = ss"
    by (intro split_join) (auto simp: list_all_iff good_segment_def)
  moreover have "join_on slash ss \<noteq> []"
    using \<open>list_all good_segment ss\<close> False
    by (auto simp: join_on_empty_iff good_segment_def)
  ultimately show ?thesis by (simp add: segments_of_def)
qed (simp add: segments_of_def)

lemma join_segments_of [simp]: "join_on slash (segments_of p) = p"
  by (simp add: segments_of_def)

lemma canonical_segments: "canonical_path p \<Longrightarrow> segments_of p \<noteq> [] \<and> list_all good_segment (segments_of p)"
  by (simp add: canonical_path_def segments_of_def)

lemma good_segments_of: "p = [] \<or> canonical_path p \<Longrightarrow> list_all good_segment (segments_of p)"
  using canonical_segments [of p] by (auto simp: segments_of_def [of "[]"])

lemma path_parent_name_join:
  assumes "list_all good_segment (ss @ [s])"
  shows "path_parent (join_on slash (ss @ [s])) = join_on slash ss \<and> path_name (join_on slash (ss @ [s])) = s"
proof -
  have "\<forall>x\<in>set (ss @ [s]). slash \<notin> set x"
    using assms by (simp add: list_all_iff good_segment_def)
  then show ?thesis by (simp add: path_parent_def path_name_def rpartition_join)
qed

lemma canonical_join:
  "ss \<noteq> [] \<Longrightarrow> list_all good_segment ss \<Longrightarrow> length (join_on slash ss) \<le> PATH_MAX_LENGTH \<Longrightarrow>
     canonical_path (join_on slash ss)"
  using segments_of_join [of ss] by (auto simp: canonical_path_def segments_of_def split: if_splits)

text \<open>
  Parent and name take a canonical path apart at its last slash: the name is one good
  segment, the parent is empty or canonical itself, and joining the two gives the path back.
\<close>

theorem path_parent_name:
  assumes "canonical_path p"
  shows "good_segment (path_name p)
    \<and> (if path_parent p = [] then p = path_name p
       else canonical_path (path_parent p) \<and> p = path_parent p @ slash # path_name p)"
proof -
  obtain ss s where seg: "segments_of p = ss @ [s]"
    using canonical_segments [OF assms] by (cases "segments_of p" rule: rev_cases) auto
  with canonical_segments [OF assms] have good: "list_all good_segment (ss @ [s])" by simp
  have p: "p = join_on slash (ss @ [s])" using seg by (metis join_segments_of)
  with path_parent_name_join [OF good]
  have pn: "path_parent p = join_on slash ss" "path_name p = s" by simp_all
  show ?thesis
  proof (cases "ss = []")
    case True
    with p pn good show ?thesis by simp
  next
    case False
    then have split: "p = join_on slash ss @ slash # s" using p by (simp add: join_on_append)
    then have "length (join_on slash ss) \<le> PATH_MAX_LENGTH"
      using assms by (simp add: canonical_path_def)
    then have c: "canonical_path (join_on slash ss)"
      using False good by (auto intro: canonical_join)
    then have "join_on slash ss \<noteq> []" by (simp add: canonical_path_def)
    with c split pn good show ?thesis by simp
  qed
qed

theorem path_parent_name_witness:
  "canonical_path (lit ''a/b/c.txt'') \<and> good_segment (lit ''c.txt'')
   \<and> path_parent (lit ''a/b/c.txt'') = lit ''a/b''"
proof -
  have h: "canonical_path (lit ''a/b/c.txt'')" by code_simp
  have "path_parent (lit ''a/b/c.txt'') = lit ''a/b''" "path_name (lit ''a/b/c.txt'') = lit ''c.txt''"
    by code_simp+
  with h path_parent_name [OF h] show ?thesis by metis
qed

section \<open>Locations\<close>

lemma split_append_sep: "split_on c (a @ c # b) = split_on c a @ split_on c b"
proof (induction a)
  case (Cons x a)
  then show ?case by (cases "split_on c a") auto
qed simp

lemma segments_inj: "segments_of p = segments_of q \<Longrightarrow> p = q"
  by (metis join_segments_of)

text \<open>A location the API can have made.\<close>

definition good_path :: "ustring list \<Rightarrow> bool" where
  "good_path q \<longleftrightarrow> canonical_path (join_on slash q) \<and> segments_of (join_on slash q) = q"

lemma good_path_segments: "canonical_path p \<Longrightarrow> good_path (segments_of p)"
  by (simp add: good_path_def)

lemma good_path_prefix:
  assumes "good_path p" "prefix q p" "q \<noteq> []"
  shows "good_path q"
proof -
  have good: "list_all good_segment p"
    using assms(1) canonical_segments by (metis good_path_def)
  obtain r where p: "p = q @ r" using assms(2) by (auto simp: prefix_def)
  then have gq: "list_all good_segment q" using good by simp
  have "length (join_on slash q) \<le> length (join_on slash p)"
    using p assms(3) by (cases "r = []") (simp_all add: join_on_append)
  then have "length (join_on slash q) \<le> PATH_MAX_LENGTH"
    using assms(1) by (simp add: good_path_def canonical_path_def)
  then show ?thesis
    using canonical_join [OF assms(3) gq] segments_of_join [OF gq] by (simp add: good_path_def)
qed

lemma canonical_name_encodes: "canonical_path p \<Longrightarrow> utf8_encode (path_name p) \<noteq> None"
  using path_parent_name [of p] by (auto simp: good_segment_def split: option.splits)

section \<open>The slug rules\<close>

lemma sub_runs_chars: "c \<in> set (sub_runs keep r s) \<Longrightarrow> keep c \<or> c = r"
  by (induction keep r s rule: sub_runs.induct) (auto split: if_splits)

text \<open>No two hyphens in a row: what remains of the runs after the substitution.\<close>

definition single_seps :: "nat \<Rightarrow> ustring \<Rightarrow> bool" where
  "single_seps r s \<longleftrightarrow> \<not> sublist [r, r] s"

lemma single_seps_Cons:
  "single_seps r (c # s) \<longleftrightarrow> single_seps r s \<and> \<not> (c = r \<and> s \<noteq> [] \<and> hd s = r)"
  by (cases s) (auto simp: single_seps_def sublist_Cons_right)

lemma single_seps_sublist: "single_seps r s \<Longrightarrow> sublist t s \<Longrightarrow> single_seps r t"
  by (auto simp: single_seps_def dest: sublist_order.order.trans)

lemma hd_sub_runs: "s \<noteq> [] \<Longrightarrow> keep (hd s) \<Longrightarrow> hd (sub_runs keep r s) = hd s"
  by (cases s) auto

lemma single_seps_sub_runs: "\<not> keep r \<Longrightarrow> single_seps r (sub_runs keep r s)"
proof (induction keep r s rule: sub_runs.induct)
  case (2 keep r c cs)
  let ?rest = "dropWhile (\<lambda>x. \<not> keep x) cs"
  show ?case
  proof (cases "keep c")
    case True
    with 2 show ?thesis by (auto simp: single_seps_Cons)
  next
    case False
    have "sub_runs keep r ?rest \<noteq> [] \<Longrightarrow> hd (sub_runs keep r ?rest) \<noteq> r"
      using hd_sub_runs [of ?rest keep r] hd_dropWhile [of "\<lambda>x. \<not> keep x" cs] "2.prems"
      by (cases "?rest = []") auto
    with False 2 show ?thesis by (auto simp: single_seps_Cons)
  qed
qed (simp add: single_seps_def)

lemma sub_runs_id: "list_all (\<lambda>c. keep c \<or> c = r) s \<Longrightarrow> \<not> keep r \<Longrightarrow> single_seps r s \<Longrightarrow> sub_runs keep r s = s"
proof (induction keep r s rule: sub_runs.induct)
  case (2 keep r c cs)
  show ?case
  proof (cases "keep c")
    case False
    then have "c = r" using 2 by simp
    with 2 have "cs = [] \<or> keep (hd cs)" by (cases cs) (auto simp: single_seps_Cons)
    then have "dropWhile (\<lambda>x. \<not> keep x) cs = cs" by (cases cs) auto
    with False \<open>c = r\<close> 2 show ?thesis by (simp add: single_seps_Cons)
  qed (use 2 in \<open>simp add: single_seps_Cons\<close>)
qed simp

lemma sublist_strip: "sublist (strip P s) s"
proof -
  have "sublist (rstrip P (lstrip P s)) (lstrip P s)"
    using prefix_rstrip by (rule prefix_imp_sublist)
  moreover have "sublist (lstrip P s) s"
    unfolding lstrip_def using suffix_dropWhile by (rule suffix_imp_sublist)
  ultimately show ?thesis unfolding strip_def by (rule sublist_order.order.trans)
qed

lemma slug_alnum_not_hyphen: "\<not> slug_alnum hyphen"
  by (simp add: slug_alnum_def)

text \<open>A proper slug: the grammar of \<open>SLUG_RE\<close>, and no doubled hyphen.\<close>

definition proper_slug :: "ustring \<Rightarrow> bool" where
  "proper_slug s \<longleftrightarrow> slug_core s \<and> single_seps hyphen s"

lemma slug_core_strip:
  assumes "list_all slug_char s" "length s \<le> SLUG_MAX_LENGTH" "strip (\<lambda>c. c = hyphen) s \<noteq> []"
  shows "slug_core (strip (\<lambda>c. c = hyphen) s)"
proof -
  let ?t = "strip (\<lambda>c. c = hyphen) s"
  have chars: "list_all slug_char ?t"
    using assms(1) set_strip [of "\<lambda>c. c = hyphen" s] by (auto simp: list_all_iff)
  have "length ?t \<le> length s" by (rule sublist_length_le [OF sublist_strip])
  moreover have "hd ?t \<noteq> hyphen" "last ?t \<noteq> hyphen" using strip_ends [OF assms(3)] by simp_all
  moreover have "slug_char (hd ?t)" "slug_char (last ?t)"
    using chars assms(3) by (simp_all add: list_all_iff)
  ultimately show ?thesis using chars assms by (auto simp: slug_core_def slug_char_def)
qed

lemma slug_from_name_proper:
  assumes "slug_from_name nfkd name = Inr s"
  shows "proper_slug s"
proof -
  define u where "u = sub_runs slug_alnum hyphen (map ascii_lower (filter (\<lambda>c. c < 128) (nfkd name)))"
  define t where "t = take SLUG_MAX_LENGTH (strip (\<lambda>c. c = hyphen) u)"
  have s: "s = strip (\<lambda>c. c = hyphen) t" "s \<noteq> []"
    using assms by (auto simp: slug_from_name_def u_def t_def Let_def split: if_splits)
  have sub: "sublist t u"
    unfolding t_def using take_is_prefix [THEN prefix_imp_sublist] sublist_strip
    by (rule sublist_order.order.trans)
  have "list_all slug_char t"
    using set_mono_sublist [OF sub] sub_runs_chars [of _ slug_alnum hyphen]
    by (fastforce simp: list_all_iff u_def slug_char_def)
  moreover have "length t \<le> SLUG_MAX_LENGTH" by (simp add: t_def)
  ultimately have "slug_core s" using s slug_core_strip by blast
  moreover have "single_seps hyphen u"
    unfolding u_def using slug_alnum_not_hyphen by (rule single_seps_sub_runs)
  then have "single_seps hyphen s"
    using sublist_order.order.trans [OF sublist_strip sub] s(1) by (auto intro: single_seps_sublist)
  ultimately show ?thesis by (simp add: proper_slug_def)
qed

text \<open>
  Whatever the name and whatever NFKD does with it, a slug \<open>slug_from_name\<close> derives
  is a proper slug (lowercase letters, digits and single hyphens, none at an end, at most 63
  characters), and \<open>validate_slug\<close> accepts it.
\<close>

theorem slug_from_name_valid:
  assumes "slug_from_name nfkd name = Inr s"
  shows "proper_slug s \<and> validate_slug s = Inr s"
  using slug_from_name_proper [OF assms]
  by (simp add: proper_slug_def validate_slug_def SLUG_RE_match_def)

theorem slug_from_name_valid_witness:
  "slug_from_name id (lit ''  PensaForma: design page!  '') = Inr (lit ''pensaforma-design-page'')
   \<and> proper_slug (lit ''pensaforma-design-page'')"
proof -
  have h: "slug_from_name id (lit ''  PensaForma: design page!  '') = Inr (lit ''pensaforma-design-page'')"
    by code_simp
  then show ?thesis using slug_from_name_valid [OF h] by simp
qed

text \<open>What is used of NFKD: ASCII text is already normalised.\<close>

definition nfkd_ascii :: "(ustring \<Rightarrow> ustring) \<Rightarrow> bool" where
  "nfkd_ascii nfkd \<longleftrightarrow> (\<forall>s. list_all (\<lambda>c. c < 128) s \<longrightarrow> nfkd s = s)"

lemma slug_char_ascii: "slug_char c \<Longrightarrow> c < 128 \<and> ascii_lower c = c"
  by (auto simp: slug_char_def slug_alnum_def ascii_lower_def)

text \<open>
  The slug of a slug is the slug itself: on a proper slug \<open>slug_from_name\<close> is the
  identity, so a site's slug used as a display name names the same site.
\<close>

theorem slug_from_name_of_slug:
  assumes "proper_slug s" and "nfkd_ascii nfkd"
  shows "slug_from_name nfkd s = Inr s"
proof -
  have core: "slug_core s" and seps: "single_seps hyphen s" using assms(1) by (simp_all add: proper_slug_def)
  then have chars: "list_all slug_char s" by (simp add: slug_core_def)
  then have ascii: "\<forall>c\<in>set s. c < 128 \<and> ascii_lower c = c"
    by (auto simp: list_all_iff slug_char_ascii)
  then have "nfkd s = s" using assms(2) by (simp add: nfkd_ascii_def list_all_iff)
  then have norm: "map ascii_lower (filter (\<lambda>c. c < 128) (nfkd s)) = s"
    using ascii by (simp add: filter_id_conv map_idI)
  have sub: "sub_runs slug_alnum hyphen s = s"
    using chars seps slug_alnum_not_hyphen
    by (intro sub_runs_id) (auto simp: list_all_iff slug_char_def)
  have ends: "s \<noteq> []" "hd s \<noteq> hyphen" "last s \<noteq> hyphen" "length s \<le> SLUG_MAX_LENGTH"
    using core slug_alnum_not_hyphen by (auto simp: slug_core_def)
  then have "strip (\<lambda>c. c = hyphen) s = s" by (simp add: strip_id)
  with norm sub ends show ?thesis by (simp add: slug_from_name_def Let_def)
qed

theorem slug_from_name_of_slug_witness:
  "proper_slug (lit ''already-a-slug'') \<and> slug_from_name id (lit ''already-a-slug'') = Inr (lit ''already-a-slug'')"
proof -
  have "single_seps hyphen (lit ''already-a-slug'')"
    by (simp add: single_seps_Cons, simp add: single_seps_def)
  moreover have "slug_core (lit ''already-a-slug'')" by code_simp
  ultimately have h: "proper_slug (lit ''already-a-slug'')" by (simp add: proper_slug_def)
  have n: "nfkd_ascii id" by (simp add: nfkd_ascii_def)
  from h slug_from_name_of_slug [OF h n] show ?thesis by simp
qed


end
