(* ===== verification/Storage.thy ===== *)
theory Storage
  imports Filesystem Naming Db
begin

text \<open>
  The site trees and the staging area, \<open>src/paper_boxing/backend/storage.py\<close>.  The state is the
  database with the two directories \<open>sites/\<close> and \<open>staging/\<close>; a location in \<open>sites/\<close> is the slug
  followed by the segments of the path.  One definition per method of \<open>Storage\<close>, each with the
  result or the exception it raises and the state it leaves, error paths included.  What a call
  meets outside is its environment \<open>env\<close>: the clock of the file system, the random part of a
  staging name, and the faults of the volume and of the database.
\<close>

section \<open>State and environment\<close>

record storage =
  sg_dir :: "ustring list"
  sg_max_upload_bytes :: nat
  sg_sha256 :: "octets \<Rightarrow> ustring"
  sg_mtime :: "time \<Rightarrow> time"

text \<open>
  \<open>sg_dir\<close> is the resolved location of \<open>sites/\<close>; \<open>sg_mtime\<close> is \<open>_mtime\<close>, the conversion of
  nanoseconds to a timestamp of the standard library.
\<close>

record state =
  st_db :: database
  st_sites :: node
  st_staging :: node

text \<open>
  \<open>ev_write = Some (k, e)\<close>: the write after \<open>k\<close> successful ones fails with \<open>e\<close>, or the final
  flush does when there are no more.  \<open>ev_mkdir = Some (k, e)\<close>: creating the folders of a path
  fails after its first \<open>k\<close> components.  \<open>ev_rename\<close>: the rename fails.  \<open>ev_db\<close>: the write to
  the database fails.
\<close>

record env =
  ev_now :: time
  ev_hex :: ustring
  ev_write :: "(nat \<times> os_errno) option"
  ev_mkdir :: "(nat \<times> os_errno) option"
  ev_rename :: "os_errno option"
  ev_db :: bool

definition calm :: "env \<Rightarrow> bool" where
  "calm ev \<longleftrightarrow> ev_write ev = None \<and> ev_mkdir ev = None \<and> ev_rename ev = None \<and> \<not> ev_db ev"

datatype kind = K_MISSING | K_FILE | K_FOLDER | K_SPECIAL

definition kind_of :: "node \<Rightarrow> ustring list \<Rightarrow> kind" where
  "kind_of n p =
     (case what_at n p of Missing \<Rightarrow> K_MISSING | A_File c m \<Rightarrow> K_FILE | A_Folder \<Rightarrow> K_FOLDER | Odd \<Rightarrow> K_SPECIAL)"

text \<open>\<open>_unlink\<close>: a missing entry and a folder are left as they are.\<close>

definition unlink_at :: "time \<Rightarrow> ustring list \<Rightarrow> node \<Rightarrow> node" where
  "unlink_at t p n = (if kind_of n p = K_FOLDER then n else remove_at t p n)"

abbreviation invalid_path :: exn where "invalid_path \<equiv> ApiError 400 INVALID_PATH"
abbreviation not_found :: exn where "not_found \<equiv> ApiError 404 NOT_FOUND"

definition clean_staging :: "env \<Rightarrow> state \<Rightarrow> nat \<times> state" where
  "clean_staging ev st =
     (let entries = entries_at (st_staging st) []
      in (length entries,
          st\<lparr>st_staging := fold (\<lambda>(name, _). remove_at (ev_now ev) [name]) entries (st_staging st)\<rparr>))"

section \<open>Paths\<close>

text \<open>The walk over the components that exist: whether one of them is a symbolic link.\<close>

fun linked :: "node \<Rightarrow> ustring list \<Rightarrow> ustring list \<Rightarrow> bool" where
  "linked n current [] = False"
| "linked n current (segment # rest) =
     (case lookup n (current @ [segment]) of
        None \<Rightarrow> False
      | Some Symlink \<Rightarrow> True
      | Some _ \<Rightarrow> linked n (current @ [segment]) rest)"

text \<open>
  \<open>root / path\<close> and \<open>Path.resolve(strict=False)\<close>.  No component that exists is a link when the
  resolution runs, so it removes \<open>.\<close> and empty segments and folds \<open>..\<close> into the segment before.
\<close>

definition join_path :: "ustring list \<Rightarrow> ustring \<Rightarrow> ustring list" where
  "join_path root path = (if take 1 path = [slash] then segments_of path else root @ segments_of path)"

definition resolved :: "ustring list \<Rightarrow> ustring list" where
  "resolved p = fold (\<lambda>x acc. if x = [dot, dot] then butlast acc
                              else if x = [] \<or> x = [dot] then acc else acc @ [x]) p []"

definition contained :: "storage \<Rightarrow> ustring \<Rightarrow> ustring \<Rightarrow> bool" where
  "contained sg slug path =
     (let root = sg_dir sg @ [slug] in prefix (resolved root) (resolved (join_path root path)))"

text \<open>The location below \<open>sites/\<close>, for the canonical paths the routes pass.\<close>

definition resolve :: "storage \<Rightarrow> node \<Rightarrow> ustring \<Rightarrow> ustring \<Rightarrow> exn + ustring list" where
  "resolve sg sites slug path =
     (if lookup sites [slug] = Some Symlink then Inl invalid_path
      else if linked sites [slug] (segments_of path) then Inl invalid_path
      else if \<not> contained sg slug path then Inl invalid_path
      else Inr (slug # segments_of path))"

section \<open>Sites\<close>

text \<open>The location of the parked folder of a site that is being deleted.\<close>

definition parked_name :: "env \<Rightarrow> ustring \<Rightarrow> ustring" where
  "parked_name ev slug = slug @ lit ''.deleting-'' @ ev_hex ev"

definition create_site ::
  "env \<Rightarrow> ustring \<Rightarrow> ustring \<Rightarrow> time \<Rightarrow> state \<Rightarrow> (exn + site_row) \<times> state" where
  "create_site ev slug name created_at st =
     (let site_exists = ApiError 409 SITE_EXISTS in
      if site_by_slug (st_db st) slug \<noteq> None then (Inl site_exists, st)
      else if kind_of (st_sites st) [slug] \<noteq> K_MISSING then (Inl site_exists, st)
      else case ev_mkdir ev of
        Some (_, e) \<Rightarrow> (Inl (if e = EEXIST then site_exists else OSErr e), st)
      | None \<Rightarrow>
          let made = mkdirs (ev_now ev) [slug] (st_sites st);
              undone = st\<lparr>st_sites := remove_at (ev_now ev) [slug] made\<rparr>;
              site = \<lparr>s_slug = slug, s_name = name, s_created_at = created_at\<rparr>
          in if ev_db ev then (Inl OperationalError, undone)
             else case insert_site (st_db st) site of
                    Inl e \<Rightarrow> (Inl (if e = Conflict then site_exists else e), undone)
                  | Inr db' \<Rightarrow> (Inr site, st\<lparr>st_sites := made, st_db := db'\<rparr>))"

definition site_totals :: "database \<Rightarrow> ustring \<Rightarrow> nat \<times> nat" where
  "site_totals db slug = (let t = folder_totals db slug [] in (tt_file_count t, tt_bytes t))"

text \<open>
  The rename into \<open>staging/\<close> fails when its random name is taken there.  After the row is gone
  the parked entry is removed, a folder with everything in it.
\<close>

definition delete_site :: "env \<Rightarrow> ustring \<Rightarrow> state \<Rightarrow> (exn + unit) \<times> state" where
  "delete_site ev slug st =
     (case lookup (st_sites st) [slug] of
        None \<Rightarrow>
          if ev_db ev then (Inl OperationalError, st)
          else (Inr (), st\<lparr>st_db := snd (delete_site_row (st_db st) slug)\<rparr>)
      | Some root \<Rightarrow>
          let parked = [parked_name ev slug] in
          case ev_rename ev of
            Some e \<Rightarrow> (Inl (OSErr e), st)
          | None \<Rightarrow>
              if kind_of (st_staging st) parked \<noteq> K_MISSING then (Inl (OSErr EEXIST), st)
              else let moved = st\<lparr>st_sites := remove_at (ev_now ev) [slug] (st_sites st),
                                  st_staging := insert_at (ev_now ev) parked root (st_staging st)\<rparr>
                in if ev_db ev then (Inl OperationalError, moved)
                   else (Inr (), moved\<lparr>st_db := snd (delete_site_row (st_db st) slug),
                                       st_staging := remove_at (ev_now ev) parked (st_staging moved)\<rparr>))"

section \<open>Listing\<close>

text \<open>\<open>f"{folder}/{name}" if folder else name\<close>.\<close>

definition join_name :: "ustring \<Rightarrow> ustring \<Rightarrow> ustring" where
  "join_name folder name = (if folder = [] then name else folder @ [slash] @ name)"

definition folder_entry :: "storage \<Rightarrow> ustring \<Rightarrow> time \<Rightarrow> totals \<Rightarrow> file_entry" where
  "folder_entry sg name mtime_ns t =
     \<lparr>fe_name = name, fe_type = FOLDER, fe_bytes = tt_bytes t,
      fe_modified_at = sg_mtime sg (max mtime_ns (case tt_newest_mtime_ns t of None \<Rightarrow> 0 | Some n \<Rightarrow> n)),
      fe_sha256 = None\<rparr>"

definition row_entry :: "storage \<Rightarrow> ustring \<Rightarrow> file_row \<Rightarrow> file_entry" where
  "row_entry sg name row =
     \<lparr>fe_name = name, fe_type = FILE, fe_bytes = f_bytes row, fe_modified_at = sg_mtime sg (f_mtime_ns row),
      fe_sha256 = Some (f_sha256 row)\<rparr>"

text \<open>The loop over the scanned entries: folders, files, the paths seen, and the database.\<close>

fun list_entries ::
  "storage \<Rightarrow> ustring \<Rightarrow> ustring \<Rightarrow> file_row list \<Rightarrow> (ustring \<times> node) list \<Rightarrow> database
    \<Rightarrow> exn + (file_entry list \<times> file_entry list \<times> ustring list \<times> database)" where
  "list_entries sg slug folder indexed [] db = Inr ([], [], [], db)"
| "list_entries sg slug folder indexed ((name, n) # rest) db =
     (let rel = join_name folder name in
      case n of
        Folder es mtime_ns \<Rightarrow>
          (case list_entries sg slug folder indexed rest db of
             Inl e \<Rightarrow> Inl e
           | Inr (folders, files, seen, db') \<Rightarrow>
               Inr (folder_entry sg name mtime_ns (folder_totals db slug rel) # folders, files, seen, db'))
      | Reg content mtime_ns \<Rightarrow>
          let found = row_with f_path rel indexed;
              fresh = \<lparr>f_site = slug, f_path = rel, f_bytes = length content, f_mtime_ns = mtime_ns,
                       f_sha256 = sg_sha256 sg content\<rparr>;
              current = (case found of None \<Rightarrow> False
                         | Some row \<Rightarrow> f_bytes row = length content \<and> f_mtime_ns row = mtime_ns);
              row = (if current then the found else fresh)
          in (case (if current then Inr db else upsert_file db fresh) of
                Inl e \<Rightarrow> Inl e
              | Inr db1 \<Rightarrow>
                  (case list_entries sg slug folder indexed rest db1 of
                     Inl e \<Rightarrow> Inl e
                   | Inr (folders, files, seen, db') \<Rightarrow>
                       Inr (folders, row_entry sg name row # files, rel # seen, db')))
      | _ \<Rightarrow> list_entries sg slug folder indexed rest db)"

definition list_folder :: "storage \<Rightarrow> ustring \<Rightarrow> ustring \<Rightarrow> state \<Rightarrow> (exn + file_listing) \<times> state" where
  "list_folder sg slug folder st =
     (case resolve sg (st_sites st) slug folder of Inl e \<Rightarrow> (Inl e, st)
      | Inr target \<Rightarrow>
        (case kind_of (st_sites st) target of
           K_FILE \<Rightarrow> (Inl (ApiError 409 NOT_A_FOLDER), st)
         | K_SPECIAL \<Rightarrow> (Inl invalid_path, st)
         | K_MISSING \<Rightarrow>
             if folder = [] then (Inr \<lparr>fl_site = slug, fl_path = [], fl_entries = []\<rparr>, st) else (Inl not_found, st)
         | K_FOLDER \<Rightarrow>
             let indexed = files_in_folder (st_db st) slug folder in
             (case list_entries sg slug folder indexed (entries_at (st_sites st) target) (st_db st) of
                Inl e \<Rightarrow> (Inl e, st)
              | Inr (folders, files, seen, db1) \<Rightarrow>
                  let stale = filter (\<lambda>p. p \<notin> set seen) (map f_path indexed);
                      db2 = fold (\<lambda>p db. delete_file_row db slug p) stale db1
                  in (Inr \<lparr>fl_site = slug, fl_path = folder,
                           fl_entries = sort_key fe_name folders @ sort_key fe_name files\<rparr>,
                      st\<lparr>st_db := db2\<rparr>))))"

section \<open>Uploads\<close>

text \<open>The request's body: its chunks, and whether the client goes away after them.\<close>

record upload_body =
  ub_chunks :: "octets list"
  ub_broken :: bool

record staged =
  sd_name :: ustring
  sd_sha256 :: ustring
  sd_bytes :: nat

text \<open>The loop of \<open>_stage\<close>: what has been received so far is the last argument.\<close>

fun receive :: "nat \<Rightarrow> (nat \<times> os_errno) option \<Rightarrow> bool \<Rightarrow> octets list \<Rightarrow> octets \<Rightarrow> exn + octets" where
  "receive cap fault broken [] content =
     (if broken then Inl ClientDisconnect
      else case fault of Some (_, e) \<Rightarrow> Inl (OSErr e) | None \<Rightarrow> Inr content)"
| "receive cap fault broken (chunk # chunks) content =
     (if chunk = [] then receive cap fault broken chunks content
      else if length content + length chunk > cap then Inl (ApiError 413 PAYLOAD_TOO_LARGE)
      else case fault of
             Some (0, e) \<Rightarrow> Inl (OSErr e)
           | Some (Suc k, e) \<Rightarrow> receive cap (Some (k, e)) broken chunks (content @ chunk)
           | None \<Rightarrow> receive cap None broken chunks (content @ chunk))"

definition staging_name :: "env \<Rightarrow> ustring" where
  "staging_name ev = ev_hex ev @ lit ''.part''"

text \<open>
  A name that is already there makes the exclusive open fail, and the handler then unlinks what
  is at the name.
\<close>

definition stage :: "storage \<Rightarrow> env \<Rightarrow> upload_body \<Rightarrow> state \<Rightarrow> (exn + staged) \<times> state" where
  "stage sg ev body st =
     (let name = staging_name ev;
          unlinked = st\<lparr>st_staging := unlink_at (ev_now ev) [name] (st_staging st)\<rparr>
      in if kind_of (st_staging st) [name] \<noteq> K_MISSING then (Inl (OSErr EEXIST), unlinked)
         else case receive (sg_max_upload_bytes sg) (ev_write ev) (ub_broken body) (ub_chunks body) [] of
                Inl e \<Rightarrow> (Inl e, unlinked)
              | Inr content \<Rightarrow>
                  (Inr \<lparr>sd_name = name, sd_sha256 = sg_sha256 sg content, sd_bytes = length content\<rparr>,
                   st\<lparr>st_staging := insert_at (ev_now ev) [name] (Reg content (ev_now ev)) (st_staging st)\<rparr>))"

text \<open>The loop over the parents of the target, from the nearest one up to the site's folder.\<close>

definition parents :: "ustring list \<Rightarrow> ustring list list" where
  "parents segments = map (\<lambda>i. take i segments) (rev [1..<length segments])"

fun check_parents :: "node \<Rightarrow> ustring \<Rightarrow> ustring list list \<Rightarrow> exn option" where
  "check_parents sites slug [] = None"
| "check_parents sites slug (parent # rest) =
     (case kind_of sites (slug # parent) of
        K_FILE \<Rightarrow> Some (ApiError 409 NOT_A_FOLDER)
      | K_SPECIAL \<Rightarrow> Some invalid_path
      | _ \<Rightarrow> check_parents sites slug rest)"

definition check_write_target :: "node \<Rightarrow> ustring \<Rightarrow> ustring list \<Rightarrow> bool \<Rightarrow> exn + bool" where
  "check_write_target sites slug segments overwrite =
     (case check_parents sites slug (parents segments) of
        Some e \<Rightarrow> Inl e
      | None \<Rightarrow>
          (case kind_of sites (slug # segments) of
             K_FOLDER \<Rightarrow> Inl (ApiError 409 NOT_A_FILE)
           | K_SPECIAL \<Rightarrow> Inl invalid_path
           | K_FILE \<Rightarrow> if \<not> overwrite then Inl (ApiError 409 FILE_EXISTS) else Inr True
           | K_MISSING \<Rightarrow> Inr False))"

text \<open>
  The critical section, in its order: the site row, the containment and target checks, the
  folders, the rename of the staged file, the index.  What it leaves in \<open>staging/\<close> when it fails
  is removed by \<open>land\<close>.
\<close>

definition land_locked ::
  "storage \<Rightarrow> env \<Rightarrow> ustring \<Rightarrow> ustring \<Rightarrow> bool \<Rightarrow> staged \<Rightarrow> state \<Rightarrow> (exn + upload_result) \<times> state" where
  "land_locked sg ev slug path overwrite sd st =
     (if site_by_slug (st_db st) slug = None then (Inl not_found, st)
      else case resolve sg (st_sites st) slug path of Inl e \<Rightarrow> (Inl e, st)
      | Inr target \<Rightarrow>
        (case check_write_target (st_sites st) slug (segments_of path) overwrite of Inl e \<Rightarrow> (Inl e, st)
        | Inr replaced \<Rightarrow>
          (case ev_mkdir ev of
            Some (k, e) \<Rightarrow> (Inl (OSErr e), st\<lparr>st_sites := mkdirs (ev_now ev) (take k (butlast target)) (st_sites st)\<rparr>)
          | None \<Rightarrow>
            if blocked (butlast target) (st_sites st)
            then (Inl (OSErr (if kind_of (st_sites st) (butlast target) = K_MISSING then ENOTDIR else EEXIST)), st)
            else let made = st\<lparr>st_sites := mkdirs (ev_now ev) (butlast target) (st_sites st)\<rparr> in
              (case ev_rename ev of Some e \<Rightarrow> (Inl (OSErr e), made)
              | None \<Rightarrow>
                (case lookup (st_staging st) [sd_name sd] of
                  Some (Reg content mtime_ns) \<Rightarrow>
                    let moved = made\<lparr>st_sites := insert_at (ev_now ev) target (Reg content mtime_ns) (st_sites made),
                                     st_staging := remove_at (ev_now ev) [sd_name sd] (st_staging st)\<rparr>;
                        row = \<lparr>f_site = slug, f_path = path, f_bytes = sd_bytes sd, f_mtime_ns = mtime_ns,
                               f_sha256 = sd_sha256 sd\<rparr>
                    in if ev_db ev then (Inl OperationalError, moved)
                       else (case upsert_file (st_db st) row of
                               Inl e \<Rightarrow> (Inl e, moved)
                             | Inr db' \<Rightarrow>
                                 (Inr \<lparr>ur_path = path, ur_bytes = sd_bytes sd, ur_sha256 = sd_sha256 sd, ur_replaced = replaced\<rparr>,
                                  moved\<lparr>st_db := db'\<rparr>))
                | _ \<Rightarrow> (Inl (OSErr ENOENT), made))))))"

definition land ::
  "storage \<Rightarrow> env \<Rightarrow> ustring \<Rightarrow> ustring \<Rightarrow> bool \<Rightarrow> staged \<Rightarrow> state \<Rightarrow> (exn + upload_result) \<times> state" where
  "land sg ev slug path overwrite sd st =
     (case land_locked sg ev slug path overwrite sd st of
        (Inr r, st') \<Rightarrow> (Inr r, st')
      | (Inl e, st') \<Rightarrow> (Inl e, st'\<lparr>st_staging := unlink_at (ev_now ev) [sd_name sd] (st_staging st')\<rparr>))"

text \<open>What happens before the lock is taken.\<close>

definition begin_write ::
  "storage \<Rightarrow> env \<Rightarrow> ustring \<Rightarrow> ustring \<Rightarrow> upload_body \<Rightarrow> int option \<Rightarrow> state \<Rightarrow> (exn + staged) \<times> state" where
  "begin_write sg ev slug path body declared_length st =
     (case resolve sg (st_sites st) slug path of Inl e \<Rightarrow> (Inl e, st)
      | Inr _ \<Rightarrow>
        if (case declared_length of None \<Rightarrow> False | Some n \<Rightarrow> n > int (sg_max_upload_bytes sg))
        then (Inl (ApiError 413 PAYLOAD_TOO_LARGE), st)
        else stage sg ev body st)"

definition write_file ::
  "storage \<Rightarrow> env \<Rightarrow> ustring \<Rightarrow> ustring \<Rightarrow> upload_body \<Rightarrow> bool \<Rightarrow> int option \<Rightarrow> state
    \<Rightarrow> (exn + upload_result) \<times> state" where
  "write_file sg ev slug path body overwrite declared_length st =
     (case begin_write sg ev slug path body declared_length st of
        (Inl e, st') \<Rightarrow> (Inl e, st')
      | (Inr sd, st') \<Rightarrow> land sg ev slug path overwrite sd st')"

section \<open>Downloads and removals\<close>

definition file_path :: "storage \<Rightarrow> ustring \<Rightarrow> ustring \<Rightarrow> state \<Rightarrow> exn + ustring list" where
  "file_path sg slug path st =
     (case resolve sg (st_sites st) slug path of Inl e \<Rightarrow> Inl e
      | Inr target \<Rightarrow>
        (case kind_of (st_sites st) target of
           K_FOLDER \<Rightarrow> Inl (ApiError 409 NOT_A_FILE)
         | K_SPECIAL \<Rightarrow> Inl invalid_path
         | K_MISSING \<Rightarrow> Inl not_found
         | K_FILE \<Rightarrow> Inr target))"

definition delete_file :: "storage \<Rightarrow> env \<Rightarrow> ustring \<Rightarrow> ustring \<Rightarrow> state \<Rightarrow> (exn + unit) \<times> state" where
  "delete_file sg ev slug path st =
     (case resolve sg (st_sites st) slug path of Inl e \<Rightarrow> (Inl e, st)
      | Inr target \<Rightarrow>
        (case kind_of (st_sites st) target of
           K_FOLDER \<Rightarrow> (Inl (ApiError 409 NOT_A_FILE), st)
         | K_SPECIAL \<Rightarrow> (Inl invalid_path, st)
         | K_MISSING \<Rightarrow> (Inl not_found, st)
         | K_FILE \<Rightarrow>
             let gone = st\<lparr>st_sites := remove_at (ev_now ev) target (st_sites st)\<rparr> in
             if ev_db ev then (Inl OperationalError, gone)
             else (Inr (), gone\<lparr>st_db := delete_file_row (st_db st) slug path\<rparr>)))"

definition delete_folder :: "storage \<Rightarrow> env \<Rightarrow> ustring \<Rightarrow> ustring \<Rightarrow> bool \<Rightarrow> state \<Rightarrow> (exn + unit) \<times> state" where
  "delete_folder sg ev slug path recursive st =
     (case resolve sg (st_sites st) slug path of Inl e \<Rightarrow> (Inl e, st)
      | Inr target \<Rightarrow>
        (case kind_of (st_sites st) target of
           K_FILE \<Rightarrow> (Inl (ApiError 409 NOT_A_FOLDER), st)
         | K_SPECIAL \<Rightarrow> (Inl invalid_path, st)
         | K_MISSING \<Rightarrow> (Inl not_found, st)
         | K_FOLDER \<Rightarrow>
             if entries_at (st_sites st) target \<noteq> [] \<and> \<not> recursive then (Inl (ApiError 409 FOLDER_NOT_EMPTY), st)
             else let gone = st\<lparr>st_sites := remove_at (ev_now ev) target (st_sites st)\<rparr> in
               if ev_db ev then (Inl OperationalError, gone)
               else (Inr (), gone\<lparr>st_db := snd (delete_files_under (st_db st) slug path)\<rparr>)))"

end
