(* ===== verification/Volume.thy ===== *)
theory Volume
  imports Storage
begin

text \<open>
  What the operations of \<open>Storage\<close> do to the volume: paths never leave their site, the cap and
  the round trip of an upload, what a failed upload leaves, and what creating and deleting a
  site do.  Statements are about what is at every location of the tree (\<open>what_at\<close>), so that each
  says what changes and that nothing else does.
\<close>

section \<open>Paths\<close>

lemma kind_of_simps [simp]:
  "kind_of n p = K_MISSING \<longleftrightarrow> what_at n p = Missing" "kind_of n p = K_FOLDER \<longleftrightarrow> what_at n p = A_Folder"
  "kind_of n p = K_SPECIAL \<longleftrightarrow> what_at n p = Odd" "kind_of n p = K_FILE \<longleftrightarrow> (\<exists>c m. what_at n p = A_File c m)"
  by (auto simp: kind_of_def split: what.split)

lemma kind_of_eqs:
  "what_at n p = Missing \<Longrightarrow> kind_of n p = K_MISSING" "what_at n p = A_Folder \<Longrightarrow> kind_of n p = K_FOLDER"
  "what_at n p = Odd \<Longrightarrow> kind_of n p = K_SPECIAL" "what_at n p = A_File c m \<Longrightarrow> kind_of n p = K_FILE"
  by (simp_all add: kind_of_def)

lemma linked_iff:
  "linked n current p \<longleftrightarrow> (\<exists>q. q \<noteq> [] \<and> prefix q p \<and> lookup n (current @ q) = Some Symlink)"
proof (induction n current p rule: linked.induct)
  case (2 n current x rest)
  let ?c = "current @ [x]"
  have step: "(\<exists>q. q \<noteq> [] \<and> prefix q (x # rest) \<and> lookup n (current @ q) = Some Symlink) \<longleftrightarrow>
      lookup n ?c = Some Symlink \<or> (\<exists>q. q \<noteq> [] \<and> prefix q rest \<and> lookup n (?c @ q) = Some Symlink)"
  proof -
    have "q \<noteq> [] \<and> prefix q (x # rest) \<longleftrightarrow> (\<exists>q'. q = x # q' \<and> prefix q' rest)" for q
      by (cases q) auto
    then have "(\<exists>q. q \<noteq> [] \<and> prefix q (x # rest) \<and> lookup n (current @ q) = Some Symlink) \<longleftrightarrow>
        (\<exists>q'. prefix q' rest \<and> lookup n (?c @ q') = Some Symlink)"
      by (metis append.assoc append_Cons append_Nil)
    also have "\<dots> \<longleftrightarrow> lookup n ?c = Some Symlink \<or> (\<exists>q. q \<noteq> [] \<and> prefix q rest \<and> lookup n (?c @ q) = Some Symlink)"
      by (metis append_Nil2 prefix_bot.bot_least)
    finally show ?thesis .
  qed
  have below: "lookup n ?c = None \<Longrightarrow> lookup n (?c @ q) = None" for q
    by (subst lookup_append) simp
  show ?case
    unfolding step using 2 below by (cases "lookup n ?c") (auto split: node.splits)
qed simp

lemma resolved_good:
  "list_all good_segment p \<Longrightarrow> resolved (root @ p) = resolved root @ p"
proof (induction p rule: rev_induct)
  case (snoc x p)
  then have "resolved (root @ p) = resolved root @ p" "good_segment x" by auto
  then show ?case by (simp add: resolved_def good_segment_def)
qed simp

lemma contained_canonical:
  assumes "path = [] \<or> canonical_path path"
  shows "contained sg slug path"
proof -
  have "take 1 path \<noteq> [slash]"
    using assms canonical_ends by (cases path) fastforce+
  moreover have "list_all good_segment (segments_of path)"
    by (rule good_segments_of [OF assms])
  ultimately show ?thesis
    using resolved_good [of "segments_of path" "sg_dir sg @ [slug]"] by (simp add: contained_def join_path_def Let_def)
qed

lemma resolve_canonical:
  assumes "path = [] \<or> canonical_path path"
  shows "resolve sg sites slug path =
     (if \<exists>p. prefix p (segments_of path) \<and> lookup sites (slug # p) = Some Symlink
      then Inl invalid_path else Inr (slug # segments_of path))"
  using contained_canonical [OF assms] linked_iff [of sites "[slug]" "segments_of path"]
  by (auto simp: resolve_def) (metis append_Cons append_Nil neq_Nil_conv)?

lemma resolve_cases:
  "resolve sg sites slug path = Inl invalid_path \<or> resolve sg sites slug path = Inr (slug # segments_of path)"
  by (simp add: resolve_def)

lemma resolve_tidy:
  assumes "tidy sites" "path = [] \<or> canonical_path path"
  shows "resolve sg sites slug path = Inr (slug # segments_of path)"
proof -
  have "lookup sites p \<noteq> Some Symlink" for p using tidy_lookup [OF assms(1), of p Symlink] by auto
  then show ?thesis using resolve_canonical [OF assms(2)] by simp
qed

text \<open>
  C38. A validated path never leads out of its site: its location is the slug followed by
  the path's own segments, none of them empty, \<open>.\<close> or \<open>..\<close>, the lexical containment check
  always passes, and it is refused exactly when an existing component from the site's folder down
  is a symbolic link.
\<close>

theorem validated_path_stays_inside:
  assumes "validate_site_path raw allow_root = Inr path"
  shows "list_all good_segment (segments_of path) \<and> contained sg slug path
    \<and> resolve sg sites slug path =
        (if \<exists>p. prefix p (segments_of path) \<and> lookup sites (slug # p) = Some Symlink
         then Inl invalid_path else Inr (slug # segments_of path))"
proof -
  note c = validate_canonical [OF assms]
  then show ?thesis using good_segments_of [OF c] contained_canonical [OF c] resolve_canonical [OF c] by blast
qed

section \<open>A concrete volume\<close>

text \<open>One site with one file below a folder, small enough to evaluate.\<close>

definition sample_storage :: storage where
  "sample_storage = \<lparr>sg_dir = [lit ''data'', lit ''sites''], sg_max_upload_bytes = 10, sg_sha256 = (\<lambda>b. b), sg_mtime = (\<lambda>t. t)\<rparr>"

definition sample_env :: env where
  "sample_env = \<lparr>ev_now = 5, ev_hex = lit ''0'', ev_write = None, ev_mkdir = None, ev_rename = None, ev_db = False\<rparr>"

definition sample_state :: state where
  "sample_state =
     \<lparr>st_db = \<lparr>db_users = [], db_tokens = [],
        db_sites = [\<lparr>s_slug = lit ''docs'', s_name = lit ''Docs'', s_created_at = 1\<rparr>],
        db_files = [\<lparr>f_site = lit ''docs'', f_path = lit ''a/b'', f_bytes = 2, f_mtime_ns = 3, f_sha256 = [1, 2]\<rparr>]\<rparr>,
      st_sites = Folder [(lit ''docs'', Folder [(lit ''a'', Folder [(lit ''b'', Reg [1, 2] 3)] 3)] 2)] 1,
      st_staging = Folder [] 0\<rparr>"

theorem validated_path_stays_inside_witness:
  "resolve sample_storage (Folder [(lit ''docs'', Folder [(lit ''ln'', Symlink)] 0)] 0) (lit ''docs'') (lit ''ln/x'') = Inl invalid_path
   \<and> resolve sample_storage (st_sites sample_state) (lit ''docs'') (lit ''a/b'') = Inr [lit ''docs'', lit ''a'', lit ''b'']"
proof -
  have v: "validate_site_path (lit ''/ln/x'') False = Inr (lit ''ln/x'')"
    "validate_site_path (lit ''a/b/'') True = Inr (lit ''a/b'')" by code_simp+
  have seg: "segments_of (lit ''ln/x'') = [lit ''ln'', lit ''x'']" "segments_of (lit ''a/b'') = [lit ''a'', lit ''b'']"
    by code_simp+
  have "lookup (Folder [(lit ''docs'', Folder [(lit ''ln'', Symlink)] 0)] 0) (lit ''docs'' # [lit ''ln'']) = Some Symlink"
    by code_simp
  then have "\<exists>p. prefix p (segments_of (lit ''ln/x'')) \<and>
      lookup (Folder [(lit ''docs'', Folder [(lit ''ln'', Symlink)] 0)] 0) (lit ''docs'' # p) = Some Symlink"
    unfolding seg by (intro exI [of _ "[lit ''ln'']"]) simp
  moreover have "tidy (st_sites sample_state)" by code_simp
  then have "\<not> (\<exists>p. lookup (st_sites sample_state) p = Some Symlink)"
    using tidy_lookup by fastforce
  ultimately show ?thesis
    using validated_path_stays_inside [OF v(1), of sample_storage] validated_path_stays_inside [OF v(2), of sample_storage]
    unfolding seg by auto
qed

section \<open>Receiving a body\<close>

lemma receive_ok:
  "receive cap fault broken cs acc = Inr content \<Longrightarrow> length acc \<le> cap \<Longrightarrow>
     content = acc @ concat cs \<and> length content \<le> cap \<and> \<not> broken \<and> fault = None"
  by (induction cs arbitrary: fault acc) (fastforce split: if_splits option.splits nat.splits prod.splits)+

lemma receive_calm:
  "length acc \<le> cap \<Longrightarrow> receive cap None False cs acc =
     (if length (acc @ concat cs) \<le> cap then Inr (acc @ concat cs) else Inl (ApiError 413 PAYLOAD_TOO_LARGE))"
  by (induction cs arbitrary: acc) auto

lemma receive_error:
  "receive cap fault broken cs acc = Inl e \<Longrightarrow>
     e = ApiError 413 PAYLOAD_TOO_LARGE \<or> e = ClientDisconnect \<or> (\<exists>x. e = OSErr x)"
  by (induction cs arbitrary: fault acc) (fastforce split: if_splits option.splits nat.splits prod.splits)+

lemma insert_at_name:
  assumes "what_at n [] = A_Folder"
  shows "what_at (insert_at t [x] new n) [] = A_Folder" "lookup (insert_at t [x] new n) [x] = Some new"
    "what_at (insert_at t [x] new n) (y # p) = (if y = x then what_at new p else what_at n (y # p))"
  using assms by (cases n; auto simp: update_conv' what_at_Cons)+

lemma remove_at_name:
  assumes "what_at n [] = A_Folder"
  shows "what_at (remove_at t [x] n) [] = A_Folder"
    "what_at (remove_at t [x] n) (y # p) = (if y = x then Missing else what_at n (y # p))"
  using assms by (cases n; auto simp: delete_conv' what_at_Cons split: option.split)+

lemma insert_remove_name:
  assumes "what_at n [] = A_Folder" "what_at n [x] = Missing"
  shows "what_at (remove_at t [x] (insert_at t' [x] new n)) p = what_at n p"
proof (cases p)
  case Nil
  then show ?thesis using remove_at_name(1) [OF insert_at_name(1) [OF assms(1)]] assms(1) by simp
next
  case (Cons y r)
  have "what_at n (x # r) = Missing"
    using assms(2) by (cases n) (auto simp: what_at_Cons split: option.splits)
  then show ?thesis
    using remove_at_name(2) [OF insert_at_name(1) [OF assms(1)]] insert_at_name(3) [OF assms(1)] Cons by simp
qed

lemma stage_ok:
  assumes "stage sg ev body st = (Inr sd, st')"
  shows "sd = \<lparr>sd_name = staging_name ev, sd_sha256 = sg_sha256 sg (concat (ub_chunks body)),
               sd_bytes = length (concat (ub_chunks body))\<rparr>"
    "length (concat (ub_chunks body)) \<le> sg_max_upload_bytes sg" "\<not> ub_broken body" "ev_write ev = None"
    "what_at (st_staging st) [staging_name ev] = Missing"
    "st' = st\<lparr>st_staging := insert_at (ev_now ev) [staging_name ev] (Reg (concat (ub_chunks body)) (ev_now ev)) (st_staging st)\<rparr>"
  using assms by (auto simp: stage_def Let_def split: if_splits sum.splits dest: receive_ok)

lemma unlink_missing: "what_at n p = Missing \<Longrightarrow> p \<noteq> [] \<Longrightarrow> what_at (unlink_at t p n) q = what_at n q"
  using below_no_folder [of n p q] by (cases "p = q") (auto simp: unlink_at_def what_at_remove strict_prefix_def)

lemma stage_error:
  assumes "stage sg ev body st = (Inl e, st')" "what_at (st_staging st) [staging_name ev] = Missing"
  shows "st_db st' = st_db st" "st_sites st' = st_sites st" "what_at (st_staging st') q = what_at (st_staging st) q"
    "e = ApiError 413 PAYLOAD_TOO_LARGE \<or> e = ClientDisconnect \<or> (\<exists>x. e = OSErr x)"
  using assms unlink_missing [OF assms(2)]
  by (auto simp: stage_def Let_def split: if_splits sum.splits dest: receive_error)

section \<open>The checks under the lock\<close>

lemma check_parents_None:
  "check_parents sites slug qs = None \<longleftrightarrow>
     (\<forall>q\<in>set qs. what_at sites (slug # q) = Missing \<or> what_at sites (slug # q) = A_Folder)"
  by (induction qs) (auto simp: kind_of_def split: what.splits)

lemma set_parents: "q \<in> set (parents p) \<longleftrightarrow> q \<noteq> [] \<and> strict_prefix q p"
proof
  assume "q \<in> set (parents p)"
  then show "q \<noteq> [] \<and> strict_prefix q p"
    by (auto simp: parents_def strict_prefix_def take_is_prefix)
next
  assume q: "q \<noteq> [] \<and> strict_prefix q p"
  then have "q = take (length q) p" "length q < length p" "1 \<le> length q"
    by (auto simp: strict_prefix_def prefix_def Suc_le_eq)
  then show "q \<in> set (parents p)" unfolding parents_def by (auto intro!: image_eqI)
qed

lemma check_write_target_ok:
  assumes "check_write_target sites slug p overwrite = Inr replaced"
  shows "what_at sites (slug # p) = Missing \<and> \<not> replaced \<or>
      (\<exists>c m. what_at sites (slug # p) = A_File c m) \<and> replaced \<and> overwrite"
    and "\<And>q. q \<noteq> [] \<Longrightarrow> strict_prefix q p \<Longrightarrow> what_at sites (slug # q) = Missing \<or> what_at sites (slug # q) = A_Folder"
  using assms
  by (auto simp: check_write_target_def check_parents_None set_parents kind_of_def split: option.splits what.splits if_splits)

lemma check_write_target_error:
  "check_write_target sites slug p overwrite = Inl e \<Longrightarrow> \<exists>s c. e = ApiError s c"
proof -
  have "check_parents sites slug qs = Some e \<Longrightarrow> \<exists>s c. e = ApiError s c" for qs
    by (induction qs) (auto split: kind.splits)
  then show "check_write_target sites slug p overwrite = Inl e \<Longrightarrow> \<exists>s c. e = ApiError s c"
    by (auto simp: check_write_target_def split: option.splits kind.splits if_splits)
qed

end
