(* ===== verification/Uploads.thy ===== *)
theory Uploads
  imports Volume
begin

text \<open>
  Uploads, downloads and removals on the volume (\<open>write_file\<close>, \<open>file_path\<close>, \<open>delete_file\<close>,
  \<open>delete_folder\<close>, \<open>create_site\<close>, \<open>delete_site\<close> of \<open>src/paper_boxing/backend/storage.py\<close>): what
  they leave at every location, on success and on failure.
\<close>

section \<open>A successful upload\<close>

lemma resolve_Inr: "resolve sg sites slug path = Inr target \<Longrightarrow> target = slug # segments_of path"
  using resolve_cases [of sg sites slug path] by auto

lemma butlast_slug: "p \<noteq> [] \<Longrightarrow> butlast (slug # p) = slug # butlast p"
  by simp

lemma segments_nonempty: "canonical_path path \<Longrightarrow> segments_of path \<noteq> []"
  using canonical_segments by blast

text \<open>The facts a successful critical section has established, in the order of the code.\<close>

lemma land_ok:
  assumes "land sg ev slug path overwrite sd st = (Inr r, st')"
    and "lookup (st_staging st) [sd_name sd] = Some (Reg content mtime_ns)"
  obtains replaced where "site_by_slug (st_db st) slug \<noteq> None"
    "check_write_target (st_sites st) slug (segments_of path) overwrite = Inr replaced"
    "\<not> blocked (butlast (slug # segments_of path)) (st_sites st)"
    "st_sites st' = insert_at (ev_now ev) (slug # segments_of path) (Reg content mtime_ns)
       (mkdirs (ev_now ev) (butlast (slug # segments_of path)) (st_sites st))"
    "st_staging st' = remove_at (ev_now ev) [sd_name sd] (st_staging st)"
    "upsert_file (st_db st) \<lparr>f_site = slug, f_path = path, f_bytes = sd_bytes sd, f_mtime_ns = mtime_ns,
       f_sha256 = sd_sha256 sd\<rparr> = Inr (st_db st')"
    "r = \<lparr>ur_path = path, ur_bytes = sd_bytes sd, ur_sha256 = sd_sha256 sd, ur_replaced = replaced\<rparr>"
  using assms
  by (auto simp: land_def land_locked_def Let_def dest!: resolve_Inr split: sum.splits if_splits option.splits)

lemma mkdirs_folder: "\<not> blocked p n \<Longrightarrow> what_at (mkdirs t p n) p = A_Folder"
  by (auto simp: what_at_mkdirs blocked_iff)

lemma what_at_landed:
  assumes "check_write_target sites slug p overwrite = Inr replaced" "\<not> blocked (butlast (slug # p)) sites" "p \<noteq> []"
  shows "what_at (insert_at t (slug # p) (Reg content m) (mkdirs t (butlast (slug # p)) sites)) q =
     (if q = slug # p then A_File content m
      else if prefix q (butlast (slug # p)) \<and> what_at sites q = Missing then A_Folder else what_at sites q)"
proof -
  let ?p = "slug # p"
  have not_folder: "what_at sites ?p \<noteq> A_Folder" using check_write_target_ok(1) [OF assms(1)] by auto
  have "\<not> prefix ?p (butlast ?p)" by (metis assms(3) butlast_snoc length_butlast prefix_length_le length_Cons
        diff_Suc_1 Suc_n_not_le_n)
  then have "what_at (mkdirs t (butlast ?p) sites) ?p \<noteq> A_Folder"
    using not_folder by (simp only: what_at_mkdirs [OF assms(2)] if_False simp_thms)
  moreover have "what_at (mkdirs t (butlast ?p) sites) (butlast ?p) = A_Folder"
    by (rule mkdirs_folder [OF assms(2)])
  ultimately show ?thesis
    using what_at_insert_file [of ?p "mkdirs t (butlast ?p) sites" t content m q]
    by (simp only: what_at_mkdirs [OF assms(2)]) simp
qed

lemma prefix_butlast: "p \<noteq> [] \<Longrightarrow> prefix q (butlast p) \<longleftrightarrow> strict_prefix q p"
  by (metis append_butlast_last_id prefix_order.dual_order.strict_trans1 prefix_snoc strict_prefix_def
      append_self_conv2 prefixI not_Cons_self2 same_append_eq append_Nil2 list.distinct(1) butlast.simps(1) list.simps(3)
      prefix_order.less_le)

lemma stage_staging:
  assumes "what_at (st_staging st) [] = A_Folder" "stage sg ev body st = (Inr sd, st')"
  shows "lookup (st_staging st') [sd_name sd] = Some (Reg (concat (ub_chunks body)) (ev_now ev))"
    "what_at (remove_at (ev_now ev) [sd_name sd] (st_staging st')) q = what_at (st_staging st) q"
    "st_db st' = st_db st" "st_sites st' = st_sites st"
  using stage_ok [OF assms(2)] insert_at_name(2) [OF assms(1)] insert_remove_name [OF assms(1)] by simp_all

lemma write_file_stages:
  assumes "write_file sg ev slug path body overwrite declared st = (Inr r, st')"
  obtains sd st1 where "stage sg ev body st = (Inr sd, st1)" "land sg ev slug path overwrite sd st1 = (Inr r, st')"
    "resolve sg (st_sites st) slug path = Inr (slug # segments_of path)"
  using assms by (auto simp: write_file_def begin_write_def dest: resolve_Inr split: sum.splits prod.splits if_splits)

lemma write_file_effect:
  assumes "canonical_path path" "what_at (st_staging st) [] = A_Folder"
    and "write_file sg ev slug path body overwrite declared st = (Inr r, st')"
  shows "let content = concat (ub_chunks body); target = slug # segments_of path;
             replaced = (kind_of (st_sites st) target = K_FILE) in
      length content \<le> sg_max_upload_bytes sg \<and> (replaced \<longrightarrow> overwrite)
    \<and> r = \<lparr>ur_path = path, ur_bytes = length content, ur_sha256 = sg_sha256 sg content, ur_replaced = replaced\<rparr>
    \<and> file_path sg slug path st' = Inr target
    \<and> (\<forall>q. what_at (st_sites st') q =
         (if q = target then A_File content (ev_now ev)
          else if strict_prefix q target \<and> what_at (st_sites st) q = Missing then A_Folder
          else what_at (st_sites st) q))
    \<and> (\<forall>s p. file_row_at (st_db st') s p =
         (if s = slug \<and> p = path
          then Some \<lparr>f_site = slug, f_path = path, f_bytes = length content, f_mtime_ns = ev_now ev,
                     f_sha256 = sg_sha256 sg content\<rparr>
          else file_row_at (st_db st) s p))
    \<and> (\<forall>q. what_at (st_staging st') q = what_at (st_staging st) q)"
proof -
  define content where "content = concat (ub_chunks body)"
  define target where "target = slug # segments_of path"
  obtain sd st1 where w: "stage sg ev body st = (Inr sd, st1)" "land sg ev slug path overwrite sd st1 = (Inr r, st')"
    using assms(3) by (rule write_file_stages)
  note stg = stage_ok [OF w(1)] stage_staging [OF assms(2) w(1)]
  obtain replaced where l: "check_write_target (st_sites st) slug (segments_of path) overwrite = Inr replaced"
    "\<not> blocked (butlast target) (st_sites st)"
    "st_sites st' = insert_at (ev_now ev) target (Reg content (ev_now ev))
       (mkdirs (ev_now ev) (butlast target) (st_sites st))"
    "st_staging st' = remove_at (ev_now ev) [sd_name sd] (st_staging st1)"
    "upsert_file (st_db st) \<lparr>f_site = slug, f_path = path, f_bytes = sd_bytes sd, f_mtime_ns = ev_now ev,
       f_sha256 = sd_sha256 sd\<rparr> = Inr (st_db st')"
    "r = \<lparr>ur_path = path, ur_bytes = sd_bytes sd, ur_sha256 = sd_sha256 sd, ur_replaced = replaced\<rparr>"
    by (rule land_ok [OF w(2) stg(7)]) (auto simp: stg(9,10) content_def target_def)
  have ne: "segments_of path \<noteq> []" by (rule segments_nonempty [OF assms(1)])
  have tree: "what_at (st_sites st') q =
      (if q = target then A_File content (ev_now ev)
       else if strict_prefix q target \<and> what_at (st_sites st) q = Missing then A_Folder
       else what_at (st_sites st) q)" for q
    unfolding l(3) target_def what_at_landed [OF l(1) l(2) [unfolded target_def] ne]
    by (subst prefix_butlast) simp_all
  have "lookup (st_sites st') (slug # p) \<noteq> Some Symlink" if "prefix p (segments_of path)" for p
  proof (cases "slug # p = target")
    case False
    with that have "strict_prefix (slug # p) target" by (simp add: target_def strict_prefix_def)
    with tree [of target] have "what_at (st_sites st') (slug # p) = A_Folder" using above_is_folder by auto
    then show ?thesis by (auto simp: what_at_def)
  qed (use tree [of target] in \<open>auto simp: what_at_def split: option.splits\<close>)
  then have "resolve sg (st_sites st') slug path = Inr target"
    using assms(1) by (subst resolve_canonical) (auto simp: target_def)
  moreover have "replaced = (kind_of (st_sites st) target = K_FILE) \<and> (replaced \<longrightarrow> overwrite)"
    using check_write_target_ok(1) [OF l(1)] by (auto simp: target_def)
  ultimately show ?thesis
    using stg(1,2,8) l(4,6) tree file_row_at_upsert [OF l(5)]
    by (simp add: Let_def file_path_def kind_of_def flip: content_def target_def)
qed

text \<open>
  C1. A successful upload stores exactly the bytes received, at most the cap, at the
  location of its path: the result and the index row report their number and their digest, a
  download of the path finds them, the folders above exist, nothing else on the volume has
  changed, and the staging area is as it was.  An existing file is replaced only when the
  caller asked for it.
\<close>

theorem upload_round_trip:
  assumes "canonical_path path" "what_at (st_staging st) [] = A_Folder"
    and "write_file sg ev slug path body overwrite declared st = (Inr r, st')"
  shows "let content = concat (ub_chunks body); target = slug # segments_of path;
             replaced = (kind_of (st_sites st) target = K_FILE) in
      length content \<le> sg_max_upload_bytes sg \<and> (replaced \<longrightarrow> overwrite)
    \<and> r = \<lparr>ur_path = path, ur_bytes = length content, ur_sha256 = sg_sha256 sg content, ur_replaced = replaced\<rparr>
    \<and> file_path sg slug path st' = Inr target
    \<and> (\<forall>q. what_at (st_sites st') q =
         (if q = target then A_File content (ev_now ev)
          else if strict_prefix q target \<and> what_at (st_sites st) q = Missing then A_Folder
          else what_at (st_sites st) q))
    \<and> (\<forall>s p. file_row_at (st_db st') s p =
         (if s = slug \<and> p = path
          then Some \<lparr>f_site = slug, f_path = path, f_bytes = length content, f_mtime_ns = ev_now ev,
                     f_sha256 = sg_sha256 sg content\<rparr>
          else file_row_at (st_db st) s p))
    \<and> (\<forall>q. what_at (st_staging st') q = what_at (st_staging st) q)"
  using assms by (rule write_file_effect)

section \<open>A failed upload\<close>

lemma mkdirs_only_adds:
  "what_at (mkdirs t p n) q = what_at n q \<or>
   what_at n q = Missing \<and> what_at (mkdirs t p n) q = A_Folder \<and> prefix q p"
proof (induction p arbitrary: n q)
  case (Cons x p)
  show ?case
  proof (cases n)
    case n: (Folder es m)
    show ?thesis
    proof (cases "map_of es x")
      case None
      have empty: "what_at (Folder [] t) r = (if r = [] then A_Folder else Missing)" for r
        by (cases r) (auto simp: what_at_Cons)
      show ?thesis
        using Cons.IH [of "Folder [] t" "tl q"] None
        by (cases q) (auto simp: n what_at_Cons map_add_def empty split: option.splits if_splits)
    next
      case (Some n')
      then show ?thesis using Cons.IH [of n' "tl q"]
        by (cases q) (auto simp: n what_at_Cons update_conv')
    qed
  qed auto
qed simp

text \<open>What a failed critical section leaves, before the staged file is unlinked.\<close>

lemma land_locked_error:
  assumes "land_locked sg ev slug path overwrite sd st = (Inl e, st')" "e \<noteq> OperationalError"
    "canonical_path path" "lookup (st_staging st) [sd_name sd] = Some (Reg content mtime_ns)"
  shows "st_db st' = st_db st" "st_staging st' = st_staging st"
    "what_at (st_sites st') q = what_at (st_sites st) q \<or>
     what_at (st_sites st) q = Missing \<and> what_at (st_sites st') q = A_Folder \<and> strict_prefix q (slug # segments_of path)"
proof -
  let ?t = "slug # segments_of path"
  have pb: "prefix r (butlast ?t) \<Longrightarrow> strict_prefix r ?t" for r
    using prefix_butlast [of ?t r] by simp
  have "st_db st' = st_db st \<and> st_staging st' = st_staging st \<and>
     (st_sites st' = st_sites st \<or> (\<exists>p. prefix p (butlast ?t) \<and> st_sites st' = mkdirs (ev_now ev) p (st_sites st)))"
    using assms(1,2,4)
    by (auto simp: land_locked_def Let_def simp del: butlast.simps dest!: resolve_Inr upsert_file_fails
        split: sum.splits if_splits option.splits prod.splits) (metis take_is_prefix prefix_order.refl)+
  then show "st_db st' = st_db st" "st_staging st' = st_staging st"
    "what_at (st_sites st') q = what_at (st_sites st) q \<or>
     what_at (st_sites st) q = Missing \<and> what_at (st_sites st') q = A_Folder \<and> strict_prefix q ?t"
    using mkdirs_only_adds [of "ev_now ev" _ "st_sites st" q] pb
    by (auto intro: pb dest: prefix_order.trans) (metis prefix_order.trans)+
qed

lemma write_file_failure:
  assumes "canonical_path path" "what_at (st_staging st) [] = A_Folder"
    and "what_at (st_staging st) [staging_name ev] = Missing"
    and "write_file sg ev slug path body overwrite declared st = (Inl e, st')" "e \<noteq> OperationalError"
  shows "st_db st' = st_db st \<and> (\<forall>q. what_at (st_staging st') q = what_at (st_staging st) q)
    \<and> (\<forall>q. what_at (st_sites st') q = what_at (st_sites st) q \<or>
         what_at (st_sites st) q = Missing \<and> what_at (st_sites st') q = A_Folder
         \<and> strict_prefix q (slug # segments_of path))"
proof (cases "begin_write sg ev slug path body declared st")
  case (Pair r st1)
  show ?thesis
  proof (cases r)
    case (Inl e')
    then have "st' = st \<or> stage sg ev body st = (Inl e', st')"
      using Pair assms(4) by (auto simp: write_file_def begin_write_def split: sum.splits if_splits)
    then show ?thesis
    proof
      assume "stage sg ev body st = (Inl e', st')"
      from stage_error(1-3) [OF this assms(3)] show ?thesis by simp
    qed simp
  next
    case (Inr sd)
    then have stg: "stage sg ev body st = (Inr sd, st1)"
      using Pair by (auto simp: begin_write_def split: sum.splits if_splits)
    note s = stage_staging [OF assms(2) stg]
    obtain st2 where l: "land_locked sg ev slug path overwrite sd st1 = (Inl e, st2)"
      "st' = st2\<lparr>st_staging := unlink_at (ev_now ev) [sd_name sd] (st_staging st2)\<rparr>"
      using assms(4) Pair Inr by (auto simp: write_file_def land_def split: sum.splits prod.splits)
    note k = land_locked_error [OF l(1) assms(5,1) s(1)]
    have "unlink_at (ev_now ev) [sd_name sd] (st_staging st1) = remove_at (ev_now ev) [sd_name sd] (st_staging st1)"
      using s(1) by (auto simp: unlink_at_def what_at_def)
    then show ?thesis using k s(2-4) l(2) by simp
  qed
qed


text \<open>
  C37. The exception to that: when the write to the index fails after the rename (a full disk
  or a lock timeout in SQLite), the caller gets an internal error and not the answer for a full
  volume, and the file is in place, the old one replaced, its index row unchanged.
\<close>

theorem index_failure_replaces_file:
  assumes "canonical_path path" "what_at (st_staging st) [] = A_Folder"
    and "write_file sg ev slug path body overwrite declared st = (Inl OperationalError, st')"
  shows "error_answer OperationalError = (500, INTERNAL_ERROR)
    \<and> what_at (st_sites st') (slug # segments_of path) = A_File (concat (ub_chunks body)) (ev_now ev)
    \<and> st_db st' = st_db st"
proof -
  obtain sd st1 where w: "begin_write sg ev slug path body declared st = (Inr sd, st1)"
    "land sg ev slug path overwrite sd st1 = (Inl OperationalError, st')"
    using assms(3) stage_error(4)
    by (auto simp: write_file_def begin_write_def stage_def Let_def resolve_def dest!: receive_error
        split: sum.splits prod.splits if_splits)
  then have stg: "stage sg ev body st = (Inr sd, st1)" by (auto simp: begin_write_def split: sum.splits if_splits)
  note s = stage_staging [OF assms(2) stg]
  have "\<exists>replaced. check_write_target (st_sites st) slug (segments_of path) overwrite = Inr replaced
     \<and> \<not> blocked (butlast (slug # segments_of path)) (st_sites st) \<and> st_db st' = st_db st
     \<and> st_sites st' = insert_at (ev_now ev) (slug # segments_of path) (Reg (concat (ub_chunks body)) (ev_now ev))
         (mkdirs (ev_now ev) (butlast (slug # segments_of path)) (st_sites st))"
    using w(2) s(1,3,4)
    by (auto simp: land_def land_locked_def Let_def simp del: butlast.simps
        dest!: resolve_Inr upsert_file_fails check_write_target_error
        split: sum.splits if_splits option.splits prod.splits)
      (auto simp: resolve_def split: if_splits)
  then show ?thesis using what_at_landed [OF _ _ segments_nonempty [OF assms(1)]] by auto
qed

section \<open>Sites\<close>

lemma site_by_slug_insert [row_simps]:
  "insert_site db site = Inr db' \<Longrightarrow> site_by_slug db' s = (if s = s_slug site then Some site else site_by_slug db s)"
  by (auto simp: insert_site_def site_by_slug_def row_with_append split: if_splits option.splits)

lemma site_by_slug_delete [row_simps]:
  "db_ok db \<Longrightarrow> site_by_slug (snd (delete_site_row db slug)) s = (if s = slug then None else site_by_slug db s)"
  using row_with_delete [OF db_okD(6), of db s "\<lambda>r. s_slug r = slug"]
  by (auto simp: site_by_slug_def delete_site_row_def split: option.splits dest!: row_with_SomeD)

lemma not_blocked_name: "what_at n [] = A_Folder \<Longrightarrow> what_at n [x] = Missing \<Longrightarrow> \<not> blocked [x] n"
  by (cases n) (auto simp: what_at_Cons split: option.splits)

lemma what_at_mkdir:
  assumes "what_at n [] = A_Folder" "what_at n [x] = Missing"
  shows "what_at (mkdirs t [x] n) q = (if q = [x] then A_Folder else what_at n q)"
  using what_at_mkdirs [OF not_blocked_name [OF assms]] assms by (auto simp: prefix_Cons)

lemma below_missing: "what_at n p = Missing \<Longrightarrow> prefix p q \<Longrightarrow> what_at n q = Missing"
  using below_no_folder [of n p q] by (cases "p = q") (auto simp: strict_prefix_def)

lemma what_at_rmdir:
  assumes "what_at n [] = A_Folder" "what_at n [x] = Missing"
  shows "what_at (remove_at t' [x] (mkdirs t [x] n)) q = what_at n q"
  using what_at_mkdir [OF assms] below_missing [OF assms(2), of q] by (auto simp: what_at_remove)

lemma create_site_effect:
  assumes "what_at (st_sites st) [] = A_Folder" "create_site ev slug name created_at st = (r, st')"
  shows "case r of
      Inr site \<Rightarrow> site = \<lparr>s_slug = slug, s_name = name, s_created_at = created_at\<rparr>
        \<and> site_by_slug (st_db st) slug = None \<and> what_at (st_sites st) [slug] = Missing
        \<and> (\<forall>q. what_at (st_sites st') q = (if q = [slug] then A_Folder else what_at (st_sites st) q))
        \<and> (\<forall>s. site_by_slug (st_db st') s = (if s = slug then Some site else site_by_slug (st_db st) s))
        \<and> db_files (st_db st') = db_files (st_db st) \<and> st_staging st' = st_staging st
    | Inl e \<Rightarrow> (\<forall>q. what_at (st_sites st') q = what_at (st_sites st) q)
        \<and> st_db st' = st_db st \<and> st_staging st' = st_staging st
        \<and> (calm ev \<longrightarrow> e = ApiError 409 SITE_EXISTS
            \<and> (site_by_slug (st_db st) slug \<noteq> None \<or> what_at (st_sites st) [slug] \<noteq> Missing))"
proof (cases "what_at (st_sites st) [slug] = Missing")
  case True
  let ?site = "\<lparr>s_slug = slug, s_name = name, s_created_at = created_at\<rparr>"
  have "insert_site (st_db st) ?site = Inr (st_db st\<lparr>db_sites := db_sites (st_db st) @ [?site]\<rparr>)"
    if "site_by_slug (st_db st) slug = None" using that by (simp add: insert_site_def)
  then show ?thesis
    using assms(2) True what_at_mkdir [OF assms(1) True] what_at_rmdir [OF assms(1) True]
      site_by_slug_insert [of "st_db st" ?site]
    by (auto simp: create_site_def Let_def calm_def split: if_splits option.splits)
qed (use assms(2) in \<open>auto simp: create_site_def Let_def split: if_splits\<close>)

text \<open>
  Creating a site never adopts what is already there: it succeeds only when neither a
  row nor an entry of the volume has the slug, and then adds one row and one empty folder and
  changes nothing else; when it fails, for a taken slug, a full disk or a failing database, every
  row and every entry is what it was, the folder it had made gone again.
\<close>

theorem create_site_exact:
  assumes "what_at (st_sites st) [] = A_Folder" "create_site ev slug name created_at st = (r, st')"
  shows "case r of
      Inr site \<Rightarrow> site = \<lparr>s_slug = slug, s_name = name, s_created_at = created_at\<rparr>
        \<and> site_by_slug (st_db st) slug = None \<and> what_at (st_sites st) [slug] = Missing
        \<and> (\<forall>q. what_at (st_sites st') q = (if q = [slug] then A_Folder else what_at (st_sites st) q))
        \<and> (\<forall>s. site_by_slug (st_db st') s = (if s = slug then Some site else site_by_slug (st_db st) s))
        \<and> db_files (st_db st') = db_files (st_db st) \<and> st_staging st' = st_staging st
    | Inl e \<Rightarrow> (\<forall>q. what_at (st_sites st') q = what_at (st_sites st) q)
        \<and> st_db st' = st_db st \<and> st_staging st' = st_staging st
        \<and> (calm ev \<longrightarrow> e = ApiError 409 SITE_EXISTS
            \<and> (site_by_slug (st_db st) slug \<noteq> None \<or> what_at (st_sites st) [slug] \<noteq> Missing))"
  using assms by (rule create_site_effect)

lemma delete_site_effect:
  assumes "db_ok (st_db st)" "what_at (st_staging st) [] = A_Folder" "delete_site ev slug st = (Inr u, st')"
  shows "what_at (st_sites st') q = (if prefix [slug] q then Missing else what_at (st_sites st) q)
    \<and> what_at (st_staging st') q' = what_at (st_staging st) q'
    \<and> site_by_slug (st_db st') s = (if s = slug then None else site_by_slug (st_db st) s)
    \<and> file_row_at (st_db st') s p = (if s = slug then None else file_row_at (st_db st) s p)"
proof -
  have db: "st_db st' = snd (delete_site_row (st_db st) slug)"
    using assms(3) by (auto simp: delete_site_def Let_def split: option.splits if_splits)
  have "what_at (st_sites st') q = (if prefix [slug] q then Missing else what_at (st_sites st) q)
    \<and> what_at (st_staging st') q' = what_at (st_staging st) q'"
  proof (cases "lookup (st_sites st) [slug]")
    case None
    then have "what_at (st_sites st) [slug] = Missing" by (simp add: what_at_def)
    then show ?thesis
      using None assms(3) below_missing [of "st_sites st" "[slug]" q]
      by (auto simp: delete_site_def split: if_splits)
  next
    case (Some root)
    then have "what_at (st_staging st) [parked_name ev slug] = Missing"
      "st_sites st' = remove_at (ev_now ev) [slug] (st_sites st)"
      "st_staging st' = remove_at (ev_now ev) [parked_name ev slug]
         (insert_at (ev_now ev) [parked_name ev slug] root (st_staging st))"
      using assms(3) by (auto simp: delete_site_def Let_def split: option.splits if_splits)
    then show ?thesis using insert_remove_name [OF assms(2)] by (simp add: what_at_remove)
  qed
  then show ?thesis
    using db site_by_slug_delete [OF assms(1)] file_row_at_delete(3) [OF assms(1)] by simp
qed


section \<open>Removing files and folders\<close>

lemma delete_file_effect:
  assumes "db_ok (st_db st)" "\<not> ev_db ev" "delete_file sg ev slug path st = (r, st')"
  shows "case r of
      Inl e \<Rightarrow> st' = st
    | Inr u \<Rightarrow> (\<exists>c m. what_at (st_sites st) (slug # segments_of path) = A_File c m)
        \<and> (\<forall>q. what_at (st_sites st') q = (if q = slug # segments_of path then Missing else what_at (st_sites st) q))
        \<and> (\<forall>s p. file_row_at (st_db st') s p = (if s = slug \<and> p = path then None else file_row_at (st_db st) s p))"
proof -
  let ?target = "slug # segments_of path"
  have "prefix ?target q \<Longrightarrow> what_at (st_sites st) ?target = A_File c m \<Longrightarrow> q \<noteq> ?target \<Longrightarrow>
      what_at (st_sites st) q = Missing" for q c m
    using below_no_folder [of "st_sites st" ?target q] by (auto simp: strict_prefix_def)
  then have gone: "what_at (st_sites st) ?target = A_File c m \<Longrightarrow>
      what_at (remove_at t ?target (st_sites st)) q = (if q = ?target then Missing else what_at (st_sites st) q)" for q t c m
    by (simp only: what_at_remove list.distinct not_False_eq_True) auto
  show ?thesis
    using assms(2,3) file_row_at_delete(1) [OF assms(1), of slug path] gone
    by (auto simp: delete_file_def Let_def dest!: resolve_Inr split: sum.splits kind.splits)
qed

text \<open>
  Deleting a file removes exactly that file with its index row; a folder, or anything
  that is not a file, is never removed by it, and a refused removal changes nothing.
\<close>

theorem delete_file_exact:
  assumes "db_ok (st_db st)" "\<not> ev_db ev" "delete_file sg ev slug path st = (r, st')"
  shows "case r of
      Inl e \<Rightarrow> st' = st
    | Inr u \<Rightarrow> (\<exists>c m. what_at (st_sites st) (slug # segments_of path) = A_File c m)
        \<and> (\<forall>q. what_at (st_sites st') q = (if q = slug # segments_of path then Missing else what_at (st_sites st) q))
        \<and> (\<forall>s p. file_row_at (st_db st') s p = (if s = slug \<and> p = path then None else file_row_at (st_db st) s p))"
  using assms by (rule delete_file_effect)

lemma delete_folder_effect:
  assumes "db_ok (st_db st)" "\<not> ev_db ev" "delete_folder sg ev slug path recursive st = (r, st')"
  shows "case r of
      Inl e \<Rightarrow> st' = st
    | Inr u \<Rightarrow> what_at (st_sites st) (slug # segments_of path) = A_Folder
        \<and> (recursive \<or> entries_at (st_sites st) (slug # segments_of path) = [])
        \<and> (\<forall>q. what_at (st_sites st') q =
             (if prefix (slug # segments_of path) q then Missing else what_at (st_sites st) q))
        \<and> (\<forall>s p. file_row_at (st_db st') s p =
             (if s = slug \<and> below path p then None else file_row_at (st_db st) s p))"
  using assms(2,3) file_row_at_delete(2) [OF assms(1), of slug path]
    what_at_remove [of "slug # segments_of path" "ev_now ev" "st_sites st"]
  by (auto simp: delete_folder_def Let_def dest!: resolve_Inr split: sum.splits kind.splits if_splits)

text \<open>
  Deleting a folder removes exactly it and everything below it, with the index rows below
  it; a folder that is not empty goes only when asked for recursively, a file is never removed by
  it, and a refused removal changes nothing.
\<close>

theorem delete_folder_exact:
  assumes "db_ok (st_db st)" "\<not> ev_db ev" "delete_folder sg ev slug path recursive st = (r, st')"
  shows "case r of
      Inl e \<Rightarrow> st' = st
    | Inr u \<Rightarrow> what_at (st_sites st) (slug # segments_of path) = A_Folder
        \<and> (recursive \<or> entries_at (st_sites st) (slug # segments_of path) = [])
        \<and> (\<forall>q. what_at (st_sites st') q =
             (if prefix (slug # segments_of path) q then Missing else what_at (st_sites st) q))
        \<and> (\<forall>s p. file_row_at (st_db st') s p =
             (if s = slug \<and> below path p then None else file_row_at (st_db st) s p))"
  using assms by (rule delete_folder_effect)

section \<open>Instances\<close>

definition sample_body :: upload_body where
  "sample_body = \<lparr>ub_chunks = [[7, 8], [], [9]], ub_broken = False\<rparr>"

abbreviation sample_upload :: "env \<Rightarrow> string \<Rightarrow> bool \<Rightarrow> (exn + upload_result) \<times> state" where
  "sample_upload ev path overwrite \<equiv>
     write_file sample_storage ev (lit ''docs'') (lit path) sample_body overwrite None sample_state"

lemma sample_facts:
  "canonical_path (lit ''a/b'')" "canonical_path (lit ''a/c/d'')" "what_at (st_staging sample_state) [] = A_Folder"
  "what_at (st_staging sample_state) [staging_name sample_env] = Missing" "db_ok (st_db sample_state)"
  "what_at (st_sites sample_state) [] = A_Folder"
  "segments_of (lit ''a/b'') = [lit ''a'', lit ''b'']" "segments_of (lit ''a/c/d'') = [lit ''a'', lit ''c'', lit ''d'']"
  "segments_of (lit ''a'') = [lit ''a'']"
  by code_simp+

theorem upload_round_trip_witness:
  "fst (sample_upload sample_env ''a/c/d'' False) =
     Inr \<lparr>ur_path = lit ''a/c/d'', ur_bytes = 3, ur_sha256 = [7, 8, 9], ur_replaced = False\<rparr>
   \<and> what_at (st_sites (snd (sample_upload sample_env ''a/c/d'' False))) [lit ''docs'', lit ''a'', lit ''c''] = A_Folder"
proof -
  let ?r = "\<lparr>ur_path = lit ''a/c/d'', ur_bytes = 3, ur_sha256 = [7, 8, 9], ur_replaced = False\<rparr>"
  have f: "fst (sample_upload sample_env ''a/c/d'' False) = Inr ?r" by code_simp
  then have w: "sample_upload sample_env ''a/c/d'' False = (Inr ?r, snd (sample_upload sample_env ''a/c/d'' False))"
    by (metis prod.collapse)
  have m: "what_at (st_sites sample_state) [lit ''docs'', lit ''a'', lit ''c''] = Missing" by code_simp
  have "strict_prefix [lit ''docs'', lit ''a'', lit ''c''] (lit ''docs'' # segments_of (lit ''a/c/d''))"
    unfolding sample_facts(8) by (simp add: strict_prefix_def)
  with upload_round_trip [OF sample_facts(2,3) w] m f show ?thesis
    by (auto simp: Let_def strict_prefix_def)
qed


theorem index_failure_replaces_file_witness:
  "fst (sample_upload (sample_env\<lparr>ev_db := True\<rparr>) ''a/b'' True) = Inl OperationalError
   \<and> what_at (st_sites (snd (sample_upload (sample_env\<lparr>ev_db := True\<rparr>) ''a/b'' True)))
       [lit ''docs'', lit ''a'', lit ''b''] = A_File [7, 8, 9] 5"
proof -
  let ?ev = "sample_env\<lparr>ev_db := True\<rparr>"
  have f: "fst (sample_upload ?ev ''a/b'' True) = Inl OperationalError" by code_simp
  then have w: "sample_upload ?ev ''a/b'' True = (Inl OperationalError, snd (sample_upload ?ev ''a/b'' True))"
    by (metis prod.collapse)
  have "concat (ub_chunks sample_body) = [7, 8, 9]" "ev_now ?ev = 5"
    by (simp_all add: sample_body_def sample_env_def)
  with index_failure_replaces_file [OF sample_facts(1,3) w] f show ?thesis
    unfolding sample_facts(7) by simp
qed

theorem create_site_exact_witness:
  "fst (create_site sample_env (lit ''new'') (lit ''New'') 9 sample_state) =
     Inr \<lparr>s_slug = lit ''new'', s_name = lit ''New'', s_created_at = 9\<rparr>
   \<and> what_at (st_sites (snd (create_site sample_env (lit ''new'') (lit ''New'') 9 sample_state))) [lit ''new''] = A_Folder"
proof -
  let ?c = "create_site sample_env (lit ''new'') (lit ''New'') 9 sample_state"
  let ?s = "\<lparr>s_slug = lit ''new'', s_name = lit ''New'', s_created_at = 9\<rparr>"
  have f: "fst ?c = Inr ?s" by code_simp
  then have "?c = (Inr ?s, snd ?c)" by (metis prod.collapse)
  from create_site_exact [OF sample_facts(6) this] f show ?thesis by simp
qed


theorem delete_file_exact_witness:
  "what_at (st_sites (snd (delete_file sample_storage sample_env (lit ''docs'') (lit ''a/b'') sample_state)))
     [lit ''docs'', lit ''a'', lit ''b''] = Missing"
proof -
  let ?d = "delete_file sample_storage sample_env (lit ''docs'') (lit ''a/b'') sample_state"
  have "fst ?d = Inr ()" "\<not> ev_db sample_env" by code_simp+
  moreover from this have d: "?d = (Inr (), snd ?d)" by (metis prod.collapse)
  ultimately show ?thesis using delete_file_exact [OF sample_facts(5) _ d] unfolding sample_facts(7) by simp
qed

theorem delete_folder_exact_witness:
  "fst (delete_folder sample_storage sample_env (lit ''docs'') (lit ''a'') False sample_state) = Inl (ApiError 409 FOLDER_NOT_EMPTY)
   \<and> what_at (st_sites (snd (delete_folder sample_storage sample_env (lit ''docs'') (lit ''a'') True sample_state)))
       [lit ''docs'', lit ''a'', lit ''b''] = Missing"
proof -
  let ?d = "delete_folder sample_storage sample_env (lit ''docs'') (lit ''a'') True sample_state"
  have f: "fst ?d = Inr ()" "\<not> ev_db sample_env"
    "fst (delete_folder sample_storage sample_env (lit ''docs'') (lit ''a'') False sample_state) = Inl (ApiError 409 FOLDER_NOT_EMPTY)"
    by code_simp+
  from f(1) have d: "?d = (Inr (), snd ?d)" by (metis prod.collapse)
  from delete_folder_exact [OF sample_facts(5) f(2) d] f(3) show ?thesis unfolding sample_facts(9) by simp
qed

end
