(* ===== verification/Backend_Routes.thy ===== *)
theory Backend_Routes
  imports Sessions Uploads
begin

text \<open>
  The REST routes, \<open>src/paper_boxing/backend/routes.py\<close>: the authorization dependency, the
  helpers, one definition per route, and \<open>handle\<close>, which runs the dependency, the validation of
  the request's fields and the route in the framework's order.  A request is what the framework
  passes on: its path and query parameters and its decoded body.  Log lines are left out.
\<close>

section \<open>The backend and a request\<close>

text \<open>
  \<open>bk_nfkd\<close> is \<open>unicodedata.normalize("NFKD", ...)\<close> and \<open>bk_mime\<close> is \<open>mimetypes.guess_type\<close>.
\<close>

record backend =
  bk_accounts :: accounts
  bk_storage :: storage
  bk_nfkd :: "ustring \<Rightarrow> ustring"
  bk_mime :: "ustring \<Rightarrow> ustring option"
  bk_public_sites_url :: ustring

text \<open>
  What one request meets: the clock when the dependency runs and when the route runs, the
  random draws, and the volume.
\<close>

record moment =
  mo_auth_now :: time
  mo_now :: time
  mo_draws :: draws
  mo_env :: env

datatype request =
    R_Login ustring ustring
  | R_Logout
  | R_ListSites
  | R_CreateSite ustring
  | R_GetSite ustring
  | R_DeleteSite ustring "ustring option"
  | R_ListFiles ustring ustring
  | R_UploadFile ustring ustring bool "ustring option" upload_body
  | R_DownloadFile ustring ustring
  | R_DeleteFile ustring ustring
  | R_DeleteFolder ustring ustring bool
  | R_ListTokens
  | R_CreateToken ustring scope
  | R_TokenSelf
  | R_RevokeToken ustring
  | R_ListUsers
  | R_CreateUser ustring ustring
  | R_ChangePassword ustring ustring
  | R_DeleteUser ustring

datatype response =
    LoginResponse ustring time user_out
  | NoContent
  | SiteList "site_out list"
  | SiteResponse nat site_out
  | Listing file_listing
  | Uploaded nat upload_result
  | Content octets ustring ustring
  | TokenList "token_out list"
  | TokenCreated token_out ustring
  | TokenSelfResponse token_self_out
  | UserList "user_out list"
  | UserResponse nat user_out

fun route_name :: "request \<Rightarrow> ustring" where
  "route_name (R_Login _ _) = lit ''login''"
| "route_name R_Logout = lit ''logout''"
| "route_name R_ListSites = lit ''list_sites''"
| "route_name (R_CreateSite _) = lit ''create_site''"
| "route_name (R_GetSite _) = lit ''get_site''"
| "route_name (R_DeleteSite _ _) = lit ''delete_site''"
| "route_name (R_ListFiles _ _) = lit ''list_files''"
| "route_name (R_UploadFile _ _ _ _ _) = lit ''upload_file''"
| "route_name (R_DownloadFile _ _) = lit ''download_file''"
| "route_name (R_DeleteFile _ _) = lit ''delete_file''"
| "route_name (R_DeleteFolder _ _ _) = lit ''delete_folder''"
| "route_name R_ListTokens = lit ''list_tokens''"
| "route_name (R_CreateToken _ _) = lit ''create_token''"
| "route_name R_TokenSelf = lit ''token_self''"
| "route_name (R_RevokeToken _) = lit ''revoke_token''"
| "route_name R_ListUsers = lit ''list_users''"
| "route_name (R_CreateUser _ _) = lit ''create_user''"
| "route_name (R_ChangePassword _ _) = lit ''change_password''"
| "route_name (R_DeleteUser _) = lit ''delete_user''"

text \<open>The constraints of the decoded body's fields.\<close>

fun valid_request :: "request \<Rightarrow> bool" where
  "valid_request (R_Login username password) = valid_login username password"
| "valid_request (R_CreateSite name) = valid_site_name name"
| "valid_request (R_CreateToken name _) = valid_token_name name"
| "valid_request (R_CreateUser username password) = valid_new_user username password"
| "valid_request (R_ChangePassword current new) = valid_password_change current new"
| "valid_request _ = True"

section \<open>Authorization\<close>

definition access_of :: "request \<Rightarrow> access" where
  "access_of rq = (case route (route_name rq) of Some spec \<Rightarrow> rs_access spec | None \<Rightarrow> PUBLIC)"

text \<open>The dependency of a route that is not public.\<close>

definition requires ::
  "backend \<Rightarrow> time \<Rightarrow> ustring option \<Rightarrow> access \<Rightarrow> database \<Rightarrow> (exn + actor) \<times> database" where
  "requires bk now header acc db =
     (case resolve_bearer (bk_accounts bk) now header db of
        (Inl e, db') \<Rightarrow> (Inl e, db')
      | (Inr None, db') \<Rightarrow> (Inl (ApiError 401 UNAUTHORIZED), db')
      | (Inr (Some actor), db') \<Rightarrow>
          if \<not> access_allows acc (Some (t_type (a_token actor))) (Some (t_scope (a_token actor))) then
            (Inl (if acc = SESSION_ONLY then ApiError 403 SESSION_REQUIRED else ApiError 403 FORBIDDEN), db')
          else (Inr actor, db'))"

section \<open>Helpers\<close>

definition find_site :: "state \<Rightarrow> ustring \<Rightarrow> exn + site_row" where
  "find_site st slug =
     (case validate_slug slug of Inl e \<Rightarrow> Inl not_found
      | Inr _ \<Rightarrow> (case site_by_slug (st_db st) slug of None \<Rightarrow> Inl not_found | Some site \<Rightarrow> Inr site))"

definition public_site :: "backend \<Rightarrow> database \<Rightarrow> site_row \<Rightarrow> site_out" where
  "public_site bk db site =
     (let (file_count, size) = site_totals db (s_slug site) in
      \<lparr>so_slug = s_slug site, so_name = s_name site, so_url = site_url (bk_public_sites_url bk) (s_slug site),
       so_created_at = s_created_at site, so_file_count = file_count, so_bytes = size\<rparr>)"

definition valid_path :: "ustring \<Rightarrow> bool \<Rightarrow> exn + ustring" where
  "valid_path raw allow_root =
     (case validate_site_path raw allow_root of Inl e \<Rightarrow> Inl invalid_path | Inr p \<Rightarrow> Inr p)"

definition declared_length :: "ustring option \<Rightarrow> int option" where
  "declared_length header = (case header of None \<Rightarrow> None | Some raw \<Rightarrow> python_int raw)"

definition attachment :: "ustring \<Rightarrow> exn + ustring" where
  "attachment name =
     (let ascii_name = map (\<lambda>c. if c = 34 then 39 else if c < 128 then c else 63) name in
      case quote [slash] name of None \<Rightarrow> Inl UnicodeEncodeError
      | Some q \<Rightarrow> Inr (lit ''attachment; filename='' @ [34] @ ascii_name @ [34]
                      @ lit ''; filename*=UTF-8'' @ [39, 39] @ q))"

section \<open>The routes\<close>

definition login_route :: "backend \<Rightarrow> moment \<Rightarrow> ustring \<Rightarrow> ustring \<Rightarrow> state \<Rightarrow> (exn + response) \<times> state" where
  "login_route bk mo username password st =
     (case login (bk_accounts bk) (mo_now mo) (mo_draws mo) username password (st_db st) of
        (Inl e, db') \<Rightarrow> (Inl e, st\<lparr>st_db := db'\<rparr>)
      | (Inr None, db') \<Rightarrow> (Inl (ApiError 401 INVALID_CREDENTIALS), st\<lparr>st_db := db'\<rparr>)
      | (Inr (Some (user, session, secret)), db') \<Rightarrow>
          (case t_expires_at session of
             None \<Rightarrow> (Inl ValueError, st\<lparr>st_db := db'\<rparr>)
           | Some e \<Rightarrow> (Inr (LoginResponse secret e (public_user user)), st\<lparr>st_db := db'\<rparr>)))"

definition logout_route :: "moment \<Rightarrow> actor \<Rightarrow> state \<Rightarrow> (exn + response) \<times> state" where
  "logout_route mo actor st = (Inr NoContent, st\<lparr>st_db := logout (mo_now mo) (a_token actor) (st_db st)\<rparr>)"

definition list_sites_route :: "backend \<Rightarrow> state \<Rightarrow> exn + response" where
  "list_sites_route bk st = Inr (SiteList (map (public_site bk (st_db st)) (list_sites (st_db st))))"

definition create_site_route :: "backend \<Rightarrow> moment \<Rightarrow> ustring \<Rightarrow> state \<Rightarrow> (exn + response) \<times> state" where
  "create_site_route bk mo name st =
     (case slug_from_name (bk_nfkd bk) name of Inl e \<Rightarrow> (Inl (ApiError 400 INVALID_NAME), st)
      | Inr slug \<Rightarrow>
          (case create_site (mo_env mo) slug (strip is_space name) (mo_now mo) st of
             (Inl e, st') \<Rightarrow> (Inl e, st')
           | (Inr site, st') \<Rightarrow> (Inr (SiteResponse 201 (public_site bk (st_db st') site)), st')))"

definition get_site_route :: "backend \<Rightarrow> ustring \<Rightarrow> state \<Rightarrow> exn + response" where
  "get_site_route bk slug st =
     (case find_site st slug of Inl e \<Rightarrow> Inl e | Inr site \<Rightarrow> Inr (SiteResponse 200 (public_site bk (st_db st) site)))"

definition delete_site_route :: "moment \<Rightarrow> ustring \<Rightarrow> ustring option \<Rightarrow> state \<Rightarrow> (exn + response) \<times> state" where
  "delete_site_route mo slug confirm st =
     (case find_site st slug of Inl e \<Rightarrow> (Inl e, st)
      | Inr site \<Rightarrow>
          if confirm \<noteq> Some (s_slug site) then (Inl (ApiError 400 CONFIRM_MISMATCH), st)
          else (case delete_site (mo_env mo) (s_slug site) st of
                  (Inl e, st') \<Rightarrow> (Inl e, st') | (Inr _, st') \<Rightarrow> (Inr NoContent, st')))"

text \<open>The site and the path of a file route, \<open>_site\<close> then \<open>_valid_path\<close>.\<close>

definition site_and_path :: "state \<Rightarrow> ustring \<Rightarrow> ustring \<Rightarrow> bool \<Rightarrow> exn + ustring \<times> ustring" where
  "site_and_path st slug path allow_root =
     (case find_site st slug of Inl e \<Rightarrow> Inl e
      | Inr site \<Rightarrow> (case valid_path path allow_root of Inl e \<Rightarrow> Inl e | Inr target \<Rightarrow> Inr (s_slug site, target)))"

definition list_files_route :: "backend \<Rightarrow> ustring \<Rightarrow> ustring \<Rightarrow> state \<Rightarrow> (exn + response) \<times> state" where
  "list_files_route bk slug path st =
     (case site_and_path st slug path True of Inl e \<Rightarrow> (Inl e, st)
      | Inr (site, folder) \<Rightarrow>
          (case list_folder (bk_storage bk) site folder st of
             (Inl e, st') \<Rightarrow> (Inl e, st') | (Inr l, st') \<Rightarrow> (Inr (Listing l), st')))"

definition upload_file_route ::
  "backend \<Rightarrow> moment \<Rightarrow> ustring \<Rightarrow> ustring \<Rightarrow> bool \<Rightarrow> ustring option \<Rightarrow> upload_body \<Rightarrow> state
    \<Rightarrow> (exn + response) \<times> state" where
  "upload_file_route bk mo slug path overwrite header body st =
     (case site_and_path st slug path False of Inl e \<Rightarrow> (Inl e, st)
      | Inr (site, target) \<Rightarrow>
          (case write_file (bk_storage bk) (mo_env mo) site target body overwrite (declared_length header) st of
             (Inl e, st') \<Rightarrow> (Inl e, st')
           | (Inr r, st') \<Rightarrow> (Inr (Uploaded (if ur_replaced r then 200 else 201) r), st')))"

definition download_file_route :: "backend \<Rightarrow> ustring \<Rightarrow> ustring \<Rightarrow> state \<Rightarrow> exn + response" where
  "download_file_route bk slug path st =
     (case site_and_path st slug path False of Inl e \<Rightarrow> Inl e
      | Inr (site, target) \<Rightarrow>
          (case file_path (bk_storage bk) site target st of Inl e \<Rightarrow> Inl e
           | Inr location \<Rightarrow>
               let content_type = (case bk_mime bk target of None \<Rightarrow> lit ''application/octet-stream'' | Some t \<Rightarrow> t) in
               (case attachment (path_name target) of Inl e \<Rightarrow> Inl e
                | Inr disposition \<Rightarrow>
                    (case what_at (st_sites st) location of
                       A_File content _ \<Rightarrow> Inr (Content content content_type disposition)
                     | _ \<Rightarrow> Inl (OSErr ENOENT)))))"

definition delete_file_route :: "backend \<Rightarrow> moment \<Rightarrow> ustring \<Rightarrow> ustring \<Rightarrow> state \<Rightarrow> (exn + response) \<times> state" where
  "delete_file_route bk mo slug path st =
     (case site_and_path st slug path False of Inl e \<Rightarrow> (Inl e, st)
      | Inr (site, target) \<Rightarrow>
          (case delete_file (bk_storage bk) (mo_env mo) site target st of
             (Inl e, st') \<Rightarrow> (Inl e, st') | (Inr _, st') \<Rightarrow> (Inr NoContent, st')))"

definition delete_folder_route ::
  "backend \<Rightarrow> moment \<Rightarrow> ustring \<Rightarrow> ustring \<Rightarrow> bool \<Rightarrow> state \<Rightarrow> (exn + response) \<times> state" where
  "delete_folder_route bk mo slug path recursive st =
     (case site_and_path st slug path False of Inl e \<Rightarrow> (Inl e, st)
      | Inr (site, target) \<Rightarrow>
          (case delete_folder (bk_storage bk) (mo_env mo) site target recursive st of
             (Inl e, st') \<Rightarrow> (Inl e, st') | (Inr _, st') \<Rightarrow> (Inr NoContent, st')))"

definition list_tokens_route :: "state \<Rightarrow> exn + response" where
  "list_tokens_route st = Inr (TokenList (public_agent_tokens (st_db st)))"

definition create_token_route ::
  "backend \<Rightarrow> moment \<Rightarrow> actor \<Rightarrow> ustring \<Rightarrow> scope \<Rightarrow> state \<Rightarrow> (exn + response) \<times> state" where
  "create_token_route bk mo actor name scope st =
     (case create_agent_token (bk_accounts bk) (mo_now mo) (mo_draws mo) (a_user actor) (strip is_space name) scope (st_db st) of
        (Inl e, db') \<Rightarrow> (Inl e, st\<lparr>st_db := db'\<rparr>)
      | (Inr (token, secret), db') \<Rightarrow>
          (Inr (TokenCreated (public_token token (u_username (a_user actor))) secret), st\<lparr>st_db := db'\<rparr>))"

definition token_self_route :: "actor \<Rightarrow> exn + response" where
  "token_self_route actor = Inr (TokenSelfResponse (token_self actor))"

definition revoke_token_route :: "moment \<Rightarrow> ustring \<Rightarrow> state \<Rightarrow> (exn + response) \<times> state" where
  "revoke_token_route mo token_id st =
     (case revoke_agent_token (mo_now mo) token_id (st_db st) of
        (False, db') \<Rightarrow> (Inl not_found, st\<lparr>st_db := db'\<rparr>)
      | (True, db') \<Rightarrow> (Inr NoContent, st\<lparr>st_db := db'\<rparr>))"

definition list_users_route :: "state \<Rightarrow> exn + response" where
  "list_users_route st = Inr (UserList (map public_user (list_users (st_db st))))"

definition create_user_route ::
  "backend \<Rightarrow> moment \<Rightarrow> ustring \<Rightarrow> ustring \<Rightarrow> state \<Rightarrow> (exn + response) \<times> state" where
  "create_user_route bk mo username password st =
     (case create_user (bk_accounts bk) (mo_now mo) (mo_draws mo) username password (st_db st) of
        (Inl e, db') \<Rightarrow> (Inl (if e = Conflict then ApiError 409 USER_EXISTS else e), st\<lparr>st_db := db'\<rparr>)
      | (Inr user, db') \<Rightarrow> (Inr (UserResponse 201 (public_user user)), st\<lparr>st_db := db'\<rparr>))"

definition change_password_route ::
  "backend \<Rightarrow> moment \<Rightarrow> actor \<Rightarrow> ustring \<Rightarrow> ustring \<Rightarrow> state \<Rightarrow> (exn + response) \<times> state" where
  "change_password_route bk mo actor current new st =
     (case verify_password (bk_accounts bk) (mo_draws mo) (a_user actor) current (st_db st) of
        (False, db') \<Rightarrow> (Inl (ApiError 403 WRONG_PASSWORD), st\<lparr>st_db := db'\<rparr>)
      | (True, db') \<Rightarrow>
          let db1 = set_new_password (bk_accounts bk) (mo_draws mo) (a_user actor) new db';
              (signed_out, db2) = sign_out_others (mo_now mo) (a_user actor) (a_token actor) db1
          in (Inr NoContent, st\<lparr>st_db := db2\<rparr>))"

definition delete_user_route :: "ustring \<Rightarrow> state \<Rightarrow> (exn + response) \<times> state" where
  "delete_user_route user_id st =
     (case user_by_id (st_db st) user_id of None \<Rightarrow> (Inl not_found, st)
      | Some user \<Rightarrow>
          if count_users (st_db st) \<le> 1 then (Inl (ApiError 409 LAST_USER), st)
          else (Inr NoContent, st\<lparr>st_db := snd (remove_user user_id (st_db st))\<rparr>))"

section \<open>A request\<close>

text \<open>The route of a request that has passed its dependency and its validation.\<close>

fun run_route :: "backend \<Rightarrow> moment \<Rightarrow> actor \<Rightarrow> request \<Rightarrow> state \<Rightarrow> (exn + response) \<times> state" where
  "run_route bk mo actor (R_Login username password) st = login_route bk mo username password st"
| "run_route bk mo actor R_Logout st = logout_route mo actor st"
| "run_route bk mo actor R_ListSites st = (list_sites_route bk st, st)"
| "run_route bk mo actor (R_CreateSite name) st = create_site_route bk mo name st"
| "run_route bk mo actor (R_GetSite slug) st = (get_site_route bk slug st, st)"
| "run_route bk mo actor (R_DeleteSite slug confirm) st = delete_site_route mo slug confirm st"
| "run_route bk mo actor (R_ListFiles slug path) st = list_files_route bk slug path st"
| "run_route bk mo actor (R_UploadFile slug path overwrite header body) st =
     upload_file_route bk mo slug path overwrite header body st"
| "run_route bk mo actor (R_DownloadFile slug path) st = (download_file_route bk slug path st, st)"
| "run_route bk mo actor (R_DeleteFile slug path) st = delete_file_route bk mo slug path st"
| "run_route bk mo actor (R_DeleteFolder slug path recursive) st = delete_folder_route bk mo slug path recursive st"
| "run_route bk mo actor R_ListTokens st = (list_tokens_route st, st)"
| "run_route bk mo actor (R_CreateToken name scope) st = create_token_route bk mo actor name scope st"
| "run_route bk mo actor R_TokenSelf st = (token_self_route actor, st)"
| "run_route bk mo actor (R_RevokeToken token_id) st = revoke_token_route mo token_id st"
| "run_route bk mo actor R_ListUsers st = (list_users_route st, st)"
| "run_route bk mo actor (R_CreateUser username password) st = create_user_route bk mo username password st"
| "run_route bk mo actor (R_ChangePassword current new) st = change_password_route bk mo actor current new st"
| "run_route bk mo actor (R_DeleteUser user_id) st = delete_user_route user_id st"

text \<open>The login takes no dependency, so no actor; every other route has one.\<close>

definition handle ::
  "backend \<Rightarrow> moment \<Rightarrow> ustring option \<Rightarrow> request \<Rightarrow> state \<Rightarrow> (exn + response) \<times> state" where
  "handle bk mo header rq st =
     (case rq of
        R_Login username password \<Rightarrow>
          if \<not> valid_request rq then (Inl RequestValidationError, st)
          else login_route bk mo username password st
      | _ \<Rightarrow>
          (case requires bk (mo_auth_now mo) header (access_of rq) (st_db st) of
             (Inl e, db') \<Rightarrow> (Inl e, st\<lparr>st_db := db'\<rparr>)
           | (Inr actor, db') \<Rightarrow>
               if \<not> valid_request rq then (Inl RequestValidationError, st\<lparr>st_db := db'\<rparr>)
               else run_route bk mo actor rq (st\<lparr>st_db := db'\<rparr>)))"

lemma handle_protected:
  "(\<forall>u p. rq \<noteq> R_Login u p) \<Longrightarrow> handle bk mo header rq st =
     (case requires bk (mo_auth_now mo) header (access_of rq) (st_db st) of
        (Inl e, db') \<Rightarrow> (Inl e, st\<lparr>st_db := db'\<rparr>)
      | (Inr actor, db') \<Rightarrow>
          if \<not> valid_request rq then (Inl RequestValidationError, st\<lparr>st_db := db'\<rparr>)
          else run_route bk mo actor rq (st\<lparr>st_db := db'\<rparr>))"
  by (cases rq; hypsubst; simp add: handle_def)

text \<open>The access rule of each request, from the route table.\<close>

lemma access_of_simps [simp]:
  "access_of (R_Login u p) = PUBLIC" "access_of R_Logout = SESSION_ONLY"
  "access_of R_ListSites = NEEDS_READ_ONLY" "access_of (R_CreateSite n) = NEEDS_READ_WRITE"
  "access_of (R_GetSite s) = NEEDS_READ_ONLY" "access_of (R_DeleteSite s c) = NEEDS_REMOVE_DESTRUCTIVE"
  "access_of (R_ListFiles s q) = NEEDS_READ_ONLY" "access_of (R_UploadFile s q ow h b) = NEEDS_READ_WRITE"
  "access_of (R_DownloadFile s q) = NEEDS_READ_ONLY" "access_of (R_DeleteFile s q) = NEEDS_REMOVE_DESTRUCTIVE"
  "access_of (R_DeleteFolder s q r) = NEEDS_REMOVE_DESTRUCTIVE" "access_of R_ListTokens = SESSION_ONLY"
  "access_of (R_CreateToken n sc) = SESSION_ONLY" "access_of R_TokenSelf = ANY_TOKEN"
  "access_of (R_RevokeToken i) = SESSION_ONLY" "access_of R_ListUsers = SESSION_ONLY"
  "access_of (R_CreateUser u p) = SESSION_ONLY" "access_of (R_ChangePassword u p) = SESSION_ONLY"
  "access_of (R_DeleteUser i) = SESSION_ONLY"
  unfolding access_of_def route_name.simps route_table by simp_all

end
