(* ===== verification/Requests.thy ===== *)
theory Requests
  imports Backend_Routes
begin

text \<open>
  What the routes of \<open>src/paper_boxing/backend/routes.py\<close> allow: who gets an answer, what a
  read-only caller, an agent token and an unauthenticated caller can change, the rules on
  accounts, and the errors the contract admits.
\<close>

section \<open>The dependency\<close>

lemma resolve_bearer_frame:
  "resolve_bearer ac now h db = (r, db') \<Longrightarrow>
     db_users db' = db_users db \<and> db_sites db' = db_sites db \<and> db_files db' = db_files db"
  by (auto simp: resolve_bearer_def Let_def split: option.splits sum.splits if_splits)

lemma requires_ok:
  assumes "requires bk now h acc db = (Inr actor, db')"
  shows "resolve_bearer (bk_accounts bk) now h db = (Inr (Some actor), db')"
    "access_allows acc (Some (t_type (a_token actor))) (Some (t_scope (a_token actor)))"
  using assms by (auto simp: requires_def split: prod.splits sum.splits option.splits if_splits)

lemma requires_frame:
  assumes "requires bk now h acc db = (r, db')"
  shows "db_users db' = db_users db" "db_sites db' = db_sites db" "db_files db' = db_files db"
    "db' = snd (resolve_bearer (bk_accounts bk) now h db)"
  using assms resolve_bearer_frame [of "bk_accounts bk" now h db]
  by (auto simp: requires_def split: prod.splits sum.splits option.splits if_splits)

lemma requires_accounts_ok: "accounts_ok db \<Longrightarrow> requires bk now h acc db = (r, db') \<Longrightarrow> accounts_ok db'"
  using requires_frame(4) resolve_step(1) by blast

text \<open>A request that reaches its route, and one that does not.\<close>

lemma handle_cases:
  assumes "handle bk mo h rq st = (r, st')" "\<forall>u p. rq \<noteq> R_Login u p"
  obtains (refused) e db' where "requires bk (mo_auth_now mo) h (access_of rq) (st_db st) = (Inl e, db')"
      "r = Inl e" "st' = st\<lparr>st_db := db'\<rparr>"
  | (invalid) actor db' where "requires bk (mo_auth_now mo) h (access_of rq) (st_db st) = (Inr actor, db')"
      "r = Inl RequestValidationError" "st' = st\<lparr>st_db := db'\<rparr>"
  | (route) actor db' where "requires bk (mo_auth_now mo) h (access_of rq) (st_db st) = (Inr actor, db')"
      "valid_request rq" "run_route bk mo actor rq (st\<lparr>st_db := db'\<rparr>) = (r, st')"
  using assms by (auto simp: handle_protected split: prod.splits sum.splits if_splits)

text \<open>What the secret a request carries is good for.\<close>

definition caller :: "accounts \<Rightarrow> time \<Rightarrow> ustring option \<Rightarrow> database \<Rightarrow> (token_type \<times> scope \<times> ustring) option" where
  "caller ac now h db =
     (case parse_bearer h of None \<Rightarrow> None
      | Some secret \<Rightarrow> (case secret_digest ac secret of Inl e \<Rightarrow> None | Inr d \<Rightarrow> grants now db d))"

lemma requires_caller:
  assumes "accounts_ok db" "requires bk now h acc db = (Inr actor, db')"
  shows "caller (bk_accounts bk) now h db = Some (grant_of (a_token actor))"
    "access_allows acc (Some (t_type (a_token actor))) (Some (t_scope (a_token actor)))"
  using resolve_found [OF assms(1) requires_ok(1) [OF assms(2)]] requires_ok(2) [OF assms(2)]
  by (auto simp: caller_def grants_def grant_of_def)

text \<open>
  C9. Every route but the login answers only a caller it should: a success means that the
  request carried a secret that is stored and live at that moment and whose type and scope the
  route table's rule for that route allows.
\<close>

theorem answered_only_with_access:
  assumes "accounts_ok (st_db st)" "handle bk mo h rq st = (Inr answer, st')" "\<forall>u p. rq \<noteq> R_Login u p"
  shows "\<exists>type scope owner. caller (bk_accounts bk) (mo_auth_now mo) h (st_db st) = Some (type, scope, owner)
     \<and> access_allows (access_of rq) (Some type) (Some scope)"
  using assms(2,3)
proof (cases rule: handle_cases)
  case (route actor db')
  from requires_caller [OF assms(1) route(1)] show ?thesis by (auto simp: grant_of_def)
qed auto

section \<open>The served tree\<close>

lemma land_locked_tree:
  assumes "land_locked sg ev slug path overwrite sd st = (r, st')"
  shows "st_sites st' = st_sites st
    \<or> (\<exists>p. st_sites st' = mkdirs (ev_now ev) p (st_sites st))
    \<or> (\<exists>c m replaced. check_write_target (st_sites st) slug (segments_of path) overwrite = Inr replaced
         \<and> \<not> blocked (butlast (slug # segments_of path)) (st_sites st)
         \<and> st_sites st' = insert_at (ev_now ev) (slug # segments_of path) (Reg c m)
             (mkdirs (ev_now ev) (butlast (slug # segments_of path)) (st_sites st)))"
  using assms
  by (auto simp: land_locked_def Let_def simp del: butlast.simps dest!: resolve_Inr
      split: sum.splits if_splits option.splits prod.splits node.splits) blast+

text \<open>What any upload, answered or not, leaves at a location: the file at its target, new folders, or what was there.\<close>

lemma write_file_at:
  assumes "write_file sg ev slug path body overwrite declared st = (r, st')" "canonical_path path"
  shows "what_at (st_sites st') q = what_at (st_sites st) q
    \<or> what_at (st_sites st) q = Missing \<and> what_at (st_sites st') q = A_Folder
    \<or> q = slug # segments_of path \<and> (\<exists>c m. what_at (st_sites st') q = A_File c m)
        \<and> (what_at (st_sites st) q = Missing \<or> overwrite)"
proof -
  obtain r1 st1 where b: "begin_write sg ev slug path body declared st = (r1, st1)" by fastforce
  then have same: "st_sites st1 = st_sites st"
    by (auto simp: begin_write_def stage_def Let_def split: sum.splits if_splits)
  show ?thesis
  proof (cases r1)
    case (Inl e)
    then show ?thesis using b same assms by (auto simp: write_file_def)
  next
    case (Inr sd)
    obtain r2 st2 where l: "land_locked sg ev slug path overwrite sd st1 = (r2, st2)" by fastforce
    have sites: "st_sites st' = st_sites st2"
      using b Inr l assms(1) by (auto simp: write_file_def land_def split: sum.splits)
    have "what_at (st_sites st2) q = what_at (st_sites st) q
      \<or> what_at (st_sites st) q = Missing \<and> what_at (st_sites st2) q = A_Folder
      \<or> q = slug # segments_of path \<and> (\<exists>c m. what_at (st_sites st2) q = A_File c m)
          \<and> (what_at (st_sites st) q = Missing \<or> overwrite)"
      using land_locked_tree [OF l, unfolded same]
    proof (elim disjE exE conjE)
      fix p assume "st_sites st2 = mkdirs (ev_now ev) p (st_sites st)"
      then show ?thesis using mkdirs_only_adds [of "ev_now ev" p "st_sites st" q] by auto
    next
      fix c m replaced
      assume c: "check_write_target (st_sites st) slug (segments_of path) overwrite = Inr replaced"
        "\<not> blocked (butlast (slug # segments_of path)) (st_sites st)"
        "st_sites st2 = insert_at (ev_now ev) (slug # segments_of path) (Reg c m)
           (mkdirs (ev_now ev) (butlast (slug # segments_of path)) (st_sites st))"
      show ?thesis
        unfolding c(3) what_at_landed [OF c(1,2) segments_nonempty [OF assms(2)]]
        using check_write_target_ok(1) [OF c(1)] by auto
    qed simp
    then show ?thesis using sites by simp
  qed
qed

lemma write_file_tree:
  assumes "write_file sg ev slug path body overwrite declared st = (r, st')" "canonical_path path"
    "what_at (st_sites st) q \<noteq> Missing"
  shows "what_at (st_sites st') q \<noteq> Missing"
  using write_file_at [OF assms(1,2), of q] assms(3) by auto

text \<open>The root of a tree stays a folder.\<close>

lemma root_kept:
  "what_at (insert_at t p new n) [] = A_Folder \<longleftrightarrow> what_at n [] = A_Folder"
  "what_at (mkdirs t p n) [] = A_Folder \<longleftrightarrow> what_at n [] = A_Folder"
  "what_at (remove_at t p n) [] = A_Folder \<longleftrightarrow> what_at n [] = A_Folder"
  "what_at (unlink_at t p n) [] = A_Folder \<longleftrightarrow> what_at n [] = A_Folder"
  unfolding unlink_at_def by (cases n; cases p; auto split: option.split)+

lemma create_site_tree:
  assumes "create_site ev slug name t st = (r, st')" "what_at (st_sites st) [] = A_Folder"
    "what_at (st_sites st) q \<noteq> Missing"
  shows "what_at (st_sites st') q \<noteq> Missing"
proof (cases "what_at (st_sites st) [slug] = Missing")
  case True
  then show ?thesis
    using assms what_at_mkdir [OF assms(2) True] what_at_rmdir [OF assms(2) True]
    by (auto simp: create_site_def Let_def split: if_splits option.splits sum.splits)
qed (use assms in \<open>auto simp: create_site_def Let_def split: if_splits\<close>)

lemma list_folder_tree: "list_folder sg slug folder st = (r, st') \<Longrightarrow> st_sites st' = st_sites st \<and> st_staging st' = st_staging st"
  by (auto simp: list_folder_def Let_def split: sum.splits kind.splits if_splits)

lemma site_and_path_ok:
  assumes "site_and_path st slug raw allow_root = Inr (site, path)"
  shows "site = slug" "site_by_slug (st_db st) slug \<noteq> None" "validate_site_path raw allow_root = Inr path"
    "validate_slug slug = Inr slug"
  using assms
  by (auto simp: site_and_path_def find_site_def valid_path_def site_by_slug_def validate_slug_def
      dest!: row_with_SomeD split: sum.splits option.splits if_splits)

lemma path_not_root: "validate_site_path raw False = Inr path \<Longrightarrow> canonical_path path"
  by (auto simp: validate_ok_iff split: if_splits)

lemma run_route_tree:
  assumes "run_route bk mo actor rq st = (r, st')" "what_at (st_sites st) [] = A_Folder"
  shows "access_of rq \<notin> {NEEDS_READ_WRITE, NEEDS_REMOVE_DESTRUCTIVE} \<Longrightarrow> st_sites st' = st_sites st"
    and "access_of rq \<noteq> NEEDS_REMOVE_DESTRUCTIVE \<Longrightarrow> what_at (st_sites st) q \<noteq> Missing \<Longrightarrow>
      what_at (st_sites st') q \<noteq> Missing"
proof -
  show same: "st_sites st' = st_sites st" if "access_of rq \<notin> {NEEDS_READ_WRITE, NEEDS_REMOVE_DESTRUCTIVE}"
    using assms(1) that list_folder_tree
    by (cases rq)
      (auto simp: login_route_def logout_route_def list_files_route_def create_token_route_def revoke_token_route_def
        create_user_route_def change_password_route_def delete_user_route_def Let_def
        split: prod.splits sum.splits option.splits if_splits bool.splits)
  assume a: "access_of rq \<noteq> NEEDS_REMOVE_DESTRUCTIVE" "what_at (st_sites st) q \<noteq> Missing"
  show "what_at (st_sites st') q \<noteq> Missing"
  proof (cases "access_of rq = NEEDS_READ_WRITE")
    case True
    then show ?thesis
      using assms a(2) create_site_tree [OF _ assms(2) a(2)] write_file_tree [OF _ path_not_root a(2)]
      by (cases rq)
        (auto simp: create_site_route_def upload_file_route_def split: prod.splits sum.splits
          dest!: site_and_path_ok(1,3))
  qed (use same a in auto)
qed

text \<open>A request that changes the tree reaches a route for writing, one that loses something a route for removing.\<close>

lemma tree_change_route:
  assumes "what_at (st_sites st) [] = A_Folder" "handle bk mo h rq st = (r, st')"
    and "what_at (st_sites st') q \<noteq> what_at (st_sites st) q"
  obtains actor db' where "requires bk (mo_auth_now mo) h (access_of rq) (st_db st) = (Inr actor, db')"
    "access_of rq \<in> {NEEDS_READ_WRITE, NEEDS_REMOVE_DESTRUCTIVE}"
    "what_at (st_sites st') q = Missing \<longrightarrow> access_of rq = NEEDS_REMOVE_DESTRUCTIVE"
proof -
  have nl: "\<forall>u p. rq \<noteq> R_Login u p"
    using assms(2,3) by (auto simp: handle_def login_route_def split: if_splits prod.splits sum.splits option.splits)
  from assms(2) nl show ?thesis
  proof (cases rule: handle_cases)
    case (route actor db')
    note t = run_route_tree [OF route(3)]
    have "access_of rq \<in> {NEEDS_READ_WRITE, NEEDS_REMOVE_DESTRUCTIVE}"
    proof (rule ccontr)
      assume "access_of rq \<notin> {NEEDS_READ_WRITE, NEEDS_REMOVE_DESTRUCTIVE}"
      with t(1) assms(1) have "st_sites st' = st_sites (st\<lparr>st_db := db'\<rparr>)" by simp
      with assms(3) show False by simp
    qed
    moreover have "what_at (st_sites st') q = Missing \<Longrightarrow> access_of rq = NEEDS_REMOVE_DESTRUCTIVE"
      using t(2) [of q] assms(1,3) by auto
    ultimately show ?thesis using that route(1) by blast
  qed (use assms(3) in auto)
qed

text \<open>
  C7. The served tree is under the scopes: nothing in it changes but at the request of a
  caller whose token reads and writes, and nothing in it disappears but at the request of a
  caller whose token may remove.  A request without a valid token, or with a read-only one,
  leaves every file and folder as it is.
\<close>

theorem tree_changes_need_scope:
  assumes "accounts_ok (st_db st)" "what_at (st_sites st) [] = A_Folder" "handle bk mo h rq st = (r, st')"
    and "what_at (st_sites st') q \<noteq> what_at (st_sites st) q"
  shows "\<exists>type scope owner. caller (bk_accounts bk) (mo_auth_now mo) h (st_db st) = Some (type, scope, owner)
     \<and> scope \<noteq> READ_ONLY \<and> (what_at (st_sites st') q = Missing \<longrightarrow> scope = REMOVE_DESTRUCTIVE)"
proof -
  obtain actor db' where r: "requires bk (mo_auth_now mo) h (access_of rq) (st_db st) = (Inr actor, db')"
    and acc: "access_of rq \<in> {NEEDS_READ_WRITE, NEEDS_REMOVE_DESTRUCTIVE}"
      "what_at (st_sites st') q = Missing \<longrightarrow> access_of rq = NEEDS_REMOVE_DESTRUCTIVE"
    using assms(2-4) by (rule tree_change_route)
  then show ?thesis
    using requires_caller [OF assms(1) r]
    by (cases "t_scope (a_token actor)") (auto simp: access_allows_token grant_of_def less_eq_scope_def)
qed

section \<open>Accounts\<close>

lemma write_file_accounts:
  "write_file sg ev slug path body overwrite declared st = (r, st') \<Longrightarrow>
     db_users (st_db st') = db_users (st_db st) \<and> db_tokens (st_db st') = db_tokens (st_db st)
     \<and> db_sites (st_db st') = db_sites (st_db st)"
  by (auto simp: write_file_def begin_write_def stage_def land_def land_locked_def Let_def
      dest: upsert_file_frame split: sum.splits if_splits option.splits prod.splits node.splits)

lemma create_site_accounts:
  "create_site ev slug name t st = (r, st') \<Longrightarrow>
     db_users (st_db st') = db_users (st_db st) \<and> db_tokens (st_db st') = db_tokens (st_db st)"
  by (auto simp: create_site_def insert_site_def Let_def split: sum.splits if_splits option.splits)

lemma delete_site_accounts:
  "delete_site ev slug st = (r, st') \<Longrightarrow>
     db_users (st_db st') = db_users (st_db st) \<and> db_tokens (st_db st') = db_tokens (st_db st)"
  by (auto simp: delete_site_def delete_site_row_def Let_def split: if_splits option.splits)

lemma delete_file_accounts:
  "delete_file sg ev slug path st = (r, st') \<Longrightarrow>
     db_users (st_db st') = db_users (st_db st) \<and> db_tokens (st_db st') = db_tokens (st_db st)
     \<and> db_sites (st_db st') = db_sites (st_db st)"
  by (auto simp: delete_file_def delete_file_row_def Let_def split: if_splits sum.splits kind.splits)

lemma delete_folder_accounts:
  "delete_folder sg ev slug path rec st = (r, st') \<Longrightarrow>
     db_users (st_db st') = db_users (st_db st) \<and> db_tokens (st_db st') = db_tokens (st_db st)
     \<and> db_sites (st_db st') = db_sites (st_db st)"
  by (auto simp: delete_folder_def delete_files_under_def Let_def split: if_splits sum.splits kind.splits)

lemma list_entries_accounts:
  "list_entries sg slug folder indexed es db = Inr (folders, files, seen, db') \<Longrightarrow>
     db_users db' = db_users db \<and> db_tokens db' = db_tokens db \<and> db_sites db' = db_sites db"
proof (induction es arbitrary: db folders files seen)
  case (Cons e es)
  obtain name n where e: "e = (name, n)" by fastforce
  show ?case
  proof (cases n)
    case (Reg c m)
    then obtain db1 where db1: "db1 = db \<or> (\<exists>row. upsert_file db row = Inr db1)"
      "\<exists>fo fi se. list_entries sg slug folder indexed es db1 = Inr (fo, fi, se, db')"
      using Cons.prems e by (auto simp: Let_def split: sum.splits prod.splits if_splits)
    then show ?thesis using Cons.IH upsert_file_frame by metis
  qed (use Cons e in \<open>auto simp: Let_def split: sum.splits prod.splits\<close>)
qed simp

lemma fold_delete_accounts:
  "db_users (fold (\<lambda>p db. delete_file_row db slug p) ps db) = db_users db
   \<and> db_tokens (fold (\<lambda>p db. delete_file_row db slug p) ps db) = db_tokens db
   \<and> db_sites (fold (\<lambda>p db. delete_file_row db slug p) ps db) = db_sites db"
  by (induction ps arbitrary: db) (auto simp: delete_file_row_def)

lemma list_folder_accounts:
  "list_folder sg slug folder st = (r, st') \<Longrightarrow>
     db_users (st_db st') = db_users (st_db st) \<and> db_tokens (st_db st') = db_tokens (st_db st)
     \<and> db_sites (st_db st') = db_sites (st_db st)"
  by (auto simp: list_folder_def Let_def fold_delete_accounts dest: list_entries_accounts
      split: sum.splits kind.splits if_splits)

lemmas storage_accounts = write_file_accounts create_site_accounts delete_site_accounts delete_file_accounts
  delete_folder_accounts list_folder_accounts

text \<open>A route that is not for sessions only leaves the users and the tokens alone.\<close>

lemma run_route_accounts:
  assumes "run_route bk mo actor rq st = (r, st')" "access_of rq \<noteq> SESSION_ONLY" "access_of rq \<noteq> PUBLIC"
  shows "db_users (st_db st') = db_users (st_db st) \<and> db_tokens (st_db st') = db_tokens (st_db st)"
  using assms
  by (cases rq)
    (auto simp: create_site_route_def delete_site_route_def list_files_route_def upload_file_route_def
      delete_file_route_def delete_folder_route_def dest: storage_accounts split: prod.splits sum.splits if_splits)

lemma requires_agent_grants:
  assumes "accounts_ok db" "requires bk now h acc db = (r, db')" "now \<le> now'"
    "\<not> (\<exists>scope owner. caller (bk_accounts bk) now h db = Some (SESSION, scope, owner))"
  shows "grants now' db' d = grants now' db d"
proof -
  obtain res where res: "resolve_bearer (bk_accounts bk) now h db = (res, db')"
    using requires_frame(4) [OF assms(2)] by (metis prod.collapse)
  show ?thesis
  proof (cases "\<exists>a. res = Inr (Some a)")
    case True
    then obtain a where a: "resolve_bearer (bk_accounts bk) now h db = (Inr (Some a), db')" using res by auto
    obtain secret d0 t where t: "parse_bearer h = Some secret" "secret_digest (bk_accounts bk) secret = Inr d0"
      "token_by_secret db d0 = Some t" "live_token now t"
      "a_token a = t\<lparr>t_last_used_at := Some now,
          t_expires_at := (if t_type t = SESSION then Some (now + ac_session_length (bk_accounts bk)) else None)\<rparr>"
      "\<forall>d'. token_by_secret db' d' = (if d' = d0 then Some (a_token a) else token_by_secret db d')"
      using resolve_found [OF assms(1) a] by metis
    then have "t_type t \<noteq> SESSION" using assms(4) by (auto simp: caller_def grants_def grant_of_def)
    then have "t_expires_at t = None \<and> t_expires_at (a_token a) = None"
      using accounts_ok_shape [OF assms(1) token_by_secret_in [OF t(3)]] t(5) by (auto simp: token_shape_def)
    then have "live_token now' (a_token a) = live_token now' t" "grant_of (a_token a) = grant_of t"
      using t(5) by (simp_all add: live_token_def grant_of_def)
    then show ?thesis using t(3,6) by (cases "d = d0") (simp_all add: grants_def)
  next
    case False
    show ?thesis by (rule resolve_kept [OF res False assms(1,3)])
  qed
qed

text \<open>
  C8. Accounts and tokens are out of an agent's reach: unless the request is a login or its
  caller holds a live session, no account is added, removed or given another password, and every
  secret is good for exactly what it was good for; an agent token, whatever its scope, can neither
  mint, revoke nor prolong one.
\<close>

theorem only_sessions_change_accounts:
  assumes "accounts_ok (st_db st)" "handle bk mo h rq st = (r, st')" "\<forall>u p. rq \<noteq> R_Login u p"
    and "\<not> (\<exists>scope owner. caller (bk_accounts bk) (mo_auth_now mo) h (st_db st) = Some (SESSION, scope, owner))"
    and "mo_auth_now mo \<le> now"
  shows "db_users (st_db st') = db_users (st_db st) \<and> grants now (st_db st') d = grants now (st_db st) d"
  using assms(2,3)
proof (cases rule: handle_cases)
  case (refused e db')
  then show ?thesis
    using requires_frame(1) requires_agent_grants [OF assms(1) _ assms(5,4)] by simp
next
  case (invalid actor db')
  then show ?thesis
    using requires_frame(1) requires_agent_grants [OF assms(1) _ assms(5,4)] by simp
next
  case (route actor db')
  have "t_type (a_token actor) \<noteq> SESSION"
    using requires_caller(1) [OF assms(1) route(1)] assms(4) by (auto simp: grant_of_def)
  then have "access_of rq \<noteq> SESSION_ONLY"
    using requires_caller(2) [OF assms(1) route(1)] by (auto simp: access_allows_token)
  moreover have "access_of rq \<noteq> PUBLIC" using assms(3) by (cases rq) auto
  ultimately have "db_users (st_db st') = db_users db'" "db_tokens (st_db st') = db_tokens db'"
    using run_route_accounts [OF route(3)] by simp_all
  moreover from this have "grants now (st_db st') d = grants now db' d"
    by (simp add: grants_def token_by_secret_def)
  ultimately show ?thesis
    using requires_frame(1) [OF route(1)] requires_agent_grants [OF assms(1) route(1) assms(5,4), of d] by simp
qed

section \<open>The last account\<close>

lemma count_verify: "verify_password ac dr u pw db = (b, db') \<Longrightarrow> count_users db' = count_users db"
  by (auto simp: verify_password_def Let_def split: if_splits)

lemma count_login:
  assumes "login ac now dr un pw db = (r, db')"
  shows "count_users db' = count_users db"
proof -
  have "db' = db \<or> (\<exists>u b db1. verify_password ac dr u pw db = (b, db1) \<and> db_users db' = db_users db1)"
    using assms by (auto simp: login_def Let_def dest: insert_token_frame
        split: option.splits bool.splits prod.splits sum.splits)
  then show ?thesis using count_verify by (auto simp: count_users_def)
qed

lemma count_create_user: "create_user ac now dr un pw db = (r, db') \<Longrightarrow> count_users db \<le> count_users db'"
  by (auto simp: create_user_def insert_user_def count_users_def Let_def split: if_splits sum.splits)

lemma count_remove:
  assumes "db_ok db" "user_by_id db i = Some u"
  shows "Suc (count_users (snd (remove_user i db))) = count_users db"
proof -
  have "u \<in> set (db_users db)" "u_id u = i"
    using assms(2) by (auto simp: user_by_id_def dest!: row_with_SomeD)
  then show ?thesis
    using delete_rows_single [OF db_okD(1) [OF assms(1)], of u]
    by (simp add: count_users_def remove_user_def delete_user_def)
qed

lemma run_route_count:
  assumes "run_route bk mo actor rq st = (r, st')" "db_ok (st_db st)" "1 \<le> count_users (st_db st)"
  shows "1 \<le> count_users (st_db st')"
proof (cases "access_of rq = SESSION_ONLY \<or> access_of rq = PUBLIC")
  case False
  then show ?thesis using run_route_accounts [OF assms(1)] assms(3) by (simp add: count_users_def)
next
  case True
  show ?thesis
  proof (cases rq)
    case (R_CreateUser u p)
    then show ?thesis using assms count_create_user le_trans
      by (fastforce simp: create_user_route_def split: prod.splits sum.splits)
  next
    case (R_DeleteUser i)
    then show ?thesis using assms(1,3)
      by (auto simp: delete_user_route_def dest: count_remove [OF assms(2)] split: option.splits if_splits)
  next
    case (R_ChangePassword c n)
    obtain b db1 where v: "verify_password (bk_accounts bk) (mo_draws mo) (a_user actor) c (st_db st) = (b, db1)"
      by fastforce
    then show ?thesis using assms(1,3) R_ChangePassword count_verify [OF v]
      by (cases b) (auto simp: change_password_route_def set_new_password_def sign_out_others_def count_users_def
          set_password_hash_def case_prod_unfold)
  next
    case (R_CreateToken n sc)
    then show ?thesis using assms(1,3)
      by (auto simp: create_token_route_def create_agent_token_def count_users_def Let_def
          dest!: insert_token_frame split: prod.splits sum.splits)
  qed (use True assms(1,3) in \<open>auto simp: login_route_def logout_route_def logout_def revoke_token_route_def
      revoke_agent_token_def change_password_route_def set_new_password_def sign_out_others_def count_users_def Let_def
      dest!: count_login [unfolded count_users_def] count_verify [unfolded count_users_def]
      split: prod.splits sum.splits option.splits if_splits bool.splits\<close>)
qed

text \<open>
  C24. The last account cannot be deleted: a backend with an account has one after any
  request, whoever makes it.
\<close>

theorem an_account_remains:
  assumes "accounts_ok (st_db st)" "1 \<le> count_users (st_db st)" "handle bk mo h rq st = (r, st')"
  shows "1 \<le> count_users (st_db st')"
proof (cases "\<exists>u p. rq = R_Login u p")
  case True
  then show ?thesis using assms(2,3)
    by (auto simp: handle_def login_route_def dest!: count_login
        split: if_splits prod.splits sum.splits option.splits)
next
  case False
  then have "\<forall>u p. rq \<noteq> R_Login u p" by blast
  from assms(3) this show ?thesis
  proof (cases rule: handle_cases)
    case (route actor db')
    have "db_ok db'" using requires_accounts_ok [OF assms(1) route(1)] by (rule accounts_okD)
    then show ?thesis
      using run_route_count [OF route(3)] assms(2) requires_frame(1) [OF route(1)] by (simp add: count_users_def)
  qed (use assms(2) requires_frame(1) in \<open>fastforce simp: count_users_def\<close>)+
qed

section \<open>Errors\<close>

lemma resolve_in_contract: "resolve sg sites slug path = Inl e \<Longrightarrow> in_contract e"
  by (auto simp: resolve_def split: if_splits)

lemma receive_in_contract: "receive cap fault broken cs acc = Inl e \<Longrightarrow> in_contract e"
  using receive_error [of cap fault broken cs acc e] by auto

lemma check_write_in_contract:
  assumes "check_write_target sites slug p overwrite = Inl e"
  shows "in_contract e"
proof -
  have "check_parents sites slug qs = Some e \<Longrightarrow> in_contract e" for qs
    by (induction qs) (auto split: kind.splits)
  then show ?thesis using assms by (auto simp: check_write_target_def split: option.splits kind.splits if_splits)
qed

lemma database_in_contract:
  "upsert_file db row = Inl e \<Longrightarrow> in_contract e" "insert_site db site = Inl e \<Longrightarrow> in_contract e"
  "insert_token db t d = Inl e \<Longrightarrow> in_contract e" "insert_user db u = Inl e \<Longrightarrow> in_contract e"
  "secret_digest ac secret = Inl e \<Longrightarrow> in_contract e"
  by (auto simp: upsert_file_def insert_site_def insert_token_def insert_user_def secret_digest_def
      split: if_splits option.splits)

lemma list_entries_in_contract:
  "list_entries sg slug folder indexed es db = Inl e \<Longrightarrow> in_contract e"
proof (induction es arbitrary: db)
  case (Cons x es)
  then show ?case
    by (cases x; cases "snd x") (auto simp: Let_def database_in_contract split: sum.splits prod.splits if_splits)
qed simp

lemma storage_in_contract:
  "create_site ev slug name t st = (Inl e, st') \<Longrightarrow> in_contract e"
  "delete_site ev slug st = (Inl e, st') \<Longrightarrow> in_contract e"
  "list_folder sg slug folder st = (Inl e, st') \<Longrightarrow> in_contract e"
  "file_path sg slug path st = Inl e \<Longrightarrow> in_contract e"
  "delete_file sg ev slug path st = (Inl e, st') \<Longrightarrow> in_contract e"
  "delete_folder sg ev slug path rec st = (Inl e, st') \<Longrightarrow> in_contract e"
  by (auto simp: create_site_def delete_site_def list_folder_def file_path_def delete_file_def delete_folder_def Let_def
      database_in_contract resolve_in_contract list_entries_in_contract
      split: if_splits option.splits sum.splits kind.splits prod.splits)

lemma write_file_in_contract:
  "write_file sg ev slug path body overwrite declared st = (Inl e, st') \<Longrightarrow> in_contract e"
  by (auto simp: write_file_def begin_write_def stage_def land_def land_locked_def Let_def
      database_in_contract resolve_in_contract receive_in_contract check_write_in_contract
      split: if_splits option.splits sum.splits prod.splits node.splits)

lemma accounts_in_contract:
  "resolve_bearer ac now h db = (Inl e, db') \<Longrightarrow> in_contract e"
  "login ac now dr un pw db = (Inl e, db') \<Longrightarrow> in_contract e"
  "create_agent_token ac now dr u n sc db = (Inl e, db') \<Longrightarrow> in_contract e"
  "create_user ac now dr un pw db = (Inl e, db') \<Longrightarrow> in_contract e"
  by (auto simp: resolve_bearer_def login_def create_agent_token_def create_user_def Let_def database_in_contract
      split: if_splits option.splits sum.splits prod.splits bool.splits)

lemma site_and_path_in_contract: "site_and_path st slug raw ar = Inl e \<Longrightarrow> in_contract e"
  "find_site st slug = Inl e \<Longrightarrow> in_contract e"
  by (auto simp: site_and_path_def find_site_def valid_path_def split: sum.splits option.splits)

lemma run_route_in_contract:
  "run_route bk mo actor rq st = (Inl e, st') \<Longrightarrow> in_contract e"
  by (cases rq)
    (auto simp: login_route_def logout_route_def list_sites_route_def create_site_route_def get_site_route_def
      delete_site_route_def list_files_route_def upload_file_route_def download_file_route_def attachment_def
      delete_file_route_def delete_folder_route_def list_tokens_route_def create_token_route_def token_self_route_def
      revoke_token_route_def list_users_route_def create_user_route_def change_password_route_def
      delete_user_route_def Let_def storage_in_contract write_file_in_contract accounts_in_contract
      site_and_path_in_contract
      split: prod.splits sum.splits option.splits if_splits bool.splits what.splits)

lemma handle_in_contract:
  assumes "handle bk mo h rq st = (Inl e, st')"
  shows "in_contract e"
proof (cases "\<exists>u p. rq = R_Login u p")
  case True
  then show ?thesis using assms run_route_in_contract [of bk mo _ rq st e st']
    by (auto simp: handle_def split: if_splits)
next
  case False
  then have "\<forall>u p. rq \<noteq> R_Login u p" by blast
  from assms this show ?thesis
  proof (cases rule: handle_cases)
    case (refused e' db')
    then show ?thesis using accounts_in_contract(1)
      by (auto simp: requires_def split: prod.splits sum.splits option.splits if_splits)
  qed (use run_route_in_contract in auto)
qed

text \<open>
  C23. Every error a request can end in is answered as the contract pairs it: the status of
  the answer is the status the error codes' table gives for the code in its body, for the API's own
  errors, for the validation errors, for a full volume, and for everything unforeseen.
\<close>

theorem errors_follow_contract:
  assumes "handle bk mo h rq st = (Inl e, st')"
  shows "fst (error_answer e) = status_of (snd (error_answer e)) \<and> in_contract e"
  using handle_in_contract [OF assms] error_answer_paired by blast

section \<open>A password change\<close>

lemma user_by_id_set_password [row_simps]:
  "user_by_id (set_password_hash db i h) j =
     map_option (\<lambda>u. if u_id u = i then u\<lparr>u_password_hash := h\<rparr> else u) (user_by_id db j)"
  unfolding user_by_id_def set_password_hash_def by (simp add: row_with_update)

lemma change_password_cases:
  assumes "change_password_route bk mo actor current new st = (Inr answer, st')"
  obtains db1 where "verify_password (bk_accounts bk) (mo_draws mo) (a_user actor) current (st_db st) = (True, db1)"
    "st_db st' = snd (sign_out_others (mo_now mo) (a_user actor) (a_token actor)
       (set_new_password (bk_accounts bk) (mo_draws mo) (a_user actor) new db1))"
  using assms by (auto simp: change_password_route_def Let_def split: prod.splits bool.splits)


end
