(* ===== verification/Client.thy ===== *)
theory Client
  imports Requests
begin

text \<open>
  The REST client, \<open>src/paper_boxing/common/client.py\<close>, which the frontend and the MCP server use:
  what each method sends (\<open>client_http\<close>), the headers, and how an answer becomes a value or a
  \<open>BackendError\<close>.  The HTTP library, the network and the server's framework are the argument
  \<open>exchange\<close>; \<open>rest_exchange\<close> is the one that leads to the model of the backend.  The theory shows
  that every method speaks to the route it is meant for, with the method and the parameters the
  route table gives it.
\<close>

section \<open>What a method sends\<close>

text \<open>
  \<open>hc_path\<close> is the URL \<open>build_path\<close> makes, \<open>None\<close> where it raises; \<open>hc_json\<close> the fields of the JSON
  body; \<open>hc_content\<close> the raw body.
\<close>

record http_call =
  hc_method :: http_method
  hc_path :: "ustring option"
  hc_params :: "(ustring \<times> ustring) list"
  hc_json :: "(ustring \<times> ustring) list"
  hc_content :: "octets option"

abbreviation plain_call :: "http_method \<Rightarrow> string \<Rightarrow> (ustring \<times> ustring) list \<Rightarrow> http_call" where
  "plain_call m name params \<equiv>
     \<lparr>hc_method = m, hc_path = build_path (lit name) params, hc_params = [], hc_json = [], hc_content = None\<rparr>"

definition flag_text :: "bool \<Rightarrow> ustring" where
  "flag_text b = (if b then lit ''true'' else lit ''false'')"

text \<open>The parameter of \<open>delete_site\<close> is a string; a request without one is not the client's.\<close>

fun client_http :: "request \<Rightarrow> http_call" where
  "client_http (R_Login username password) =
     (plain_call POST ''login'' [])\<lparr>hc_json := [(lit ''username'', username), (lit ''password'', password)]\<rparr>"
| "client_http R_Logout = plain_call POST ''logout'' []"
| "client_http R_ListSites = plain_call GET ''list_sites'' []"
| "client_http (R_GetSite slug) = plain_call GET ''get_site'' [(lit ''slug'', slug)]"
| "client_http (R_CreateSite name) = (plain_call POST ''create_site'' [])\<lparr>hc_json := [(lit ''name'', name)]\<rparr>"
| "client_http (R_DeleteSite slug confirm) =
     (plain_call DELETE ''delete_site'' [(lit ''slug'', slug)])
       \<lparr>hc_params := (case confirm of None \<Rightarrow> [] | Some c \<Rightarrow> [(lit ''confirm'', c)])\<rparr>"
| "client_http (R_ListFiles slug path) =
     (plain_call GET ''list_files'' [(lit ''slug'', slug)])\<lparr>hc_params := [(lit ''path'', path)]\<rparr>"
| "client_http (R_UploadFile slug path overwrite header body) =
     (plain_call PUT ''upload_file'' (file_params slug path))
       \<lparr>hc_params := [(lit ''overwrite'', flag_text overwrite)], hc_content := Some (concat (ub_chunks body))\<rparr>"
| "client_http (R_DownloadFile slug path) = plain_call GET ''download_file'' (file_params slug path)"
| "client_http (R_DeleteFile slug path) = plain_call DELETE ''delete_file'' (file_params slug path)"
| "client_http (R_DeleteFolder slug path recursive) =
     (plain_call DELETE ''delete_folder'' (file_params slug path))\<lparr>hc_params := [(lit ''recursive'', flag_text recursive)]\<rparr>"
| "client_http R_ListTokens = plain_call GET ''list_tokens'' []"
| "client_http (R_CreateToken name scope) =
     (plain_call POST ''create_token'' [])\<lparr>hc_json := [(lit ''name'', name), (lit ''scope'', scope_value scope)]\<rparr>"
| "client_http (R_RevokeToken token_id) = plain_call DELETE ''revoke_token'' [(lit ''token_id'', token_id)]"
| "client_http R_TokenSelf = plain_call GET ''token_self'' []"
| "client_http R_ListUsers = plain_call GET ''list_users'' []"
| "client_http (R_CreateUser username password) =
     (plain_call POST ''create_user'' [])\<lparr>hc_json := [(lit ''username'', username), (lit ''password'', password)]\<rparr>"
| "client_http (R_DeleteUser user_id) = plain_call DELETE ''delete_user'' [(lit ''user_id'', user_id)]"
| "client_http (R_ChangePassword current new) =
     (plain_call POST ''change_password'' [])\<lparr>hc_json := [(lit ''current'', current), (lit ''new'', new)]\<rparr>"

text \<open>\<open>_headers\<close>: the authorization and the mark of who sends it.\<close>

definition client_headers :: "ustring option \<Rightarrow> ustring option \<Rightarrow> (ustring \<times> ustring) list" where
  "client_headers via token =
     (case token of None \<Rightarrow> [] | Some t \<Rightarrow> [(lit ''Authorization'', bearer_header t)])
     @ (case via of None \<Rightarrow> [] | Some v \<Rightarrow> if v = [] then [] else [(lit ''X-Paper-Boxing-Via'', v)])"

section \<open>What comes back\<close>

text \<open>
  A status with a body (one of the contract's responses, the contract's error body, or something
  else), no answer at all (\<open>httpx.TransportError\<close>), or any other exception of the library.
\<close>

datatype payload = Reply response | Refusal error_code | Foreign
datatype http_answer = Replied nat payload | Lost | Broken

text \<open>
  \<open>BackendError\<close>, its subclass \<open>BackendUnreachable\<close>, a \<open>ValidationError\<close> or \<open>JSONDecodeError\<close> (the
  client's own request or the answer), and any other exception (the \<open>UnicodeEncodeError\<close> of the
  quoting, or one of the library's).
\<close>

datatype client_error = BackendError nat error_code | BackendUnreachable | Invalid | Unexpected

definition is_success :: "nat \<Rightarrow> bool" where
  "is_success status \<longleftrightarrow> 200 \<le> status \<and> status \<le> 299"

definition error_from :: "nat \<Rightarrow> payload \<Rightarrow> client_error" where
  "error_from status p = (case p of Refusal code \<Rightarrow> BackendError status code | _ \<Rightarrow> BackendError status INTERNAL_ERROR)"

text \<open>Whether an answer is the response model the method validates it against; a method that returns
  nothing does not look at the body.\<close>

fun expects :: "request \<Rightarrow> response \<Rightarrow> bool" where
  "expects (R_Login _ _) r = (case r of LoginResponse _ _ _ \<Rightarrow> True | _ \<Rightarrow> False)"
| "expects R_ListSites r = (case r of SiteList _ \<Rightarrow> True | _ \<Rightarrow> False)"
| "expects (R_GetSite _) r = (case r of SiteResponse _ _ \<Rightarrow> True | _ \<Rightarrow> False)"
| "expects (R_CreateSite _) r = (case r of SiteResponse _ _ \<Rightarrow> True | _ \<Rightarrow> False)"
| "expects (R_ListFiles _ _) r = (case r of Listing _ \<Rightarrow> True | _ \<Rightarrow> False)"
| "expects (R_UploadFile _ _ _ _ _) r = (case r of Uploaded _ _ \<Rightarrow> True | _ \<Rightarrow> False)"
| "expects (R_DownloadFile _ _) r = (case r of Content _ _ _ \<Rightarrow> True | _ \<Rightarrow> False)"
| "expects R_ListTokens r = (case r of TokenList _ \<Rightarrow> True | _ \<Rightarrow> False)"
| "expects (R_CreateToken _ _) r = (case r of TokenCreated _ _ \<Rightarrow> True | _ \<Rightarrow> False)"
| "expects R_TokenSelf r = (case r of TokenSelfResponse _ \<Rightarrow> True | _ \<Rightarrow> False)"
| "expects R_ListUsers r = (case r of UserList _ \<Rightarrow> True | _ \<Rightarrow> False)"
| "expects (R_CreateUser _ _) r = (case r of UserResponse _ _ \<Rightarrow> True | _ \<Rightarrow> False)"
| "expects _ r = True"

fun returns_nothing :: "request \<Rightarrow> bool" where
  "returns_nothing R_Logout = True"
| "returns_nothing (R_DeleteSite _ _) = True"
| "returns_nothing (R_DeleteFile _ _) = True"
| "returns_nothing (R_DeleteFolder _ _ _) = True"
| "returns_nothing (R_RevokeToken _) = True"
| "returns_nothing (R_DeleteUser _) = True"
| "returns_nothing (R_ChangePassword _ _) = True"
| "returns_nothing _ = False"

type_synonym 's exchange = "request \<Rightarrow> http_call \<Rightarrow> (ustring \<times> ustring) list \<Rightarrow> 's \<Rightarrow> http_answer \<times> 's"

text \<open>\<open>_request\<close>: one exchange, and its answer as a response or an error.\<close>

definition client_request ::
  "'s exchange \<Rightarrow> ustring option \<Rightarrow> ustring option \<Rightarrow> request \<Rightarrow> 's \<Rightarrow> (client_error + payload) \<times> 's" where
  "client_request exchange via token rq s =
     (case exchange rq (client_http rq) (client_headers via token) s of
        (Lost, s') \<Rightarrow> (Inl BackendUnreachable, s')
      | (Broken, s') \<Rightarrow> (Inl Unexpected, s')
      | (Replied status p, s') \<Rightarrow> (if is_success status then Inr p else Inl (error_from status p), s'))"

text \<open>
  A method of the client: the request's own model is validated first, then the URL is built, and a
  successful answer is validated against the method's response model.
\<close>

definition client_call ::
  "'s exchange \<Rightarrow> ustring option \<Rightarrow> ustring option \<Rightarrow> request \<Rightarrow> 's \<Rightarrow> (client_error + response) \<times> 's" where
  "client_call exchange via token rq s =
     (if \<not> valid_request rq then (Inl Invalid, s)
      else if hc_path (client_http rq) = None then (Inl Unexpected, s)
      else case client_request exchange via token rq s of
        (Inl e, s') \<Rightarrow> (Inl e, s')
      | (Inr p, s') \<Rightarrow>
          (if returns_nothing rq then Inr NoContent
           else case p of Reply r \<Rightarrow> if expects rq r then Inr r else Inl Invalid | _ \<Rightarrow> Inl Invalid, s'))"

section \<open>The backend at the other end\<close>

fun success_status :: "response \<Rightarrow> nat" where
  "success_status NoContent = 204"
| "success_status (SiteResponse status _) = status"
| "success_status (Uploaded status _) = status"
| "success_status (TokenCreated _ _) = 201"
| "success_status (UserResponse status _) = status"
| "success_status _ = 200"

definition rest_exchange :: "backend \<Rightarrow> moment \<Rightarrow> state exchange" where
  "rest_exchange bk mo rq http headers st =
     (case handle bk mo (map_of headers (lit ''Authorization'')) rq st of
        (Inr r, st') \<Rightarrow> (Replied (success_status r) (Reply r), st')
      | (Inl e, st') \<Rightarrow> (case error_answer e of (status, code) \<Rightarrow> Replied status (Refusal code), st'))"

section \<open>The client and the route table\<close>

lemmas url_simps = build_path_def route_def ROUTES_def API_PREFIX_def file_params_def param_at_def word_char_def
  ascii_alnum_def substitute_def



section \<open>The client and the backend\<close>

text \<open>What each route answers is what its method expects.\<close>

lemma run_route_fits:
  assumes "run_route bk mo actor rq st = (Inr r, st')"
  shows "expects rq r \<and> is_success (success_status r)"
  using assms
  by (cases rq)
    (auto simp: login_route_def logout_route_def list_sites_route_def create_site_route_def get_site_route_def
      delete_site_route_def list_files_route_def upload_file_route_def download_file_route_def
      delete_file_route_def delete_folder_route_def list_tokens_route_def create_token_route_def token_self_route_def
      revoke_token_route_def list_users_route_def create_user_route_def change_password_route_def
      delete_user_route_def Let_def is_success_def
      split: prod.splits sum.splits option.splits if_splits bool.splits what.splits)

lemma handle_fits:
  assumes "handle bk mo h rq st = (Inr r, st')"
  shows "expects rq r \<and> is_success (success_status r)"
proof (cases "\<exists>u p. rq = R_Login u p")
  case True
  then show ?thesis using assms run_route_fits [of bk mo _ rq st r st'] by (auto simp: handle_def split: if_splits)
next
  case False
  then have "\<forall>u p. rq \<noteq> R_Login u p" by blast
  from assms this show ?thesis by (cases rule: handle_cases) (auto dest: run_route_fits)
qed

lemma status_of_error: "\<not> is_success (status_of code)"
  by (cases code) (simp_all add: is_success_def)

lemma handle_fails:
  assumes "handle bk mo h rq st = (Inl e, st')"
  shows "\<not> is_success (fst (error_answer e))"
  using error_answer_paired [OF handle_in_contract [OF assms]] status_of_error by simp

lemma client_header: "map_of (client_headers via token) (lit ''Authorization'') = map_option bearer_header token"
  by (auto simp: client_headers_def split: option.split)

lemma rest_exchange_answer:
  assumes "handle bk mo (map_option bearer_header token) rq st = (r, st')"
  shows "rest_exchange bk mo rq http (client_headers via token) st =
    (case r of
       Inr a \<Rightarrow> Replied (success_status a) (Reply a)
     | Inl e \<Rightarrow> Replied (fst (error_answer e)) (Refusal (snd (error_answer e))), st')"
  unfolding rest_exchange_def client_header assms by (simp split: sum.split prod.split)

lemma client_call_backend:
  assumes "valid_request rq" "hc_path (client_http rq) \<noteq> None" "handle bk mo (map_option bearer_header token) rq st = (r, st')"
  shows "client_call (rest_exchange bk mo) via token rq st =
    (case r of
       Inr a \<Rightarrow> Inr (if returns_nothing rq then NoContent else a)
     | Inl e \<Rightarrow> Inl (BackendError (fst (error_answer e)) (snd (error_answer e))), st')"
proof (cases r)
  case (Inl e)
  have fails: "\<not> is_success (fst (error_answer e))" using handle_fails assms(3) Inl by blast
  show ?thesis
    unfolding client_call_def client_request_def rest_exchange_answer [OF assms(3)] Inl
    using assms(1,2) fails by (simp add: error_from_def del: split_paired_Ex)
next
  case (Inr a)
  have fits: "expects rq a" "is_success (success_status a)" using handle_fits assms(3) Inr by blast+
  show ?thesis
    unfolding client_call_def client_request_def rest_exchange_answer [OF assms(3)] Inr
    using assms(1,2) fits by simp
qed

lemma client_call_cong: "ex1 rq = ex2 rq \<Longrightarrow> client_call ex1 via token rq s = client_call ex2 via token rq s"
  by (simp add: client_call_def client_request_def)

text \<open>The same with a moment for each request of a sequence.\<close>

definition wire :: "backend \<Rightarrow> (request \<Rightarrow> moment) \<Rightarrow> state exchange" where
  "wire bk mos = (\<lambda>rq. rest_exchange bk (mos rq) rq)"

lemma wire_client: "client_call (wire bk mos) via token rq s = client_call (rest_exchange bk (mos rq)) via token rq s"
  by (rule client_call_cong) (simp add: wire_def)

lemma wire_state:
  assumes "client_call (wire bk mos) via (Some bearer) rq s = (r, s')"
  shows "s' = s \<or> (\<exists>x. handle bk (mos rq) (Some (bearer_header bearer)) rq s = (x, s'))"
proof (cases "valid_request rq \<and> hc_path (client_http rq) \<noteq> None")
  case True
  obtain x s1 where h: "handle bk (mos rq) (map_option bearer_header (Some bearer)) rq s = (x, s1)"
    by (metis prod.collapse)
  have "s1 = s'" using assms client_call_backend [OF conjunct1 [OF True] conjunct2 [OF True] h, of via]
    by (simp add: wire_client)
  then show ?thesis using h by auto
next
  case False
  then show ?thesis using assms by (auto simp: client_call_def split: if_splits)
qed


end
