(* ===== verification/Mcp_Gate.thy ===== *)
theory Mcp_Gate
  imports Client
begin

text \<open>
  The gate of the MCP server, \<open>src/paper_boxing/mcp/auth.py\<close>: the checks of \<open>TokenGate.__call__\<close>
  in their order, the confirmation of the bearer with the backend, and what is left on the request
  for the handlers.  The SDK's transport validation is the argument \<open>tg_security\<close>, the status it
  refuses the headers with, if it does; the wire to the backend is the client's \<open>exchange\<close>.  The
  theory shows which requests reach the transport behind the gate.
\<close>

section \<open>Requests\<close>

record confirmed =
  cf_bearer :: ustring
  cf_token :: token_self_out

text \<open>An ASGI scope: its type and method, the headers by their lower-case names, and what its state holds.\<close>

record asgi_scope =
  as_http :: bool
  as_method :: ustring
  as_headers :: "(ustring \<times> ustring) list"
  as_confirmed :: "confirmed option"

record gate =
  tg_security :: "(ustring \<times> ustring) list \<Rightarrow> nat option"
  tg_max_body_bytes :: nat
  tg_lifespan :: bool \<comment> \<open>whether \<open>backend()\<close> returns a client, or raises \<open>RuntimeError\<close>\<close>

datatype gate_error = AuthRefused nat error_code | GateFailed

definition bearer_from :: "(ustring \<times> ustring) list \<Rightarrow> ustring option" where
  "bearer_from headers =
     (let (scheme, value) = partition_on 32 (case map_of headers (lit ''authorization'') of None \<Rightarrow> [] | Some h \<Rightarrow> h) in
      if map ascii_lower scheme \<noteq> lit ''bearer'' \<or> strip is_space value = [] then None
      else Some (strip is_space value))"

section \<open>The confirmation\<close>

text \<open>\<open>confirm\<close>: one question to the backend, nothing remembered.\<close>

definition confirm_bearer :: "'s exchange \<Rightarrow> ustring \<Rightarrow> 's \<Rightarrow> (gate_error + confirmed) \<times> 's" where
  "confirm_bearer exchange bearer s =
     (case client_call exchange (Some (lit ''mcp'')) (Some bearer) R_TokenSelf s of
        (Inl BackendUnreachable, s') \<Rightarrow> (Inl (AuthRefused 503 BACKEND_UNREACHABLE), s')
      | (Inl (BackendError status code), s') \<Rightarrow>
          (Inl (if status = 401 then AuthRefused 401 UNAUTHORIZED else AuthRefused 503 BACKEND_UNREACHABLE), s')
      | (Inl _, s') \<Rightarrow> (Inl (AuthRefused 503 BACKEND_UNREACHABLE), s')
      | (Inr (TokenSelfResponse me), s') \<Rightarrow>
          (if ts_type me \<noteq> AGENT then Inl (AuthRefused 403 WRONG_TOKEN_TYPE)
           else Inr \<lparr>cf_bearer = bearer, cf_token = me\<rparr>, s')
      | (Inr _, s') \<Rightarrow> (Inl GateFailed, s'))"

definition confirmed_from :: "asgi_scope option \<Rightarrow> confirmed option" where
  "confirmed_from request = (case request of None \<Rightarrow> None | Some scope \<Rightarrow> as_confirmed scope)"

section \<open>The gate\<close>

definition check_transport :: "gate \<Rightarrow> asgi_scope \<Rightarrow> gate_error + unit" where
  "check_transport g scope =
     (if as_method scope \<noteq> lit ''POST'' then Inl (AuthRefused 405 METHOD_NOT_ALLOWED)
      else case tg_security g (as_headers scope) of
        None \<Rightarrow> Inr ()
      | Some status \<Rightarrow>
          Inl (if status = 421 then AuthRefused 421 FORBIDDEN
               else if status = 403 then AuthRefused 403 FORBIDDEN
               else AuthRefused status BAD_REQUEST))"

text \<open>
  \<open>str.isdigit\<close> on the characters a header can hold (latin-1), the three superscripts included;
  \<open>int\<close> raises on those, and on more than 4300 digits.
\<close>

definition is_digit :: "nat \<Rightarrow> bool" where
  "is_digit c \<longleftrightarrow> digit c \<or> c = 178 \<or> c = 179 \<or> c = 185"

definition check_declared_length :: "gate \<Rightarrow> asgi_scope \<Rightarrow> gate_error + unit" where
  "check_declared_length g scope =
     (case map_of (as_headers scope) (lit ''content-length'') of
        None \<Rightarrow> Inr ()
      | Some declared \<Rightarrow>
          if declared \<noteq> [] \<and> list_all is_digit declared then
            (case python_int declared of
               None \<Rightarrow> Inl GateFailed
             | Some n \<Rightarrow> if int (tg_max_body_bytes g) < n then Inl (AuthRefused 413 PAYLOAD_TOO_LARGE) else Inr ())
          else Inr ())"

text \<open>What the gate does with a request: answer it itself, or hand the scope on.\<close>

datatype gate_outcome = Answered nat error_code | Passed asgi_scope

definition gate_confirm :: "'s exchange \<Rightarrow> gate \<Rightarrow> asgi_scope \<Rightarrow> 's \<Rightarrow> (gate_error + confirmed) \<times> 's" where
  "gate_confirm exchange g scope s =
     (case check_transport g scope of Inl e \<Rightarrow> (Inl e, s)
      | Inr _ \<Rightarrow> (case check_declared_length g scope of Inl e \<Rightarrow> (Inl e, s)
        | Inr _ \<Rightarrow> (case bearer_from (as_headers scope) of None \<Rightarrow> (Inl (AuthRefused 401 UNAUTHORIZED), s)
          | Some bearer \<Rightarrow>
              if tg_lifespan g then confirm_bearer exchange bearer s else (Inl GateFailed, s))))"

definition gate_call :: "'s exchange \<Rightarrow> gate \<Rightarrow> asgi_scope \<Rightarrow> 's \<Rightarrow> gate_outcome \<times> 's" where
  "gate_call exchange g scope s =
     (if \<not> as_http scope then (Passed scope, s)
      else case gate_confirm exchange g scope s of
        (Inl (AuthRefused status code), s') \<Rightarrow> (Answered status code, s')
      | (Inl GateFailed, s') \<Rightarrow> (Answered 503 BACKEND_UNREACHABLE, s')
      | (Inr c, s') \<Rightarrow> (Passed (scope\<lparr>as_confirmed := Some c\<rparr>), s'))"

section \<open>Who gets through\<close>

lemma token_self_path: "valid_request R_TokenSelf" "hc_path (client_http R_TokenSelf) \<noteq> None"
  by (simp_all add: url_simps)

lemma confirm_over_backend:
  assumes "confirm_bearer (rest_exchange bk mo) bearer st = (Inr c, st')"
  obtains me where "handle bk mo (Some (bearer_header bearer)) R_TokenSelf st = (Inr (TokenSelfResponse me), st')"
    "ts_type me = AGENT" "c = \<lparr>cf_bearer = bearer, cf_token = me\<rparr>"
proof -
  obtain r st1 where h: "handle bk mo (Some (bearer_header bearer)) R_TokenSelf st = (r, st1)"
    by (metis prod.collapse)
  then have "handle bk mo (map_option bearer_header (Some bearer)) R_TokenSelf st = (r, st1)" by simp
  note client = client_call_backend [OF token_self_path this]
  show ?thesis
    using assms h that unfolding confirm_bearer_def client
    by (auto split: sum.splits client_error.splits response.splits if_splits)
qed

lemma token_self_caller:
  assumes "accounts_ok (st_db st)" "handle bk mo h R_TokenSelf st = (Inr (TokenSelfResponse me), st')" "ts_type me = AGENT"
  shows "\<exists>owner. caller (bk_accounts bk) (mo_auth_now mo) h (st_db st) = Some (AGENT, ts_scope me, owner)"
    and "st_sites st' = st_sites st \<and> db_users (st_db st') = db_users (st_db st)"
    and "mo_auth_now mo \<le> now \<Longrightarrow> grants now (st_db st') d = grants now (st_db st) d"
proof -
  obtain actor db' where a: "requires bk (mo_auth_now mo) h (access_of R_TokenSelf) (st_db st) = (Inr actor, db')"
      "me = token_self actor" "st' = st\<lparr>st_db := db'\<rparr>"
    using assms(2) by (rule handle_cases) (auto simp: token_self_route_def)
  have c: "caller (bk_accounts bk) (mo_auth_now mo) h (st_db st) = Some (AGENT, ts_scope me, t_user_id (a_token actor))"
    using requires_caller(1) [OF assms(1) a(1)] a(2) assms(3) by (simp add: grant_of_def token_self_def)
  then show "\<exists>owner. caller (bk_accounts bk) (mo_auth_now mo) h (st_db st) = Some (AGENT, ts_scope me, owner)" by blast
  show "st_sites st' = st_sites st \<and> db_users (st_db st') = db_users (st_db st)"
    using a(3) requires_frame(1) [OF a(1)] by simp
  show "grants now (st_db st') d = grants now (st_db st) d" if "mo_auth_now mo \<le> now"
    using requires_agent_grants [OF assms(1) a(1) that] c a(3) by simp
qed

lemma gate_passed:
  assumes "gate_call exchange g scope s = (Passed scope', s')" "as_http scope"
  obtains bearer c where "as_method scope = lit ''POST''" "tg_security g (as_headers scope) = None"
    "bearer_from (as_headers scope) = Some bearer" "confirm_bearer exchange bearer s = (Inr c, s')"
    "scope' = scope\<lparr>as_confirmed := Some c\<rparr>"
  using assms
  by (auto simp: gate_call_def gate_confirm_def check_transport_def
      split: prod.splits sum.splits gate_error.splits option.splits if_splits)

text \<open>
  C15. No token passthrough: with the backend behind the client, an HTTP request reaches the MCP
  transport only if it is a POST that the transport's own validation accepts and carries a bearer
  which the backend grants, at that moment, as an agent token; what is left for the handlers is that
  very bearer with the scope the backend gives it.  The confirmation itself changes no file and no
  account and prolongs or shortens nobody's access.
\<close>

theorem gate_admits_agents_only:
  assumes "accounts_ok (st_db st)" "gate_call (rest_exchange bk mo) g scope st = (Passed scope', st')" "as_http scope"
  shows "as_method scope = lit ''POST'' \<and> tg_security g (as_headers scope) = None
    \<and> (\<exists>bearer me owner. bearer_from (as_headers scope) = Some bearer
         \<and> confirmed_from (Some scope') = Some \<lparr>cf_bearer = bearer, cf_token = me\<rparr>
         \<and> caller (bk_accounts bk) (mo_auth_now mo) (Some (bearer_header bearer)) (st_db st) = Some (AGENT, ts_scope me, owner))
    \<and> st_sites st' = st_sites st \<and> db_users (st_db st') = db_users (st_db st)
    \<and> (\<forall>now d. mo_auth_now mo \<le> now \<longrightarrow> grants now (st_db st') d = grants now (st_db st) d)"
proof -
  obtain bearer c where p: "as_method scope = lit ''POST''" "tg_security g (as_headers scope) = None"
      "bearer_from (as_headers scope) = Some bearer" "confirm_bearer (rest_exchange bk mo) bearer st = (Inr c, st')"
      "scope' = scope\<lparr>as_confirmed := Some c\<rparr>"
    using assms(2,3) by (rule gate_passed)
  obtain me where me: "handle bk mo (Some (bearer_header bearer)) R_TokenSelf st = (Inr (TokenSelfResponse me), st')"
      "ts_type me = AGENT" "c = \<lparr>cf_bearer = bearer, cf_token = me\<rparr>"
    using p(4) by (rule confirm_over_backend)
  note t = token_self_caller [OF assms(1) me(1,2)]
  from t(1) obtain owner where
    "caller (bk_accounts bk) (mo_auth_now mo) (Some (bearer_header bearer)) (st_db st) = Some (AGENT, ts_scope me, owner)" ..
  moreover have "confirmed_from (Some scope') = Some \<lparr>cf_bearer = bearer, cf_token = me\<rparr>"
    using p(5) me(3) by (simp add: confirmed_from_def)
  ultimately show ?thesis using p(1,2,3) t(2,3) by blast
qed

end
