(* ===== verification/Base64.thy ===== *)
theory Base64
  imports Prelude
begin

text \<open>
  The base64 functions of the Python standard library that the MCP tools use: \<open>b64encode\<close>, the
  line-wrapped \<open>encodebytes\<close>, and \<open>b64decode\<close> with \<open>validate=True\<close>, whose loop (\<open>a2b\<close>) keeps the
  position in the current group of four, the bits left over, the padding seen and whether padding has
  begun; as documented, padding beyond the group is refused.  The theory shows the round trip, also
  through whitespace, and the exact lengths.
\<close>

section \<open>Encoding\<close>

definition b64_char :: "nat \<Rightarrow> nat" where
  "b64_char v =
     (if v < 26 then 65 + v else if v < 52 then 97 + (v - 26) else if v < 62 then 48 + (v - 52)
      else if v = 62 then 43 else 47)"

definition sextet :: "nat \<Rightarrow> nat option" where
  "sextet c =
     (if 65 \<le> c \<and> c \<le> 90 then Some (c - 65)
      else if 97 \<le> c \<and> c \<le> 122 then Some (c - 97 + 26)
      else if 48 \<le> c \<and> c \<le> 57 then Some (c - 48 + 52)
      else if c = 43 then Some 62 else if c = 47 then Some 63 else None)"

fun b64encode :: "octets \<Rightarrow> ustring" where
  "b64encode [] = []"
| "b64encode [a] = [b64_char (a div 4), b64_char (a mod 4 * 16), 61, 61]"
| "b64encode [a, b] = [b64_char (a div 4), b64_char (a mod 4 * 16 + b div 16), b64_char (b mod 16 * 4), 61]"
| "b64encode (a # b # c # rest) =
     b64_char (a div 4) # b64_char (a mod 4 * 16 + b div 16) # b64_char (b mod 16 * 4 + c div 64)
       # b64_char (c mod 64) # b64encode rest"

text \<open>\<open>encodebytes\<close>: 57 bytes, 76 characters, to the line, each line ended.\<close>

function encodebytes :: "octets \<Rightarrow> ustring" where
  "encodebytes s = (if s = [] then [] else b64encode (take 57 s) @ 10 # encodebytes (drop 57 s))"
  by pat_completeness auto
termination by (relation "measure length") auto

declare encodebytes.simps [simp del]

section \<open>Decoding\<close>

fun a2b :: "nat \<Rightarrow> nat \<Rightarrow> nat \<Rightarrow> bool \<Rightarrow> ustring \<Rightarrow> octets option" where
  "a2b quad left pads started [] = (if quad = 0 then Some [] else None)"
| "a2b quad left pads started (c # cs) =
     (if c = 61 then
        if quad = 0 then None
        else if 2 \<le> quad \<and> 4 \<le> quad + pads + 1 then (if cs = [] then Some [] else None)
        else a2b quad left (if 2 \<le> quad then pads + 1 else pads) True cs
      else case sextet c of None \<Rightarrow> None
        | Some v \<Rightarrow>
            if started then None
            else if quad = 0 then a2b 1 v 0 False cs
            else if quad = 1 then map_option (Cons (left * 4 + v div 16)) (a2b 2 (v mod 16) 0 False cs)
            else if quad = 2 then map_option (Cons (left * 16 + v div 4)) (a2b 3 (v mod 4) 0 False cs)
            else map_option (Cons (left * 64 + v)) (a2b 0 0 0 False cs))"

definition b64decode :: "ustring \<Rightarrow> octets option" where
  "b64decode s = a2b 0 0 0 False s"

section \<open>Round trip\<close>

lemma sextet_char: "v < 64 \<Longrightarrow> sextet (b64_char v) = Some v"
  by (auto simp: sextet_def b64_char_def)

lemma b64_char_range: "b64_char v \<noteq> 61" "\<not> is_space (b64_char v)" "32 < b64_char v" "b64_char v \<noteq> 34" "b64_char v \<noteq> 92"
  by (auto simp: b64_char_def is_space_def)

lemma a2b_char:
  assumes "v < 64"
  shows "a2b 0 l p False (b64_char v # cs) = a2b (Suc 0) v 0 False cs"
    "a2b (Suc 0) l p False (b64_char v # cs) = map_option (Cons (l * 4 + v div 16)) (a2b 2 (v mod 16) 0 False cs)"
    "a2b 2 l p False (b64_char v # cs) = map_option (Cons (l * 16 + v div 4)) (a2b 3 (v mod 4) 0 False cs)"
    "a2b 3 l p False (b64_char v # cs) = map_option (Cons (l * 64 + v)) (a2b 0 0 0 False cs)"
  by (simp_all add: sextet_char [OF assms] b64_char_range)

lemma a2b_end: "a2b 2 l 0 False [61, 61] = Some []" "a2b 3 l p False [61] = Some []"
  by simp_all

text \<open>One group of four characters, whole or padded.\<close>

lemma a2b_group:
  assumes "u < 64" "v < 64"
  shows "a2b 0 l p False [b64_char u, b64_char v, 61, 61] = Some [u * 4 + v div 16]"
    "w < 64 \<Longrightarrow> a2b 0 l p False [b64_char u, b64_char v, b64_char w, 61] = Some [u * 4 + v div 16, v mod 16 * 16 + w div 4]"
    "w < 64 \<Longrightarrow> x < 64 \<Longrightarrow> a2b 0 l p False (b64_char u # b64_char v # b64_char w # b64_char x # cs) =
      map_option (\<lambda>r. (u * 4 + v div 16) # (v mod 16 * 16 + w div 4) # (w mod 4 * 64 + x) # r) (a2b 0 0 0 False cs)"
  by (simp_all only: a2b_char assms a2b_end option.map option.map_comp o_def)

lemma b64_join:
  assumes "(a::nat) < 256" "(b::nat) < 256" "(c::nat) < 256"
  shows "a div 4 < 64" "a mod 4 * 16 < 64" "a mod 4 * 16 + b div 16 < 64" "b mod 16 * 4 < 64"
    "b mod 16 * 4 + c div 64 < 64" "c mod 64 < 64"
    "a div 4 * 4 + a mod 4 * 16 div 16 = a"
    "a div 4 * 4 + (a mod 4 * 16 + b div 16) div 16 = a"
    "(a mod 4 * 16 + b div 16) mod 16 * 16 + b mod 16 * 4 div 4 = b"
    "(a mod 4 * 16 + b div 16) mod 16 * 16 + (b mod 16 * 4 + c div 64) div 4 = b"
    "(b mod 16 * 4 + c div 64) mod 4 * 64 + c mod 64 = c"
proof -
  have s: "b div 16 < 16" "c div 64 < 4" using assms by simp_all
  then have m: "(a mod 4 * 16 + b div 16) mod 16 = b div 16" "(b mod 16 * 4 + c div 64) mod 4 = c div 64"
    "(a mod 4 * 16 + b div 16) div 16 = a mod 4" "(b mod 16 * 4 + c div 64) div 4 = b mod 16" by simp_all
  show "a div 4 < 64" using assms by simp
  have r: "a mod 4 < 4" "b mod 16 < 16" by simp_all
  show "a mod 4 * 16 < 64" "b mod 16 * 4 < 64" "c mod 64 < 64" using r by simp_all
  show "a mod 4 * 16 + b div 16 < 64" "b mod 16 * 4 + c div 64 < 64" using r s by linarith+
  show "a div 4 * 4 + a mod 4 * 16 div 16 = a" by simp
  show "a div 4 * 4 + (a mod 4 * 16 + b div 16) div 16 = a" unfolding m by simp
  show "(a mod 4 * 16 + b div 16) mod 16 * 16 + b mod 16 * 4 div 4 = b" unfolding m by simp
  show "(a mod 4 * 16 + b div 16) mod 16 * 16 + (b mod 16 * 4 + c div 64) div 4 = b" unfolding m by simp
  show "(b mod 16 * 4 + c div 64) mod 4 * 64 + c mod 64 = c" unfolding m by simp
qed

lemma decode_encode: "\<forall>x\<in>set s. x < 256 \<Longrightarrow> a2b 0 l p False (b64encode s) = Some s"
proof (induction s arbitrary: l p rule: b64encode.induct)
  case (2 a)
  then have "a < 256" by simp
  note j = b64_join [OF this this this]
  show ?case unfolding b64encode.simps a2b_group [OF j(1,2)] j ..
next
  case (3 a b)
  then have "a < 256" "b < 256" by simp_all
  note j = b64_join [OF this this(2)]
  show ?case unfolding b64encode.simps a2b_group(2) [OF j(1,3,4)] j ..
next
  case (4 a b c rest)
  then have "a < 256" "b < 256" "c < 256" by simp_all
  note j = b64_join [OF this]
  have r: "a2b 0 0 0 False (b64encode rest) = Some rest" using 4 by simp
  show ?case unfolding b64encode.simps a2b_group(3) [OF j(1,3,5,6)] r j by simp
qed simp

section \<open>Lines\<close>

lemma b64encode_chars: "c \<in> set (b64encode s) \<Longrightarrow> \<not> is_space c \<and> c \<noteq> 34 \<and> c \<noteq> 92 \<and> 32 < c"
proof -
  assume "c \<in> set (b64encode s)"
  then have "c = 61 \<or> (\<exists>v. c = b64_char v)" by (induction s rule: b64encode.induct) auto
  moreover have "\<not> is_space 61" by (simp add: is_space_def)
  ultimately show ?thesis using b64_char_range by auto
qed

lemma b64encode_append: "3 dvd length s \<Longrightarrow> b64encode (s @ t) = b64encode s @ b64encode t"
proof (induction s rule: b64encode.induct)
  case (4 a b c rest)
  then have "3 dvd length rest" by simp presburger
  with 4 show ?case by simp
qed (simp_all, presburger)

lemma filter_chars: "filter (\<lambda>c. \<not> is_space c) (b64encode s) = b64encode s"
  using b64encode_chars by (simp add: filter_id_conv)

text \<open>Without its line breaks the wrapped text is the plain one.\<close>

lemma encodebytes_compact: "filter (\<lambda>c. \<not> is_space c) (encodebytes s) = b64encode s"
proof (induction s rule: encodebytes.induct)
  case (1 s)
  show ?case
  proof (cases "s = []")
    case False
    have "b64encode s = b64encode (take 57 s) @ b64encode (drop 57 s)"
    proof (cases "57 \<le> length s")
      case True
      then have "3 dvd length (take 57 s)" by simp
      from b64encode_append [OF this, of "drop 57 s"] show ?thesis by simp
    qed simp
    then show ?thesis
      using 1 False by (subst encodebytes.simps) (simp add: filter_chars, simp add: is_space_def)
  qed (simp add: encodebytes.simps)
qed

section \<open>Lengths\<close>

lemma b64encode_length: "length (b64encode s) = 4 * ((length s + 2) div 3)"
proof (induction s rule: b64encode.induct)
  case (4 a b c rest)
  have "(length (a # b # c # rest) + 2) div 3 = (length rest + 2) div 3 + 1" by simp
  then show ?case unfolding b64encode.simps length_Cons [of "b64_char _"] 4 by simp
qed simp_all

text \<open>The bytes an ASCII string takes inside a JSON string: a quote, a backslash and a line break take two.\<close>

definition json_width :: "ustring \<Rightarrow> nat" where
  "json_width s = (\<Sum>c\<leftarrow>s. if c = 10 \<or> c = 34 \<or> c = 92 then 2 else 1)"

lemma json_width_append [simp]: "json_width (s @ t) = json_width s + json_width t"
  by (simp add: json_width_def)

lemma json_width_plain: "\<forall>c\<in>set s. c \<noteq> 10 \<and> c \<noteq> 34 \<and> c \<noteq> 92 \<Longrightarrow> json_width s = length s"
  by (induction s) (auto simp: json_width_def)

lemma json_width_b64: "json_width (b64encode s) = length (b64encode s)"
  by (rule json_width_plain) (use b64encode_chars in fastforce)

lemma lines_step:
  fixes n :: nat
  assumes "0 < n"
  shows "4 * ((n + 2) div 3) + 2 * ((4 * ((n + 2) div 3) + 75) div 76) =
    4 * ((min n 57 + 2) div 3) + 2 + (4 * ((n - 57 + 2) div 3) + 2 * ((4 * ((n - 57 + 2) div 3) + 75) div 76))"
proof (cases "n \<le> 57")
  case True
  then have "1 \<le> (n + 2) div 3" "(n + 2) div 3 \<le> 19"
    using assms div_le_mono [of 3 "n + 2" 3] div_le_mono [of "n + 2" 59 3] by simp_all
  then have "(4 * ((n + 2) div 3) + 75) div 76 = 1" by (intro div_nat_eqI) simp_all
  then show ?thesis using True by simp
next
  case False
  then obtain k where k: "n = k + 57" by (metis le_add_diff_inverse2 nat_le_linear)
  have a: "(k + 57 + 2) div 3 = (k + 2) div 3 + 19" by presburger
  have "(4 * ((k + 2) div 3 + 19) + 75) div 76 = (4 * ((k + 2) div 3) + 75) div 76 + 1"
    by (simp add: algebra_simps)
  then show ?thesis using k a by simp
qed

lemma encodebytes_json:
  "json_width (encodebytes s) = 4 * ((length s + 2) div 3) + 2 * ((4 * ((length s + 2) div 3) + 75) div 76)"
proof (induction s rule: encodebytes.induct)
  case (1 s)
  show ?case
  proof (cases "s = []")
    case False
    have "json_width (encodebytes s) = json_width (b64encode (take 57 s)) + 2 + json_width (encodebytes (drop 57 s))"
      using False by (subst encodebytes.simps) (simp add: json_width_def)
    then show ?thesis
      using 1 [OF False] lines_step [of "length s"] False
      by (simp add: json_width_b64 b64encode_length min.commute)
  qed (simp add: encodebytes.simps json_width_def)
qed

end
