(* ===== verification/Config.thy ===== *)
theory Config
  imports Codecs
begin

text \<open>
  The configuration: the environment helpers of \<open>src/paper_boxing/common/config.py\<close> and the
  \<open>load_config\<close> of the three services (\<open>backend/config.py\<close>, \<open>mcp/config.py\<close>, \<open>frontend/config.py\<close>).
  The environment is a map from names to values; \<open>Path(...).expanduser().resolve()\<close> is the argument
  \<open>resolve_path\<close>.  A value that cannot be used is \<open>ConfigError\<close>, Python's \<open>ValueError\<close>.
\<close>

type_synonym environ = "string \<Rightarrow> ustring option"

datatype config_error = ConfigError string

section \<open>Helpers\<close>

definition DEFAULT_HOST :: ustring where "DEFAULT_HOST = lit ''127.0.0.1''"
definition FRONTEND_PORT :: int where "FRONTEND_PORT = 35840"
definition MCP_PORT :: int where "MCP_PORT = 35842"
definition BACKEND_PORT :: int where "BACKEND_PORT = 35843"
definition DEFAULT_PUBLIC_SITES_URL :: ustring where "DEFAULT_PUBLIC_SITES_URL = lit ''http://127.0.0.1:35841''"
definition DEFAULT_BACKEND_URL :: ustring where "DEFAULT_BACKEND_URL = lit ''http://127.0.0.1:35843''"

abbreviation trim :: "ustring \<Rightarrow> ustring" where "trim \<equiv> strip is_space"

definition optional_env :: "environ \<Rightarrow> string \<Rightarrow> ustring option" where
  "optional_env env name =
     (case env name of None \<Rightarrow> None | Some raw \<Rightarrow> if trim raw = [] then None else Some (trim raw))"

definition str_env :: "environ \<Rightarrow> string \<Rightarrow> ustring \<Rightarrow> ustring" where
  "str_env env name d =
     (case env name of None \<Rightarrow> d | Some raw \<Rightarrow> if trim raw = [] then d else trim raw)"

definition int_env :: "environ \<Rightarrow> string \<Rightarrow> int \<Rightarrow> config_error + int" where
  "int_env env name d =
     (case env name of None \<Rightarrow> Inr d
      | Some raw \<Rightarrow>
          if trim raw = [] then Inr d
          else (case python_int (trim raw) of None \<Rightarrow> Inl (ConfigError name) | Some n \<Rightarrow> Inr n))"

definition bool_env :: "environ \<Rightarrow> string \<Rightarrow> bool \<Rightarrow> config_error + bool" where
  "bool_env env name d =
     (case env name of None \<Rightarrow> Inr d
      | Some raw \<Rightarrow>
          let value = map ascii_lower (trim raw) in
          if trim raw = [] then Inr d
          else if value \<in> {lit ''1'', lit ''true'', lit ''yes'', lit ''on''} then Inr True
          else if value \<in> {lit ''0'', lit ''false'', lit ''no'', lit ''off''} then Inr False
          else Inl (ConfigError name))"

definition csv_env :: "environ \<Rightarrow> string \<Rightarrow> ustring list" where
  "csv_env env name =
     (let raw = (case env name of None \<Rightarrow> [] | Some raw \<Rightarrow> raw) in
      map trim (filter (\<lambda>item. trim item \<noteq> []) (split_on 44 raw)))"

definition url_env :: "environ \<Rightarrow> string \<Rightarrow> ustring \<Rightarrow> ustring" where
  "url_env env name d = rstrip (\<lambda>c. c = slash) (str_env env name d)"

section \<open>The backend\<close>

record 'p backend_config =
  bc_host :: ustring
  bc_port :: int
  bc_data_dir :: 'p
  bc_public_sites_url :: ustring
  bc_admin_username :: "ustring option"
  bc_admin_password :: "ustring option"
  bc_max_upload_mb :: int
  bc_session_days :: int

text \<open>\<open>__post_init__\<close>.\<close>

definition checked_config :: "'p backend_config \<Rightarrow> config_error + 'p backend_config" where
  "checked_config cf =
     (if bc_max_upload_mb cf < 1 then Inl (ConfigError ''PAPER_BOXING_MAX_UPLOAD_MB'')
      else if bc_session_days cf < 1 then Inl (ConfigError ''PAPER_BOXING_SESSION_DAYS'')
      else Inr cf)"

definition max_upload_bytes :: "'p backend_config \<Rightarrow> int" where
  "max_upload_bytes cf = bc_max_upload_mb cf * 1024 * 1024"

text \<open>The arguments are evaluated in the order of the call, so the first bad variable is the one named.\<close>

definition load_backend_config :: "(ustring \<Rightarrow> 'p) \<Rightarrow> environ \<Rightarrow> config_error + 'p backend_config" where
  "load_backend_config resolve_path env =
     (case int_env env ''PORT'' BACKEND_PORT of Inl e \<Rightarrow> Inl e
      | Inr port \<Rightarrow> (case int_env env ''PAPER_BOXING_MAX_UPLOAD_MB'' 200 of Inl e \<Rightarrow> Inl e
        | Inr max_upload_mb \<Rightarrow> (case int_env env ''PAPER_BOXING_SESSION_DAYS'' 14 of Inl e \<Rightarrow> Inl e
          | Inr session_days \<Rightarrow>
              checked_config
                \<lparr>bc_host = str_env env ''HOST'' DEFAULT_HOST, bc_port = port,
                 bc_data_dir = resolve_path (str_env env ''PAPER_BOXING_DATA_DIR'' (lit ''./data'')),
                 bc_public_sites_url = url_env env ''PAPER_BOXING_PUBLIC_SITES_URL'' DEFAULT_PUBLIC_SITES_URL,
                 bc_admin_username = optional_env env ''PAPER_BOXING_ADMIN_USERNAME'',
                 bc_admin_password = optional_env env ''PAPER_BOXING_ADMIN_PASSWORD'',
                 bc_max_upload_mb = max_upload_mb, bc_session_days = session_days\<rparr>)))"

section \<open>The MCP server\<close>

record mcp_config =
  mc_host :: ustring
  mc_port :: int
  mc_backend_url :: ustring
  mc_public_sites_url :: ustring
  mc_max_file_mb :: int
  mc_enable_transport_security :: bool
  mc_allowed_hosts :: "ustring list"
  mc_allowed_origins :: "ustring list"

definition mcp_max_file_bytes :: "mcp_config \<Rightarrow> int" where
  "mcp_max_file_bytes cf = mc_max_file_mb cf * 1024 * 1024"

definition default_allowed_hosts :: "ustring list" where
  "default_allowed_hosts =
     [lit ''localhost'', lit ''127.0.0.1'', lit ''[::1]'', lit ''localhost:*'', lit ''127.0.0.1:*'', lit ''[::1]:*'']"

text \<open>\<open>str\<close> of an integer.\<close>

fun nat_text :: "nat \<Rightarrow> ustring" where
  "nat_text n = (if n < 10 then [48 + n] else nat_text (n div 10) @ [48 + n mod 10])"

declare nat_text.simps [simp del]

definition int_text :: "int \<Rightarrow> ustring" where
  "int_text n = (if n < 0 then hyphen # nat_text (nat (- n)) else nat_text (nat n))"

definition default_allowed_origins :: "int \<Rightarrow> ustring list" where
  "default_allowed_origins port =
     [lit ''http://localhost:'' @ int_text port, lit ''http://127.0.0.1:'' @ int_text port,
      lit ''http://localhost'', lit ''http://127.0.0.1'']"

definition list_or :: "'a list \<Rightarrow> 'a list \<Rightarrow> 'a list" where
  "list_or xs d = (if xs = [] then d else xs)"

definition load_mcp_config :: "environ \<Rightarrow> config_error + mcp_config" where
  "load_mcp_config env =
     (case int_env env ''PORT'' MCP_PORT of Inl e \<Rightarrow> Inl e
      | Inr port \<Rightarrow> (case int_env env ''PAPER_BOXING_MCP_MAX_FILE_MB'' 8 of Inl e \<Rightarrow> Inl e
        | Inr max_file_mb \<Rightarrow> (case bool_env env ''PAPER_BOXING_MCP_ENABLE_TRANSPORT_SECURITY'' True of Inl e \<Rightarrow> Inl e
          | Inr security \<Rightarrow>
              Inr \<lparr>mc_host = str_env env ''HOST'' DEFAULT_HOST, mc_port = port,
                mc_backend_url = url_env env ''PAPER_BOXING_BACKEND_URL'' DEFAULT_BACKEND_URL,
                mc_public_sites_url = url_env env ''PAPER_BOXING_PUBLIC_SITES_URL'' DEFAULT_PUBLIC_SITES_URL,
                mc_max_file_mb = max_file_mb, mc_enable_transport_security = security,
                mc_allowed_hosts = list_or (csv_env env ''PAPER_BOXING_MCP_ALLOWED_HOSTS'') default_allowed_hosts,
                mc_allowed_origins =
                  list_or (csv_env env ''PAPER_BOXING_MCP_ALLOWED_ORIGINS'') (default_allowed_origins port)\<rparr>)))"

section \<open>The frontend\<close>

record frontend_config =
  fc_host :: ustring
  fc_port :: int
  fc_backend_url :: ustring
  fc_public_sites_url :: ustring
  fc_storage_secret :: "ustring option"

definition load_frontend_config :: "environ \<Rightarrow> config_error + frontend_config" where
  "load_frontend_config env =
     (case int_env env ''PORT'' FRONTEND_PORT of Inl e \<Rightarrow> Inl e
      | Inr port \<Rightarrow>
          Inr \<lparr>fc_host = str_env env ''HOST'' DEFAULT_HOST, fc_port = port,
            fc_backend_url = url_env env ''PAPER_BOXING_BACKEND_URL'' DEFAULT_BACKEND_URL,
            fc_public_sites_url = url_env env ''PAPER_BOXING_PUBLIC_SITES_URL'' DEFAULT_PUBLIC_SITES_URL,
            fc_storage_secret = optional_env env ''PAPER_BOXING_STORAGE_SECRET''\<rparr>)"

section \<open>What a loaded configuration is\<close>

lemma rstrip_end: "rstrip P s = [] \<or> \<not> P (last (rstrip P s))"
  using rstrip_last by blast

lemma url_env_end: "url_env env name d = [] \<or> last (url_env env name d) \<noteq> slash"
  using rstrip_end [of "\<lambda>c. c = slash" "str_env env name d"] by (auto simp: url_env_def)

lemma optional_env_proper: "optional_env env name = Some s \<Longrightarrow> s \<noteq> [] \<and> trim s = s"
  by (auto simp: optional_env_def split: option.splits if_splits)

lemma optional_env_not_blank: "optional_env env name \<noteq> Some []"
  using optional_env_proper by blast

lemma csv_env_items: "x \<in> set (csv_env env name) \<Longrightarrow> x \<noteq> [] \<and> trim x = x"
  by (auto simp: csv_env_def)

lemma csv_env_comma: "x \<in> set (csv_env env name) \<Longrightarrow> 44 \<notin> set x"
  using set_strip split_no_sep unfolding csv_env_def by fastforce

lemma nat_text_nonempty: "nat_text n \<noteq> []"
  by (subst nat_text.simps) simp

lemma backend_config_limits:
  assumes "load_backend_config resolve_path env = Inr cf"
  shows "1024 * 1024 \<le> max_upload_bytes cf" "1 \<le> bc_session_days cf"
  using assms by (auto simp: load_backend_config_def checked_config_def max_upload_bytes_def split: sum.splits if_splits)

text \<open>
  C34. A backend that starts has limits it can run under: from whatever environment, a
  configuration that loads has an upload limit of at least one MiB and sessions of at least a day,
  a public URL to which a slash and a path can be appended, and admin values that are either unset
  or not blank; a variable that is unset or blank counts as its default.
\<close>

theorem backend_config_usable:
  assumes "load_backend_config resolve_path env = Inr cf"
  shows "1024 * 1024 \<le> max_upload_bytes cf \<and> 1 \<le> bc_session_days cf
    \<and> (bc_public_sites_url cf = [] \<or> last (bc_public_sites_url cf) \<noteq> slash)
    \<and> bc_admin_username cf \<noteq> Some [] \<and> bc_admin_password cf \<noteq> Some []
    \<and> (\<forall>name raw. env name = Some raw \<and> trim raw = [] \<longrightarrow> load_backend_config resolve_path (env(name := None)) = Inr cf)"
proof -
  have blank: "load_backend_config resolve_path (env(name := None)) = Inr cf" if "env name = Some raw" "trim raw = []" for name raw
  proof -
    have "str_env (env(name := None)) x d = str_env env x d" "optional_env (env(name := None)) x = optional_env env x"
      "int_env (env(name := None)) x i = int_env env x i" "url_env (env(name := None)) x d = url_env env x d" for x d i
      using that by (auto simp: str_env_def optional_env_def int_env_def url_env_def)
    then have "load_backend_config resolve_path (env(name := None)) = load_backend_config resolve_path env"
      unfolding load_backend_config_def by (simp only:)
    then show ?thesis using assms by simp
  qed
  have f: "bc_public_sites_url cf = url_env env ''PAPER_BOXING_PUBLIC_SITES_URL'' DEFAULT_PUBLIC_SITES_URL"
      "bc_admin_username cf = optional_env env ''PAPER_BOXING_ADMIN_USERNAME''"
      "bc_admin_password cf = optional_env env ''PAPER_BOXING_ADMIN_PASSWORD''"
    using assms by (auto simp: load_backend_config_def checked_config_def split: sum.splits if_splits)
  show ?thesis
    using backend_config_limits [OF assms] f url_env_end optional_env_not_blank blank by auto
qed

theorem backend_config_usable_witness:
  "1024 * 1024 \<le> max_upload_bytes (\<lparr>bc_host = lit ''127.0.0.1'', bc_port = 35843, bc_data_dir = lit ''/d'',
     bc_public_sites_url = lit ''http://h'', bc_admin_username = None, bc_admin_password = None,
     bc_max_upload_mb = 3, bc_session_days = 14\<rparr> :: ustring backend_config)"
proof -
  let ?env = "\<lambda>name. if name = ''PAPER_BOXING_MAX_UPLOAD_MB'' then Some (lit '' 3 '')
    else if name = ''PAPER_BOXING_PUBLIC_SITES_URL'' then Some (lit ''http://h//'') else None"
  have "load_backend_config (\<lambda>_. lit ''/d'') ?env =
      Inr \<lparr>bc_host = lit ''127.0.0.1'', bc_port = 35843, bc_data_dir = lit ''/d'',
        bc_public_sites_url = lit ''http://h'', bc_admin_username = None, bc_admin_password = None,
        bc_max_upload_mb = 3, bc_session_days = 14\<rparr>"
    by code_simp
  from backend_config_usable [OF this] show ?thesis by blast
qed

end
