(* ===== verification/Mcp_Tools.thy ===== *)
theory Mcp_Tools
  imports Mcp_Gate Base64 Config
begin

text \<open>
  The tools of the MCP server: \<open>src/paper_boxing/mcp/tools.py\<close> with the input models of
  \<open>src/paper_boxing/mcp/schema.py\<close> and the handlers of \<open>src/paper_boxing/mcp/server.py\<close>.  A tool's arguments
  are the JSON object of the call; a handler talks to the backend through the client's \<open>exchange\<close>.  Message
  texts, the titles and descriptions and the JSON schemas published are not modelled.  The theory shows
  that a tool only makes requests the token's scope allows, and what the size limits leave room for.
\<close>

section \<open>Arguments\<close>

datatype json_value = JStr ustring | JBool bool | JOther

type_synonym arguments = "(ustring \<times> json_value) list"

datatype tool_call =
    T_ListSites
  | T_CreateSite ustring
  | T_ListFiles ustring ustring
  | T_UploadFile ustring ustring ustring bool
  | T_DownloadFile ustring ustring
  | T_DeleteFile ustring ustring
  | T_DeleteFolder ustring ustring bool
  | T_DeleteSite ustring ustring

text \<open>Strict validation: the types as they are, and no field the model does not have.\<close>

definition only_fields :: "string list \<Rightarrow> arguments \<Rightarrow> bool" where
  "only_fields names args \<longleftrightarrow> list_all (\<lambda>(k, v). k \<in> lit ` set names) args"

definition str_arg :: "arguments \<Rightarrow> string \<Rightarrow> ustring option" where
  "str_arg args name = (case map_of args (lit name) of Some (JStr s) \<Rightarrow> Some s | _ \<Rightarrow> None)"

definition str_default :: "arguments \<Rightarrow> string \<Rightarrow> ustring \<Rightarrow> ustring option" where
  "str_default args name d = (case map_of args (lit name) of None \<Rightarrow> Some d | Some (JStr s) \<Rightarrow> Some s | _ \<Rightarrow> None)"

definition bool_default :: "arguments \<Rightarrow> string \<Rightarrow> bool \<Rightarrow> bool option" where
  "bool_default args name d = (case map_of args (lit name) of None \<Rightarrow> Some d | Some (JBool b) \<Rightarrow> Some b | _ \<Rightarrow> None)"

definition two_strings :: "arguments \<Rightarrow> string \<Rightarrow> string \<Rightarrow> (ustring \<times> ustring) option" where
  "two_strings args a b =
     (case str_arg args a of None \<Rightarrow> None
      | Some x \<Rightarrow> (case str_arg args b of None \<Rightarrow> None | Some y \<Rightarrow> Some (x, y)))"

definition list_sites_input :: "arguments \<Rightarrow> tool_call option" where
  "list_sites_input args = (if args = [] then Some T_ListSites else None)"

definition create_site_input :: "arguments \<Rightarrow> tool_call option" where
  "create_site_input args =
     (if only_fields [''name''] args
      then (case str_arg args ''name'' of Some n \<Rightarrow> if 1 \<le> length n \<and> length n \<le> 120 then Some (T_CreateSite n) else None
            | None \<Rightarrow> None)
      else None)"

definition list_files_input :: "arguments \<Rightarrow> tool_call option" where
  "list_files_input args =
     (if only_fields [''site'', ''path''] args
      then (case (str_arg args ''site'', str_default args ''path'' []) of
              (Some s, Some p) \<Rightarrow> Some (T_ListFiles s p) | _ \<Rightarrow> None)
      else None)"

definition upload_file_input :: "arguments \<Rightarrow> tool_call option" where
  "upload_file_input args =
     (if only_fields [''site'', ''path'', ''content_base64'', ''overwrite''] args
      then (case (two_strings args ''site'' ''path'', str_arg args ''content_base64'', bool_default args ''overwrite'' False) of
              (Some (s, p), Some c, Some b) \<Rightarrow> Some (T_UploadFile s p c b) | _ \<Rightarrow> None)
      else None)"

definition download_file_input :: "arguments \<Rightarrow> tool_call option" where
  "download_file_input args =
     (if only_fields [''site'', ''path''] args
      then map_option (\<lambda>(s, p). T_DownloadFile s p) (two_strings args ''site'' ''path'') else None)"

definition delete_file_input :: "arguments \<Rightarrow> tool_call option" where
  "delete_file_input args =
     (if only_fields [''site'', ''path''] args
      then map_option (\<lambda>(s, p). T_DeleteFile s p) (two_strings args ''site'' ''path'') else None)"

definition delete_folder_input :: "arguments \<Rightarrow> tool_call option" where
  "delete_folder_input args =
     (if only_fields [''site'', ''path'', ''recursive''] args
      then (case (two_strings args ''site'' ''path'', bool_default args ''recursive'' False) of
              (Some (s, p), Some b) \<Rightarrow> Some (T_DeleteFolder s p b) | _ \<Rightarrow> None)
      else None)"

definition delete_site_input :: "arguments \<Rightarrow> tool_call option" where
  "delete_site_input args =
     (if only_fields [''site'', ''confirm''] args
      then map_option (\<lambda>(s, c). T_DeleteSite s c) (two_strings args ''site'' ''confirm'') else None)"

section \<open>Handlers\<close>

record tool_context =
  tc_bearer :: ustring
  tc_max_file_bytes :: nat
  tc_sha256 :: "octets \<Rightarrow> ustring" \<comment> \<open>\<open>hashlib.sha256(content).hexdigest()\<close>\<close>

record download_out =
  do_site :: ustring
  do_path :: ustring
  do_bytes :: nat
  do_sha256 :: ustring
  do_content_type :: ustring
  do_content_base64 :: ustring

datatype tool_output =
    O_Sites "site_out list"
  | O_Site site_out
  | O_Listing file_listing
  | O_Upload upload_result
  | O_Download download_out
  | O_Deleted ustring ustring
  | O_DeletedSite ustring

text \<open>What a handler raises: a \<open>ToolError\<close>, or what the client raised.\<close>

datatype tool_failure = ToolError error_code | FromClient client_error

definition slug_arg :: "ustring \<Rightarrow> tool_failure + ustring" where
  "slug_arg site = (case validate_slug site of Inl e \<Rightarrow> Inl (ToolError NOT_FOUND) | Inr s \<Rightarrow> Inr s)"

definition path_arg :: "ustring \<Rightarrow> bool \<Rightarrow> tool_failure + ustring" where
  "path_arg path allow_root =
     (case validate_site_path path allow_root of Inl e \<Rightarrow> Inl (ToolError INVALID_PATH) | Inr p \<Rightarrow> Inr p)"

definition decode_content :: "ustring \<Rightarrow> tool_failure + octets" where
  "decode_content content_base64 =
     (case b64decode (filter (\<lambda>c. \<not> is_space c) content_base64) of
        None \<Rightarrow> Inl (ToolError VALIDATION_ERROR) | Some content \<Rightarrow> Inr content)"

text \<open>\<open>_slug(args.site), _path(args.path)\<close>, the slug first.\<close>

definition site_and_path_args :: "ustring \<Rightarrow> ustring \<Rightarrow> bool \<Rightarrow> tool_failure + (ustring \<times> ustring)" where
  "site_and_path_args site path allow_root =
     (case slug_arg site of Inl e \<Rightarrow> Inl e
      | Inr s \<Rightarrow> (case path_arg path allow_root of Inl e \<Rightarrow> Inl e | Inr p \<Rightarrow> Inr (s, p)))"

definition ask :: "'s exchange \<Rightarrow> tool_context \<Rightarrow> request \<Rightarrow> 's \<Rightarrow> (tool_failure + response) \<times> 's" where
  "ask exchange ctx rq s =
     (case client_call exchange (Some (lit ''mcp'')) (Some (tc_bearer ctx)) rq s of
        (Inl e, s') \<Rightarrow> (Inl (FromClient e), s') | (Inr r, s') \<Rightarrow> (Inr r, s'))"

text \<open>A handler's last step: the value of one request, in the tool's output model.\<close>

definition answer_with ::
  "(response \<Rightarrow> tool_output option) \<Rightarrow> (tool_failure + response) \<times> 's \<Rightarrow> (tool_failure + tool_output) \<times> 's" where
  "answer_with out a =
     (case a of (Inl e, s) \<Rightarrow> (Inl e, s)
      | (Inr r, s) \<Rightarrow> (case out r of None \<Rightarrow> Inl (FromClient Invalid) | Some x \<Rightarrow> Inr x, s))"

definition list_sites_tool :: "'s exchange \<Rightarrow> tool_context \<Rightarrow> 's \<Rightarrow> (tool_failure + tool_output) \<times> 's" where
  "list_sites_tool exchange ctx s =
     answer_with (\<lambda>r. case r of SiteList sites \<Rightarrow> Some (O_Sites sites) | _ \<Rightarrow> None) (ask exchange ctx R_ListSites s)"

definition create_site_tool :: "'s exchange \<Rightarrow> tool_context \<Rightarrow> ustring \<Rightarrow> 's \<Rightarrow> (tool_failure + tool_output) \<times> 's" where
  "create_site_tool exchange ctx name s =
     answer_with (\<lambda>r. case r of SiteResponse _ site \<Rightarrow> Some (O_Site site) | _ \<Rightarrow> None) (ask exchange ctx (R_CreateSite name) s)"

definition list_files_tool ::
  "'s exchange \<Rightarrow> tool_context \<Rightarrow> ustring \<Rightarrow> ustring \<Rightarrow> 's \<Rightarrow> (tool_failure + tool_output) \<times> 's" where
  "list_files_tool exchange ctx site path s =
     (case site_and_path_args site path True of Inl e \<Rightarrow> (Inl e, s)
      | Inr (slug, p) \<Rightarrow>
          answer_with (\<lambda>r. case r of Listing l \<Rightarrow> Some (O_Listing l) | _ \<Rightarrow> None) (ask exchange ctx (R_ListFiles slug p) s))"

definition upload_file_tool ::
  "'s exchange \<Rightarrow> tool_context \<Rightarrow> ustring \<Rightarrow> ustring \<Rightarrow> ustring \<Rightarrow> bool \<Rightarrow> 's \<Rightarrow> (tool_failure + tool_output) \<times> 's" where
  "upload_file_tool exchange ctx site path content_base64 overwrite s =
     (case site_and_path_args site path False of Inl e \<Rightarrow> (Inl e, s)
      | Inr (slug, p) \<Rightarrow> (case decode_content content_base64 of Inl e \<Rightarrow> (Inl e, s)
        | Inr content \<Rightarrow>
            if tc_max_file_bytes ctx < length content then (Inl (ToolError PAYLOAD_TOO_LARGE), s)
            else answer_with (\<lambda>r. case r of Uploaded _ u \<Rightarrow> Some (O_Upload u) | _ \<Rightarrow> None)
              (ask exchange ctx (R_UploadFile slug p overwrite (Some (nat_text (length content)))
                 \<lparr>ub_chunks = [content], ub_broken = False\<rparr>) s)))"

text \<open>The listing of the parent folder first, then the file; the cap is checked on both.\<close>

definition over_cap :: "tool_context \<Rightarrow> ustring \<Rightarrow> file_listing \<Rightarrow> bool" where
  "over_cap ctx path listing =
     (case find (\<lambda>e. fe_name e = path_name path) (fl_entries listing) of
        None \<Rightarrow> False | Some e \<Rightarrow> fe_type e = FILE \<and> tc_max_file_bytes ctx < fe_bytes e)"

definition download_file_tool ::
  "'s exchange \<Rightarrow> tool_context \<Rightarrow> ustring \<Rightarrow> ustring \<Rightarrow> 's \<Rightarrow> (tool_failure + tool_output) \<times> 's" where
  "download_file_tool exchange ctx site path s =
     (case site_and_path_args site path False of Inl e \<Rightarrow> (Inl e, s)
      | Inr (slug, p) \<Rightarrow> (case ask exchange ctx (R_ListFiles slug (path_parent p)) s of
          (Inl e, s') \<Rightarrow> (Inl e, s')
        | (Inr (Listing listing), s') \<Rightarrow>
            (if over_cap ctx p listing then (Inl (ToolError PAYLOAD_TOO_LARGE), s')
             else case ask exchange ctx (R_DownloadFile slug p) s' of
               (Inl e, s'') \<Rightarrow> (Inl e, s'')
             | (Inr (Content content content_type _), s'') \<Rightarrow>
                 (if tc_max_file_bytes ctx < length content then Inl (ToolError PAYLOAD_TOO_LARGE)
                  else Inr (O_Download \<lparr>do_site = slug, do_path = p, do_bytes = length content,
                    do_sha256 = tc_sha256 ctx content, do_content_type = content_type,
                    do_content_base64 = b64encode content\<rparr>), s'')
             | (Inr _, s'') \<Rightarrow> (Inl (FromClient Invalid), s''))
        | (Inr _, s') \<Rightarrow> (Inl (FromClient Invalid), s')))"

definition delete_file_tool ::
  "'s exchange \<Rightarrow> tool_context \<Rightarrow> ustring \<Rightarrow> ustring \<Rightarrow> 's \<Rightarrow> (tool_failure + tool_output) \<times> 's" where
  "delete_file_tool exchange ctx site path s =
     (case site_and_path_args site path False of Inl e \<Rightarrow> (Inl e, s)
      | Inr (slug, p) \<Rightarrow> answer_with (\<lambda>r. Some (O_Deleted slug p)) (ask exchange ctx (R_DeleteFile slug p) s))"

definition delete_folder_tool ::
  "'s exchange \<Rightarrow> tool_context \<Rightarrow> ustring \<Rightarrow> ustring \<Rightarrow> bool \<Rightarrow> 's \<Rightarrow> (tool_failure + tool_output) \<times> 's" where
  "delete_folder_tool exchange ctx site path recursive s =
     (case site_and_path_args site path False of Inl e \<Rightarrow> (Inl e, s)
      | Inr (slug, p) \<Rightarrow>
          answer_with (\<lambda>r. Some (O_Deleted slug p)) (ask exchange ctx (R_DeleteFolder slug p recursive) s))"

definition delete_site_tool ::
  "'s exchange \<Rightarrow> tool_context \<Rightarrow> ustring \<Rightarrow> ustring \<Rightarrow> 's \<Rightarrow> (tool_failure + tool_output) \<times> 's" where
  "delete_site_tool exchange ctx site confirm s =
     (case slug_arg site of Inl e \<Rightarrow> (Inl e, s)
      | Inr slug \<Rightarrow> answer_with (\<lambda>r. Some (O_DeletedSite slug)) (ask exchange ctx (R_DeleteSite slug (Some confirm)) s))"

text \<open>A handler given to a specification runs on the arguments its own model validated.\<close>

fun run_handler :: "'s exchange \<Rightarrow> tool_context \<Rightarrow> tool_call \<Rightarrow> 's \<Rightarrow> (tool_failure + tool_output) \<times> 's" where
  "run_handler exchange ctx T_ListSites s = list_sites_tool exchange ctx s"
| "run_handler exchange ctx (T_CreateSite name) s = create_site_tool exchange ctx name s"
| "run_handler exchange ctx (T_ListFiles site path) s = list_files_tool exchange ctx site path s"
| "run_handler exchange ctx (T_UploadFile site path content overwrite) s =
     upload_file_tool exchange ctx site path content overwrite s"
| "run_handler exchange ctx (T_DownloadFile site path) s = download_file_tool exchange ctx site path s"
| "run_handler exchange ctx (T_DeleteFile site path) s = delete_file_tool exchange ctx site path s"
| "run_handler exchange ctx (T_DeleteFolder site path recursive) s = delete_folder_tool exchange ctx site path recursive s"
| "run_handler exchange ctx (T_DeleteSite site confirm) s = delete_site_tool exchange ctx site confirm s"

section \<open>Specifications\<close>

text \<open>The annotations are the read-only, the destructive and the idempotent hint.\<close>

record tool_spec =
  tl_name :: ustring
  tl_input :: "arguments \<Rightarrow> tool_call option"
  tl_scope :: scope
  tl_hints :: "bool \<times> bool \<times> bool option"

definition read_only_hints :: "bool \<times> bool \<times> bool option" where
  "read_only_hints = (True, False, Some True)"

definition additive_hints :: "bool option \<Rightarrow> bool \<times> bool \<times> bool option" where
  "additive_hints idempotent = (False, False, idempotent)"

definition destructive_hints :: "bool \<times> bool \<times> bool option" where
  "destructive_hints = (False, True, Some True)"

definition tool_specs :: "tool_spec list" where
  "tool_specs =
     [\<lparr>tl_name = lit ''list_sites'', tl_input = list_sites_input, tl_scope = READ_ONLY, tl_hints = read_only_hints\<rparr>,
      \<lparr>tl_name = lit ''create_site'', tl_input = create_site_input, tl_scope = READ_WRITE,
       tl_hints = additive_hints (Some False)\<rparr>,
      \<lparr>tl_name = lit ''list_files'', tl_input = list_files_input, tl_scope = READ_ONLY, tl_hints = read_only_hints\<rparr>,
      \<lparr>tl_name = lit ''upload_file'', tl_input = upload_file_input, tl_scope = READ_WRITE, tl_hints = additive_hints None\<rparr>,
      \<lparr>tl_name = lit ''download_file'', tl_input = download_file_input, tl_scope = READ_ONLY, tl_hints = read_only_hints\<rparr>,
      \<lparr>tl_name = lit ''delete_file'', tl_input = delete_file_input, tl_scope = REMOVE_DESTRUCTIVE,
       tl_hints = destructive_hints\<rparr>,
      \<lparr>tl_name = lit ''delete_folder'', tl_input = delete_folder_input, tl_scope = REMOVE_DESTRUCTIVE,
       tl_hints = destructive_hints\<rparr>,
      \<lparr>tl_name = lit ''delete_site'', tl_input = delete_site_input, tl_scope = REMOVE_DESTRUCTIVE,
       tl_hints = destructive_hints\<rparr>]"

definition listed_tools :: "tool_spec list \<Rightarrow> scope \<Rightarrow> tool_spec list" where
  "listed_tools specs scope = filter (\<lambda>spec. scope_allows scope (tl_scope spec)) specs"

definition spec_for :: "tool_spec list \<Rightarrow> ustring \<Rightarrow> tool_spec option" where
  "spec_for specs name = find (\<lambda>spec. tl_name spec = name) specs"

section \<open>Dispatch\<close>

text \<open>\<open>ToolError.from_backend\<close> for the client's \<open>BackendError\<close>s; any other exception goes on.\<close>

fun from_backend :: "tool_failure \<Rightarrow> tool_failure" where
  "from_backend (FromClient (BackendError status code)) = ToolError code"
| "from_backend (FromClient BackendUnreachable) = ToolError BACKEND_UNREACHABLE"
| "from_backend e = e"

definition dispatch ::
  "'s exchange \<Rightarrow> tool_spec list \<Rightarrow> ustring \<Rightarrow> arguments \<Rightarrow> tool_context \<Rightarrow> scope \<Rightarrow> 's
     \<Rightarrow> (tool_failure + tool_output) \<times> 's" where
  "dispatch exchange specs name arguments ctx scope s =
     (case spec_for specs name of
        None \<Rightarrow> (Inl (ToolError BAD_REQUEST), s)
      | Some spec \<Rightarrow>
          if \<not> scope_allows scope (tl_scope spec) then (Inl (ToolError FORBIDDEN), s)
          else (case tl_input spec arguments of
             None \<Rightarrow> (Inl (ToolError VALIDATION_ERROR), s)
           | Some args \<Rightarrow> (case run_handler exchange ctx args s of
               (Inl e, s') \<Rightarrow> (Inl (from_backend e), s') | (Inr out, s') \<Rightarrow> (Inr out, s'))))"

section \<open>The server's handlers\<close>

definition request_body_limit :: "nat \<Rightarrow> nat" where
  "request_body_limit max_file_bytes =
     (let encoded = 4 * ((max_file_bytes + 2) div 3); lines = (encoded + 75) div 76 in
      encoded + 2 * lines + 64 * 1024)"

record mcp_server =
  ms_lifespan :: bool
  ms_max_file_bytes :: nat
  ms_sha256 :: "octets \<Rightarrow> ustring"

text \<open>\<open>call_tool\<close>: the result, or the code of the error result; nothing is raised to the SDK.\<close>

definition call_tool ::
  "'s exchange \<Rightarrow> mcp_server \<Rightarrow> asgi_scope option \<Rightarrow> ustring \<Rightarrow> arguments \<Rightarrow> 's \<Rightarrow> (error_code + tool_output) \<times> 's" where
  "call_tool exchange ms request name arguments s =
     (case confirmed_from request of
        None \<Rightarrow> (Inl UNAUTHORIZED, s)
      | Some c \<Rightarrow>
          if \<not> ms_lifespan ms then (Inl INTERNAL_ERROR, s)
          else (case dispatch exchange tool_specs name arguments
                  \<lparr>tc_bearer = cf_bearer c, tc_max_file_bytes = ms_max_file_bytes ms, tc_sha256 = ms_sha256 ms\<rparr>
                  (ts_scope (cf_token c)) s of
             (Inl (ToolError code), s') \<Rightarrow> (Inl code, s')
           | (Inl (FromClient _), s') \<Rightarrow> (Inl INTERNAL_ERROR, s')
           | (Inr out, s') \<Rightarrow> (Inr out, s')))"

text \<open>\<open>list_tools\<close>: the tools of the token's scope, or an \<open>McpError\<close>.\<close>

definition list_tools :: "asgi_scope option \<Rightarrow> tool_spec list option" where
  "list_tools request =
     (case confirmed_from request of None \<Rightarrow> None
      | Some c \<Rightarrow> Some (listed_tools tool_specs (ts_scope (cf_token c))))"

end
