(* ===== verification/Mcp_Calls.thy ===== *)
theory Mcp_Calls
  imports Mcp_Tools
begin

text \<open>
  What the MCP server lets a client do: the requests a tool makes, a tool call behind the gate with
  the backend at the other end, and what the limits of \<open>src/paper_boxing/mcp/server.py\<close> leave room for.
\<close>

section \<open>The requests of a tool\<close>

text \<open>The rule of the routes a tool calls.\<close>

fun tool_access :: "tool_call \<Rightarrow> access" where
  "tool_access T_ListSites = NEEDS_READ_ONLY"
| "tool_access (T_CreateSite _) = NEEDS_READ_WRITE"
| "tool_access (T_ListFiles _ _) = NEEDS_READ_ONLY"
| "tool_access (T_UploadFile _ _ _ _) = NEEDS_READ_WRITE"
| "tool_access (T_DownloadFile _ _) = NEEDS_READ_ONLY"
| "tool_access (T_DeleteFile _ _) = NEEDS_REMOVE_DESTRUCTIVE"
| "tool_access (T_DeleteFolder _ _ _) = NEEDS_REMOVE_DESTRUCTIVE"
| "tool_access (T_DeleteSite _ _) = NEEDS_REMOVE_DESTRUCTIVE"

lemmas input_defs = list_sites_input_def create_site_input_def list_files_input_def upload_file_input_def
  download_file_input_def delete_file_input_def delete_folder_input_def delete_site_input_def

lemmas tool_defs = list_sites_tool_def create_site_tool_def list_files_tool_def upload_file_tool_def
  download_file_tool_def delete_file_tool_def delete_folder_tool_def delete_site_tool_def

lemma spec_scope:
  assumes "spec \<in> set tool_specs" "tl_input spec args = Some call"
  shows "scope_of_access (tool_access call) = Some (tl_scope spec)"
  using assms by (auto simp: tool_specs_def input_defs split: if_splits option.splits)

lemma dispatch_cases:
  assumes "dispatch ex tool_specs name args ctx scope s = (r, s')"
  obtains (refused) "s' = s" "\<exists>code. r = Inl (ToolError code)"
  | (run) call required out where "run_handler ex ctx call s = (out, s')"
      "scope_of_access (tool_access call) = Some required" "required \<le> scope"
      "r = (case out of Inl e \<Rightarrow> Inl (from_backend e) | Inr x \<Rightarrow> Inr x)"
proof (cases "spec_for tool_specs name")
  case None
  then show ?thesis using assms refused by (auto simp: dispatch_def)
next
  case (Some spec)
  have spec: "spec \<in> set tool_specs" using Some by (auto simp: spec_for_def find_Some_iff)
  show ?thesis
  proof (cases "scope_allows scope (tl_scope spec)")
    case True
    show ?thesis
    proof (cases "tl_input spec args")
      case None
      then show ?thesis using assms Some True refused by (auto simp: dispatch_def)
    next
      case (Some call)
      obtain out s1 where h: "run_handler ex ctx call s = (out, s1)" by (metis prod.collapse)
      then have "s1 = s'" "r = (case out of Inl e \<Rightarrow> Inl (from_backend e) | Inr x \<Rightarrow> Inr x)"
        using assms \<open>spec_for tool_specs name = Some spec\<close> True Some by (auto simp: dispatch_def split: sum.splits)
      then show ?thesis
        using run [of call out] h spec_scope [OF spec Some] True by (simp add: scope_allows_iff)
    qed
  next
    case False
    then show ?thesis using assms Some refused by (auto simp: dispatch_def)
  qed
qed

lemma ask_cong: "ex1 rq = ex2 rq \<Longrightarrow> ask ex1 ctx rq s = ask ex2 ctx rq s"
  by (simp add: ask_def client_call_cong [of ex1 rq ex2])

lemma run_handler_cong:
  assumes "\<And>rq. access_of rq = tool_access call \<Longrightarrow> ex1 rq = ex2 rq"
  shows "run_handler ex1 ctx call s = run_handler ex2 ctx call s"
proof -
  have "ask ex1 ctx rq s = ask ex2 ctx rq s" if "access_of rq = tool_access call" for rq s
    by (rule ask_cong, rule assms, rule that)
  then show ?thesis by (cases call) (auto simp: tool_defs split: sum.split prod.split response.split)
qed

text \<open>
  C16. A tool asks the backend for nothing its token may not do: for a token of some scope a
  call behaves the same against any two backends that differ only on requests the route table does
  not allow an agent token of that scope.  Whatever the arguments, no such request is made; in particular
  no tool reaches a route that is for sessions only.
\<close>

theorem tools_stay_in_scope:
  assumes "\<And>rq. access_allows (access_of rq) (Some AGENT) (Some scope) \<Longrightarrow> access_of rq \<noteq> PUBLIC \<Longrightarrow>
    access_of rq \<noteq> ANY_TOKEN \<Longrightarrow> ex1 rq = ex2 rq"
  shows "dispatch ex1 tool_specs name args ctx scope s = dispatch ex2 tool_specs name args ctx scope s"
proof (cases "spec_for tool_specs name")
  case (Some spec)
  have spec: "spec \<in> set tool_specs" using Some by (auto simp: spec_for_def find_Some_iff)
  have "run_handler ex1 ctx call s = run_handler ex2 ctx call s"
    if "scope_allows scope (tl_scope spec)" "tl_input spec args = Some call" for call
  proof (rule run_handler_cong)
    fix rq
    assume rq: "access_of rq = tool_access call"
    show "ex1 rq = ex2 rq"
      using spec_scope [OF spec that(2)] that(1) rq
      by (intro assms) (auto simp: access_allows_token scope_allows_iff)
  qed
  then show ?thesis using Some by (simp add: dispatch_def split: option.split)
qed (simp add: dispatch_def)

section \<open>A tool call behind the gate\<close>

text \<open>
  A tool call as a client sends it: the gate, then, with what it left on the request, the handler.
\<close>

definition mcp_call ::
  "'s exchange \<Rightarrow> gate \<Rightarrow> mcp_server \<Rightarrow> asgi_scope \<Rightarrow> ustring \<Rightarrow> arguments \<Rightarrow> 's \<Rightarrow> (error_code + tool_output) \<times> 's" where
  "mcp_call exchange g ms scope name args s =
     (case gate_call exchange g scope s of
        (Answered status code, s') \<Rightarrow> (Inl code, s')
      | (Passed scope', s') \<Rightarrow> call_tool exchange ms (Some scope') name args s')"

lemma wire_confirm: "confirm_bearer (wire bk mos) bearer s = confirm_bearer (rest_exchange bk (mos R_TokenSelf)) bearer s"
  by (simp add: confirm_bearer_def wire_client)

lemma ask_tree:
  assumes "ask (wire bk mos) ctx rq s = (r, s')" "what_at (st_sites s) [] = A_Folder"
    and "what_at (st_sites s') q \<noteq> what_at (st_sites s) q"
  shows "access_of rq \<in> {NEEDS_READ_WRITE, NEEDS_REMOVE_DESTRUCTIVE}
    \<and> (what_at (st_sites s') q = Missing \<longrightarrow> access_of rq = NEEDS_REMOVE_DESTRUCTIVE)"
proof -
  obtain x where "client_call (wire bk mos) (Some (lit ''mcp'')) (Some (tc_bearer ctx)) rq s = (x, s')"
    using assms(1) by (auto simp: ask_def split: prod.splits sum.splits)
  then obtain y where "handle bk (mos rq) (Some (bearer_header (tc_bearer ctx))) rq s = (y, s')"
    using wire_state assms(3) by blast
  from tree_change_route [OF assms(2) this assms(3)] show ?thesis by blast
qed

lemma answer_with_state [simp]: "snd (answer_with out a) = snd a"
  by (simp add: answer_with_def split: prod.split sum.split)

lemma answer_with_ask: "answer_with out (ask ex ctx rq s) = (r, s') \<Longrightarrow> \<exists>x. ask ex ctx rq s = (x, s')"
  by (metis answer_with_state prod.collapse snd_conv)

text \<open>What a handler leaves is what its last request left; only a download makes two.\<close>

lemma run_handler_last:
  assumes "run_handler ex ctx call s = (r, s')"
  shows "s' = s \<or> (\<exists>rq x. access_of rq = tool_access call \<and> ask ex ctx rq s = (x, s'))
    \<or> tool_access call = NEEDS_READ_ONLY \<and> (\<exists>rq1 x1 s1 rq2 x2. access_of rq1 = NEEDS_READ_ONLY \<and> access_of rq2 = NEEDS_READ_ONLY
         \<and> ask ex ctx rq1 s = (x1, s1) \<and> ask ex ctx rq2 s1 = (x2, s'))"
proof (cases call)
  case (T_DownloadFile site path)
  show ?thesis
  proof (cases "site_and_path_args site path False")
    case (Inr sp)
    obtain slug p where sp: "sp = (slug, p)" by fastforce
    obtain x1 s1 where a1: "ask ex ctx (R_ListFiles slug (path_parent p)) s = (x1, s1)" by (metis prod.collapse)
    obtain x2 s2 where a2: "ask ex ctx (R_DownloadFile slug p) s1 = (x2, s2)" by (metis prod.collapse)
    have "s' = s1 \<or> s' = s2" using assms a1 a2 Inr sp unfolding T_DownloadFile
      by (auto simp: download_file_tool_def split: sum.splits response.splits if_splits)
    moreover have "access_of (R_ListFiles slug (path_parent p)) = NEEDS_READ_ONLY" "access_of (R_DownloadFile slug p) = NEEDS_READ_ONLY"
      "tool_access call = NEEDS_READ_ONLY" using T_DownloadFile by simp_all
    ultimately show ?thesis using a1 a2 by metis
  qed (use assms T_DownloadFile in \<open>simp add: download_file_tool_def\<close>)
qed (use assms in \<open>(auto simp: tool_defs split: prod.splits sum.splits if_splits dest!: answer_with_ask) [1],
  (metis access_of_simps tool_access.simps)?\<close>)+

lemma run_handler_tree:
  assumes "run_handler (wire bk mos) ctx call s = (r, s')" "what_at (st_sites s) [] = A_Folder"
    and "what_at (st_sites s') q \<noteq> what_at (st_sites s) q"
  shows "tool_access call \<in> {NEEDS_READ_WRITE, NEEDS_REMOVE_DESTRUCTIVE}
    \<and> (what_at (st_sites s') q = Missing \<longrightarrow> tool_access call = NEEDS_REMOVE_DESTRUCTIVE)"
  using run_handler_last [OF assms(1)]
proof (elim disjE exE conjE)
  fix rq1 x1 s1 rq2 x2
  assume two: "tool_access call = NEEDS_READ_ONLY" "access_of rq1 = NEEDS_READ_ONLY" "access_of rq2 = NEEDS_READ_ONLY"
    "ask (wire bk mos) ctx rq1 s = (x1, s1)" "ask (wire bk mos) ctx rq2 s1 = (x2, s')"
  have one: "what_at (st_sites s1) p = what_at (st_sites s) p" for p
    using ask_tree [OF two(4) assms(2), of p] two(2) by auto
  have "what_at (st_sites s1) [] = A_Folder" using assms(2) by (simp only: one)
  then have "what_at (st_sites s') q = what_at (st_sites s1) q"
    using ask_tree [OF two(5), of q] two(3) by auto
  then show ?thesis using one assms(3) by simp
next
  fix rq x
  assume "access_of rq = tool_access call" "ask (wire bk mos) ctx rq s = (x, s')"
  then show ?thesis using ask_tree [OF _ assms(2,3), of bk mos ctx rq x] by simp
qed (use assms(3) in simp)

lemma wire_gate:
  assumes "accounts_ok (st_db st)" "gate_call (wire bk mos) g scope st = (Passed scope', st1)" "as_http scope"
  obtains bearer me owner where "bearer_from (as_headers scope) = Some bearer" "as_method scope = lit ''POST''"
    "confirmed_from (Some scope') = Some \<lparr>cf_bearer = bearer, cf_token = me\<rparr>"
    "caller (bk_accounts bk) (mo_auth_now (mos R_TokenSelf)) (Some (bearer_header bearer)) (st_db st) = Some (AGENT, ts_scope me, owner)"
    "st_sites st1 = st_sites st"
proof -
  obtain bearer c where p: "as_method scope = lit ''POST''" "bearer_from (as_headers scope) = Some bearer"
      "confirm_bearer (rest_exchange bk (mos R_TokenSelf)) bearer st = (Inr c, st1)"
      "scope' = scope\<lparr>as_confirmed := Some c\<rparr>"
    using gate_passed [OF assms(2,3)] unfolding wire_confirm by metis
  obtain me where me: "handle bk (mos R_TokenSelf) (Some (bearer_header bearer)) R_TokenSelf st = (Inr (TokenSelfResponse me), st1)"
      "ts_type me = AGENT" "c = \<lparr>cf_bearer = bearer, cf_token = me\<rparr>"
    using p(3) by (rule confirm_over_backend)
  have "confirmed_from (Some scope') = Some \<lparr>cf_bearer = bearer, cf_token = me\<rparr>"
    using p(4) me(3) by (simp add: confirmed_from_def)
  then show ?thesis using token_self_caller(1,2) [OF assms(1) me(1,2)] p(1,2) that by blast
qed

lemma confirm_state:
  "snd (confirm_bearer ex bearer s) = snd (client_call ex (Some (lit ''mcp'')) (Some bearer) R_TokenSelf s)"
  unfolding confirm_bearer_def by (simp split: prod.split sum.split client_error.split response.split)

lemma gate_refused_tree:
  assumes "gate_confirm (wire bk mos) g scope st = (r, st1)"
  shows "st_sites st1 = st_sites st"
proof -
  have "st_sites s' = st_sites s" if "confirm_bearer (wire bk mos) bearer s = (x, s')" for bearer x s s'
  proof -
    have "snd (client_call (wire bk mos) (Some (lit ''mcp'')) (Some bearer) R_TokenSelf s) = s'"
      unfolding confirm_state [symmetric] that by simp
    then obtain y where "client_call (wire bk mos) (Some (lit ''mcp'')) (Some bearer) R_TokenSelf s = (y, s')"
      by (metis prod.collapse)
    then consider "s' = s" | z where "handle bk (mos R_TokenSelf) (Some (bearer_header bearer)) R_TokenSelf s = (z, s')"
      using wire_state by blast
    then show ?thesis
    proof cases
      case (2 z)
      from 2 show ?thesis by (cases rule: handle_cases) auto
    qed simp
  qed
  then show ?thesis using assms
    by (auto simp: gate_confirm_def split: sum.splits option.splits if_splits)
qed

lemma call_tool_tree:
  assumes "call_tool (wire bk mos) ms (Some scope) name args s = (r, s')" "confirmed_from (Some scope) = Some c"
    and "what_at (st_sites s) [] = A_Folder" "what_at (st_sites s') q \<noteq> what_at (st_sites s) q"
  shows "ts_scope (cf_token c) \<noteq> READ_ONLY
    \<and> (what_at (st_sites s') q = Missing \<longrightarrow> ts_scope (cf_token c) = REMOVE_DESTRUCTIVE)"
proof -
  obtain ctx r1 where "dispatch (wire bk mos) tool_specs name args ctx (ts_scope (cf_token c)) s = (r1, s')"
    using assms(1,2,4) by (auto simp: call_tool_def split: if_splits prod.splits sum.splits tool_failure.splits)
  then show ?thesis
  proof (cases rule: dispatch_cases)
    case (run call required out)
    from run_handler_tree [OF run(1) assms(3,4)] run(2,3) show ?thesis
      by (cases "ts_scope (cf_token c)") (auto simp: less_eq_scope_def)
  qed (use assms(4) in simp)
qed

text \<open>
  C10. The MCP server gives no one more than the backend would: whatever a client sends to the gate
  and whichever tool it calls, with whatever arguments and at whatever moments, the served tree
  changes only if the request was a POST whose bearer the backend grants as an agent token that may
  write, and loses something only for an agent token that may remove.
\<close>

theorem mcp_tree_changes_need_scope:
  assumes "accounts_ok (st_db st)" "what_at (st_sites st) [] = A_Folder"
    and "mcp_call (wire bk mos) g ms scope name args st = (r, st')" "as_http scope"
    and "what_at (st_sites st') q \<noteq> what_at (st_sites st) q"
  shows "as_method scope = lit ''POST'' \<and> (\<exists>bearer granted owner. bearer_from (as_headers scope) = Some bearer
    \<and> caller (bk_accounts bk) (mo_auth_now (mos R_TokenSelf)) (Some (bearer_header bearer)) (st_db st) = Some (AGENT, granted, owner)
    \<and> granted \<noteq> READ_ONLY \<and> (what_at (st_sites st') q = Missing \<longrightarrow> granted = REMOVE_DESTRUCTIVE))"
proof -
  obtain outcome st1 where g: "gate_call (wire bk mos) g scope st = (outcome, st1)" by (metis prod.collapse)
  show ?thesis
  proof (cases outcome)
    case (Passed scope')
    have g': "gate_call (wire bk mos) g scope st = (Passed scope', st1)" using g Passed by simp
    obtain bearer me owner where b: "bearer_from (as_headers scope) = Some bearer" "as_method scope = lit ''POST''"
        "confirmed_from (Some scope') = Some \<lparr>cf_bearer = bearer, cf_token = me\<rparr>"
        "caller (bk_accounts bk) (mo_auth_now (mos R_TokenSelf)) (Some (bearer_header bearer)) (st_db st) = Some (AGENT, ts_scope me, owner)"
        "st_sites st1 = st_sites st"
      using wire_gate [OF assms(1) g' assms(4)] by blast
    have "call_tool (wire bk mos) ms (Some scope') name args st1 = (r, st')"
      using assms(3) g' by (simp add: mcp_call_def)
    from call_tool_tree [OF this b(3), of q] b assms(2,5) show ?thesis by simp
  next
    case (Answered status code)
    have "\<exists>x. gate_confirm (wire bk mos) g scope st = (x, st1)"
      using g Answered assms(4) by (auto simp: gate_call_def split: prod.splits sum.splits gate_error.splits)
    then have "st_sites st1 = st_sites st" using gate_refused_tree by blast
    then show ?thesis using assms(3,5) g Answered by (simp add: mcp_call_def)
  qed
qed

section \<open>What the limits leave room for\<close>

lemma decode_content_encoded:
  assumes "\<forall>x\<in>set content. x < 256"
  shows "decode_content (b64encode content) = Inr content" "decode_content (encodebytes content) = Inr content"
  using decode_encode [OF assms, of 0 0]
  by (simp_all add: decode_content_def b64decode_def filter_chars encodebytes_compact)

lemma nat_text_digits: "list_all digit (nat_text n)"
proof (induction n rule: nat_text.induct)
  case (1 n)
  have "n mod 10 < 10" by simp
  then have "digit (48 + n mod 10)" "n < 10 \<Longrightarrow> digit (48 + n)" by (simp_all add: digit_def)
  with 1 show ?case by (subst nat_text.simps) simp
qed

lemma nat_text_value: "foldl (\<lambda>n c. 10 * n + int (c - 48)) 0 (nat_text n) = int n"
proof (induction n rule: nat_text.induct)
  case (1 n)
  have "10 * int (n div 10) + int (n mod 10) = int n" by presburger
  then show ?case using 1 by (subst nat_text.simps) (auto simp: zdiv_int zmod_int)
qed

lemma nat_text_length: "n < 10 ^ Suc k \<Longrightarrow> length (nat_text n) \<le> Suc k"
proof (induction k arbitrary: n)
  case (Suc k)
  then have "n div 10 < 10 ^ Suc k" by (simp add: less_mult_imp_div_less mult.commute)
  with Suc.IH show ?case by (subst nat_text.simps) simp
qed (subst nat_text.simps, simp)

lemma python_int_text:
  assumes "length (nat_text n) \<le> 4300"
  shows "python_int (nat_text n) = Some (int n)"
proof -
  have d: "digit c" if "c \<in> set (nat_text n)" for c using nat_text_digits that by (auto simp: list_all_iff)
  have no: "\<not> digit 45" "\<not> digit 43" "\<not> digit 95" by (simp_all add: digit_def)
  have "\<not> is_space c" if "digit c" for c using that by (auto simp: digit_def is_space_def)
  then have "strip is_space (nat_text n) = nat_text n" using d nat_text_nonempty by (intro strip_id) auto
  moreover have "hd (nat_text n) \<noteq> 45" "hd (nat_text n) \<noteq> 43" "95 \<notin> set (nat_text n)"
    using d [of "hd (nat_text n)"] d nat_text_nonempty no hd_in_set by metis+
  moreover have "filter digit (nat_text n) = nat_text n" using d by simp
  moreover have "take 1 (nat_text n) = [hd (nat_text n)]" using nat_text_nonempty by (cases "nat_text n") simp_all
  ultimately show ?thesis
    using nat_text_digits nat_text_nonempty nat_text_value [of n] assms by (simp add: python_int_def decimal_def split_none)
qed

lemma body_within_limit:
  assumes "length content \<le> cap" "envelope \<le> 64 * 1024"
  shows "json_width (encodebytes content) + envelope \<le> request_body_limit cap"
proof -
  have e: "4 * ((length content + 2) div 3) \<le> 4 * ((cap + 2) div 3)" using assms(1) by (simp add: div_le_mono)
  then have "(4 * ((length content + 2) div 3) + 75) div 76 \<le> (4 * ((cap + 2) div 3) + 75) div 76"
    by (intro div_le_mono add_right_mono)
  with e assms(2) show ?thesis by (simp only: encodebytes_json request_body_limit_def Let_def)
qed

text \<open>
  C32. The limits agree: the body of an \<open>upload_file\<close> call with a file of at most the cap, base64-encoded
  with or without line breaks, and an envelope of up to 64 KiB is within the gate's limit, so a declared
  length of that size is let through, and the tool decodes either form to the file's bytes; no file the
  server promises to take is refused for the size of its encoding.
\<close>

theorem file_at_cap_fits:
  assumes "length content \<le> cap" "cap \<le> 10 ^ 15" "envelope \<le> 64 * 1024" "\<forall>x\<in>set content. x < 256"
    and "text \<in> {b64encode content, encodebytes content}"
    and "tg_max_body_bytes g = request_body_limit cap"
    and "map_of (as_headers scope) (lit ''content-length'') = Some (nat_text (json_width text + envelope))"
  shows "check_declared_length g scope = Inr () \<and> decode_content text = Inr content"
proof -
  let ?n = "json_width text + envelope"
  have w: "json_width text \<le> json_width (encodebytes content)"
    using assms(5) by (auto simp: json_width_b64 b64encode_length encodebytes_json)
  then have n: "?n \<le> request_body_limit cap" using body_within_limit [OF assms(1,3)] by simp
  also have "\<dots> < 10 ^ Suc 16" using assms(2) by (simp add: request_body_limit_def Let_def)
  finally have "length (nat_text ?n) \<le> 4300" using nat_text_length [of ?n 16] by simp
  then have i: "python_int (nat_text ?n) = Some (int ?n)" by (rule python_int_text)
  have "\<not> int (tg_max_body_bytes g) < int ?n" using n assms(6) by simp
  then have "check_declared_length g scope = Inr ()"
    unfolding check_declared_length_def assms(7) option.case i by simp
  then show ?thesis using assms(5) decode_content_encoded [OF assms(4)] by auto
qed

theorem file_at_cap_fits_witness:
  "check_declared_length \<lparr>tg_security = (\<lambda>_. None), tg_max_body_bytes = request_body_limit 4, tg_lifespan = True\<rparr>
     \<lparr>as_http = True, as_method = lit ''POST'',
      as_headers = [(lit ''content-length'', nat_text (json_width (encodebytes [1, 2, 3, 4]) + 100))], as_confirmed = None\<rparr> = Inr ()
   \<and> decode_content (encodebytes [1, 2, 3, 4]) = Inr [1, 2, 3, 4]"
  by (rule file_at_cap_fits [where cap = 4 and envelope = 100]) simp_all

end
