(* ===== verification/Site_Contract.thy ===== *)
theory Site_Contract
  imports Backend_Routes
begin

text \<open>
  What the site and file routes promise, without a disk, a database or a dictionary: the sites as
  a map from slugs to trees of items, and the answer to each request as a function of that map.
  The locale \<open>site_store\<close> is the interface a backend provides; its lemmas hold of every backend,
  and the real one and the fake are both interpreted in it.
\<close>

section \<open>The sites, abstractly\<close>

datatype item = Absent | Is_File octets | Is_Folder

record site_view =
  sv_name :: ustring
  sv_items :: "ustring list \<Rightarrow> item"

type_synonym sites_view = "ustring \<Rightarrow> site_view option"

text \<open>What a backend is configured with.\<close>

record site_rules =
  sr_cap :: nat
  sr_sha256 :: "octets \<Rightarrow> ustring"
  sr_nfkd :: "ustring \<Rightarrow> ustring"
  sr_mime :: "ustring \<Rightarrow> ustring option"
  sr_url :: ustring

fun item_size :: "item \<Rightarrow> nat" where
  "item_size (Is_File c) = length c"
| "item_size _ = 0"

definition files_below :: "(ustring list \<Rightarrow> item) \<Rightarrow> ustring list \<Rightarrow> ustring list set" where
  "files_below items q = {p. strict_prefix q p \<and> (\<exists>c. items p = Is_File c)}"

definition total_below :: "(ustring list \<Rightarrow> item) \<Rightarrow> ustring list \<Rightarrow> nat" where
  "total_below items q = (\<Sum>p\<in>files_below items q. item_size (items p))"

section \<open>Names and locations\<close>

lemma join_name_on:
  assumes "list_all good_segment q" "list_all good_segment [name]"
  shows "join_name (join_on slash q) name = join_on slash (q @ [name])"
  using assms by (cases "q = []") (auto simp: join_name_def join_on_append join_on_empty_iff good_segment_def)

lemma join_name_inj: "join_name folder a = join_name folder b \<longleftrightarrow> a = b"
  by (simp add: join_name_def)

lemma directly_in_join:
  "slash \<notin> set name \<Longrightarrow> directly_in folder (join_name folder name)"
  by (auto simp: directly_in_def join_name_def below_def Let_def)

lemma directly_in_name:
  assumes "directly_in folder path"
  obtains name where "path = join_name folder name" "slash \<notin> set name"
proof (cases "folder = []")
  case True
  then show ?thesis using assms that [of path] by (simp add: directly_in_def join_name_def)
next
  case False
  then have t: "take (length (folder @ [slash])) path = folder @ [slash]"
    using assms by (simp add: directly_in_def below_def Let_def)
  then have "path = folder @ slash # drop (length folder + 1) path"
    by (metis append_Cons append_assoc append_self_conv2 append_take_drop_id length_append_singleton Suc_eq_plus1)
  then show ?thesis
    using that [of "drop (length folder + 1) path"] False assms by (simp add: directly_in_def join_name_def Let_def)
qed

lemma join_name_segments:
  assumes "slash \<notin> set name" "name \<noteq> [] \<or> folder \<noteq> []"
  shows "segments_of (join_name folder name) = segments_of folder @ [name]"
  using assms by (cases "folder = []") (simp_all add: join_name_def segments_of_def split_none split_append_sep)

lemma segments_parent_name:
  assumes "canonical_path p"
  shows "segments_of p = segments_of (path_parent p) @ [path_name p]" "path_parent p = [] \<or> canonical_path (path_parent p)"
proof -
  have p: "if path_parent p = [] then p = path_name p
      else canonical_path (path_parent p) \<and> p = path_parent p @ slash # path_name p" "good_segment (path_name p)"
    using path_parent_name [OF assms] by blast+
  then have "p = join_name (path_parent p) (path_name p)" by (auto simp: join_name_def split: if_splits)
  with join_name_segments [of "path_name p" "path_parent p"] p(2)
  show "segments_of p = segments_of (path_parent p) @ [path_name p]" by (auto simp: good_segment_def)
  show "path_parent p = [] \<or> canonical_path (path_parent p)" using p(1) by (auto split: if_splits)
qed

lemma valid_path_canonical: "canonical_path p \<Longrightarrow> valid_path p allow = Inr p"
  using canonical_ends [of p] validate_ok_iff [of p allow p]
  by (simp add: valid_path_def strip_id canonical_path_def)

lemma valid_path_root: "valid_path [] True = Inr []"
  using validate_ok_iff [of "[]" True "[]"] by (simp add: valid_path_def strip_def lstrip_def)

lemma valid_folder: "valid_path raw True = Inr folder \<Longrightarrow> folder = [] \<or> canonical_path folder"
  by (auto simp: valid_path_def validate_ok_iff split: sum.splits if_splits)

lemma join_child:
  assumes "good_path (segments_of folder @ [n])"
  shows "join_on slash (segments_of folder @ [n]) = join_name folder n" "canonical_path (join_name folder n)"
    "segments_of (join_name folder n) = segments_of folder @ [n]"
proof -
  have "list_all good_segment (segments_of folder @ [n])" using assms canonical_segments by (metis good_path_def)
  then show j: "join_on slash (segments_of folder @ [n]) = join_name folder n"
    using join_name_on [of "segments_of folder" n] by simp
  show "canonical_path (join_name folder n)" "segments_of (join_name folder n) = segments_of folder @ [n]"
    using assms unfolding good_path_def j by simp_all
qed

section \<open>Answers\<close>

text \<open>An answer without the times in it, which are the two backends' own.\<close>

datatype outline =
    O_Error exn
  | O_Done
  | O_Site nat ustring ustring ustring nat nat
  | O_Uploaded nat upload_result
  | O_Content octets ustring ustring
  | O_Entries ustring ustring "(ustring \<times> entry_type \<times> nat \<times> ustring option) list"
  | O_Sites "(ustring \<times> ustring \<times> ustring \<times> nat \<times> nat) list"
  | O_Other

definition entry_line :: "file_entry \<Rightarrow> ustring \<times> entry_type \<times> nat \<times> ustring option" where
  "entry_line e = (fe_name e, fe_type e, fe_bytes e, fe_sha256 e)"

definition site_line :: "site_out \<Rightarrow> ustring \<times> ustring \<times> ustring \<times> nat \<times> nat" where
  "site_line s = (so_slug s, so_name s, so_url s, so_file_count s, so_bytes s)"

fun outlined :: "exn + response \<Rightarrow> outline" where
  "outlined (Inl e) = O_Error e"
| "outlined (Inr NoContent) = O_Done"
| "outlined (Inr (SiteResponse status s)) = O_Site status (so_slug s) (so_name s) (so_url s) (so_file_count s) (so_bytes s)"
| "outlined (Inr (Uploaded status r)) = O_Uploaded status r"
| "outlined (Inr (Content c t d)) = O_Content c t d"
| "outlined (Inr (Listing l)) =
     O_Entries (fl_site l) (fl_path l) (map entry_line (fl_entries l))"
| "outlined (Inr (SiteList sites)) = O_Sites (map site_line sites)"
| "outlined (Inr _) = O_Other"

lemma path_canonical: "validate_site_path raw False = Inr path \<Longrightarrow> canonical_path path"
  by (auto simp: validate_ok_iff split: if_splits)

lemma attachment_name:
  assumes "canonical_path path"
  obtains d where "attachment (path_name path) = Inr d"
  using canonical_name_encodes [OF assms] by (auto simp: attachment_def quote_def Let_def)

section \<open>Requests\<close>

text \<open>The requests of the site and file routes.\<close>

fun site_request :: "request \<Rightarrow> bool" where
  "site_request R_ListSites = True"
| "site_request (R_CreateSite _) = True"
| "site_request (R_GetSite _) = True"
| "site_request (R_DeleteSite _ _) = True"
| "site_request (R_ListFiles _ _) = True"
| "site_request (R_UploadFile _ _ _ _ _) = True"
| "site_request (R_DownloadFile _ _) = True"
| "site_request (R_DeleteFile _ _) = True"
| "site_request (R_DeleteFolder _ _ _) = True"
| "site_request _ = False"

text \<open>
  Nothing fails around the request, the client stays, and a declared length is the length of the
  body, as the HTTP server ensures.
\<close>

fun undisturbed :: "moment \<Rightarrow> request \<Rightarrow> bool" where
  "undisturbed mo (R_UploadFile slug path overwrite header body) \<longleftrightarrow>
     calm (mo_env mo) \<and> \<not> ub_broken body
     \<and> (declared_length header = None \<or> declared_length header = Some (int (length (concat (ub_chunks body)))))"
| "undisturbed mo rq \<longleftrightarrow> calm (mo_env mo)"

definition site_outline :: "site_rules \<Rightarrow> nat \<Rightarrow> ustring \<Rightarrow> site_view \<Rightarrow> outline" where
  "site_outline ru status slug v =
     O_Site status slug (sv_name v) (site_url (sr_url ru) slug) (card (files_below (sv_items v) [])) (total_below (sv_items v) [])"

definition spec_site_line :: "site_rules \<Rightarrow> sites_view \<Rightarrow> ustring \<Rightarrow> ustring \<times> ustring \<times> ustring \<times> nat \<times> nat" where
  "spec_site_line ru V slug =
     (case V slug of None \<Rightarrow> (slug, [], [], 0, 0)
      | Some v \<Rightarrow> (slug, sv_name v, site_url (sr_url ru) slug, card (files_below (sv_items v) []), total_below (sv_items v) []))"

text \<open>The entries directly in a folder: its folders by name, then its files by name.\<close>

definition spec_listing ::
  "site_rules \<Rightarrow> (ustring list \<Rightarrow> item) \<Rightarrow> ustring list \<Rightarrow> (ustring \<times> entry_type \<times> nat \<times> ustring option) list" where
  "spec_listing ru items q =
     map (\<lambda>n. (n, FOLDER, total_below items (q @ [n]), None)) (sorted_list_of_set {n. items (q @ [n]) = Is_Folder})
     @ map (\<lambda>n. case items (q @ [n]) of
          Is_File c \<Rightarrow> (n, FILE, length c, Some (sr_sha256 ru c)) | _ \<Rightarrow> (n, FILE, 0, None))
         (sorted_list_of_set {n. \<exists>c. items (q @ [n]) = Is_File c})"

lemma in_listing:
  assumes "line \<in> set (spec_listing ru items q)"
  shows "case line of (n, kind, bytes, sha) \<Rightarrow>
    (kind = FOLDER \<and> items (q @ [n]) = Is_Folder)
    \<or> (kind = FILE \<and> (\<exists>c. items (q @ [n]) = Is_File c \<and> bytes = length c \<and> sha = Some (sr_sha256 ru c)))"
proof -
  have s: "x \<in> set (sorted_list_of_set A) \<Longrightarrow> x \<in> A" for x and A :: "ustring set" by (cases "finite A") simp_all
  show ?thesis using assms by (auto simp: spec_listing_def dest!: s split: item.splits)
qed

text \<open>The folder a site starts with, and the tree after a write or a removal.\<close>

definition no_items :: "ustring list \<Rightarrow> item" where
  "no_items q = (if q = [] then Is_Folder else Absent)"

definition with_file :: "ustring list \<Rightarrow> octets \<Rightarrow> (ustring list \<Rightarrow> item) \<Rightarrow> ustring list \<Rightarrow> item" where
  "with_file target c items q =
     (if q = target then Is_File c
      else if strict_prefix q target \<and> items q = Absent then Is_Folder else items q)"

definition without :: "ustring list \<Rightarrow> (ustring list \<Rightarrow> item) \<Rightarrow> ustring list \<Rightarrow> item" where
  "without target items q = (if prefix target q then Absent else items q)"

text \<open>The site and the location a file request is about.\<close>

definition spec_target :: "sites_view \<Rightarrow> ustring \<Rightarrow> ustring \<Rightarrow> exn + site_view \<times> ustring" where
  "spec_target V slug raw =
     (case V slug of None \<Rightarrow> Inl not_found
      | Some v \<Rightarrow> (case valid_path raw False of Inl e \<Rightarrow> Inl e | Inr path \<Rightarrow> Inr (v, path)))"

definition spec_upload :: "site_rules \<Rightarrow> (ustring list \<Rightarrow> item) \<Rightarrow> ustring list \<Rightarrow> bool \<Rightarrow> octets \<Rightarrow> exn + bool" where
  "spec_upload ru items target overwrite c =
     (if length c > sr_cap ru then Inl (ApiError 413 PAYLOAD_TOO_LARGE)
      else if \<exists>q. strict_prefix q target \<and> (\<exists>c'. items q = Is_File c') then Inl (ApiError 409 NOT_A_FOLDER)
      else case items target of
             Is_Folder \<Rightarrow> Inl (ApiError 409 NOT_A_FILE)
           | Is_File c' \<Rightarrow> if overwrite then Inr True else Inl (ApiError 409 FILE_EXISTS)
           | Absent \<Rightarrow> Inr False)"

fun spec :: "site_rules \<Rightarrow> request \<Rightarrow> sites_view \<Rightarrow> outline \<times> sites_view" where
  "spec ru R_ListSites V = (O_Sites (map (spec_site_line ru V) (sorted_list_of_set (dom V))), V)"
| "spec ru (R_ListFiles slug raw) V =
     (case V slug of None \<Rightarrow> O_Error not_found
      | Some v \<Rightarrow>
          (case valid_path raw True of Inl e \<Rightarrow> O_Error e
           | Inr folder \<Rightarrow>
               (case sv_items v (segments_of folder) of
                  Is_File c \<Rightarrow> O_Error (ApiError 409 NOT_A_FOLDER)
                | Absent \<Rightarrow> O_Error not_found
                | Is_Folder \<Rightarrow> O_Entries slug folder (spec_listing ru (sv_items v) (segments_of folder)))),
      V)"
| "spec ru (R_CreateSite name) V =
     (case slug_from_name (sr_nfkd ru) name of Inl e \<Rightarrow> (O_Error (ApiError 400 INVALID_NAME), V)
      | Inr slug \<Rightarrow>
          if V slug \<noteq> None then (O_Error (ApiError 409 SITE_EXISTS), V)
          else let v = \<lparr>sv_name = strip is_space name, sv_items = no_items\<rparr>
            in (site_outline ru 201 slug v, V(slug \<mapsto> v)))"
| "spec ru (R_GetSite slug) V =
     (case V slug of None \<Rightarrow> O_Error not_found | Some v \<Rightarrow> site_outline ru 200 slug v, V)"
| "spec ru (R_DeleteSite slug confirm) V =
     (case V slug of None \<Rightarrow> (O_Error not_found, V)
      | Some v \<Rightarrow> if confirm \<noteq> Some slug then (O_Error (ApiError 400 CONFIRM_MISMATCH), V)
                 else (O_Done, V(slug := None)))"
| "spec ru (R_UploadFile slug raw overwrite header body) V =
     (case spec_target V slug raw of Inl e \<Rightarrow> (O_Error e, V)
      | Inr (v, path) \<Rightarrow>
          let c = concat (ub_chunks body); target = segments_of path in
          (case spec_upload ru (sv_items v) target overwrite c of Inl e \<Rightarrow> (O_Error e, V)
           | Inr replaced \<Rightarrow>
               (O_Uploaded (if replaced then 200 else 201)
                  \<lparr>ur_path = path, ur_bytes = length c, ur_sha256 = sr_sha256 ru c, ur_replaced = replaced\<rparr>,
                V(slug \<mapsto> v\<lparr>sv_items := with_file target c (sv_items v)\<rparr>))))"
| "spec ru (R_DownloadFile slug raw) V =
     (case spec_target V slug raw of Inl e \<Rightarrow> O_Error e
      | Inr (v, path) \<Rightarrow>
          (case sv_items v (segments_of path) of
             Is_Folder \<Rightarrow> O_Error (ApiError 409 NOT_A_FILE)
           | Absent \<Rightarrow> O_Error not_found
           | Is_File c \<Rightarrow>
               (case attachment (path_name path) of Inl e \<Rightarrow> O_Error e
                | Inr d \<Rightarrow> O_Content c (case sr_mime ru path of None \<Rightarrow> lit ''application/octet-stream'' | Some t \<Rightarrow> t) d)),
      V)"
| "spec ru (R_DeleteFile slug raw) V =
     (case spec_target V slug raw of Inl e \<Rightarrow> (O_Error e, V)
      | Inr (v, path) \<Rightarrow>
          (case sv_items v (segments_of path) of
             Is_Folder \<Rightarrow> (O_Error (ApiError 409 NOT_A_FILE), V)
           | Absent \<Rightarrow> (O_Error not_found, V)
           | Is_File c \<Rightarrow> (O_Done, V(slug \<mapsto> v\<lparr>sv_items := without (segments_of path) (sv_items v)\<rparr>))))"
| "spec ru (R_DeleteFolder slug raw recursive) V =
     (case spec_target V slug raw of Inl e \<Rightarrow> (O_Error e, V)
      | Inr (v, path) \<Rightarrow>
          let target = segments_of path in
          (case sv_items v target of
             Is_File c \<Rightarrow> (O_Error (ApiError 409 NOT_A_FOLDER), V)
           | Absent \<Rightarrow> (O_Error not_found, V)
           | Is_Folder \<Rightarrow>
               if (\<exists>q. strict_prefix target q \<and> sv_items v q \<noteq> Absent) \<and> \<not> recursive
               then (O_Error (ApiError 409 FOLDER_NOT_EMPTY), V)
               else (O_Done, V(slug \<mapsto> v\<lparr>sv_items := without target (sv_items v)\<rparr>))))"
| "spec ru _ V = (O_Other, V)"

text \<open>A run of requests: the answers in order, and the sites at the end.\<close>

fun spec_run :: "site_rules \<Rightarrow> request list \<Rightarrow> sites_view \<Rightarrow> outline list \<times> sites_view" where
  "spec_run ru [] V = ([], V)"
| "spec_run ru (rq # rqs) V =
     (let (a, V') = spec ru rq V; (as, V'') = spec_run ru rqs V' in (a # as, V''))"

fun run_all :: "('m \<Rightarrow> request \<Rightarrow> 's \<Rightarrow> (exn + response) \<times> 's) \<Rightarrow> ('m \<times> request) list \<Rightarrow> 's \<Rightarrow> outline list \<times> 's" where
  "run_all run [] s = ([], s)"
| "run_all run ((m, rq) # rest) s =
     (let (a, s') = run m rq s; (as, s'') = run_all run rest s' in (outlined a # as, s''))"

section \<open>The interface\<close>

locale site_store =
  fixes rules :: site_rules
    and ok :: "'s \<Rightarrow> bool"
    and view :: "'s \<Rightarrow> sites_view"
    and run :: "moment \<Rightarrow> request \<Rightarrow> 's \<Rightarrow> (exn + response) \<times> 's"
  assumes keeps: "ok s \<Longrightarrow> site_request rq \<Longrightarrow> undisturbed m rq \<Longrightarrow> run m rq s = (a, s') \<Longrightarrow> ok s'"
    and answers: "ok s \<Longrightarrow> site_request rq \<Longrightarrow> undisturbed m rq \<Longrightarrow> run m rq s = (a, s') \<Longrightarrow>
      outlined a = fst (spec rules rq (view s))"
    and moves: "ok s \<Longrightarrow> site_request rq \<Longrightarrow> undisturbed m rq \<Longrightarrow> run m rq s = (a, s') \<Longrightarrow>
      view s' = snd (spec rules rq (view s))"
    and located: "ok s \<Longrightarrow> view s slug = Some v \<Longrightarrow> q \<noteq> [] \<Longrightarrow> sv_items v q \<noteq> Absent \<Longrightarrow> good_path q"
begin

lemma run_all_spec:
  "ok s \<Longrightarrow> \<forall>(m, rq)\<in>set rqs. site_request rq \<and> undisturbed m rq \<Longrightarrow>
     fst (run_all run rqs s) = fst (spec_run rules (map snd rqs) (view s))
     \<and> view (snd (run_all run rqs s)) = snd (spec_run rules (map snd rqs) (view s))
     \<and> ok (snd (run_all run rqs s))"
proof (induction rqs arbitrary: s)
  case (Cons x rqs)
  obtain m rq where x: "x = (m, rq)" by fastforce
  obtain a s' where r: "run m rq s = (a, s')" by fastforce
  have rq: "site_request rq" "undisturbed m rq" using Cons.prems(2) x by auto
  note law = keeps [OF Cons.prems(1) rq r] answers [OF Cons.prems(1) rq r] moves [OF Cons.prems(1) rq r]
  from Cons.IH [OF law(1)] Cons.prems(2) law(2,3) show ?case
    by (auto simp: x r Let_def split: prod.split)
qed simp

text \<open>What was uploaded is what is downloaded.\<close>

lemma upload_then_download:
  assumes "ok s" "undisturbed m (R_UploadFile slug raw overwrite header body)" "calm (mo_env m')"
    "run m (R_UploadFile slug raw overwrite header body) s = (Inr (Uploaded status r), s')"
    "run m' (R_DownloadFile slug raw) s' = (a, s'')"
  shows "\<exists>t d. outlined a = O_Content (concat (ub_chunks body)) t d"
proof -
  let ?up = "R_UploadFile slug raw overwrite header body" and ?c = "concat (ub_chunks body)"
  have ok': "ok s'" and up: "O_Uploaded status r = fst (spec rules ?up (view s))"
    and v': "view s' = snd (spec rules ?up (view s))"
    using keeps [OF assms(1) _ assms(2,4)] answers [OF assms(1) _ assms(2,4)] moves [OF assms(1) _ assms(2,4)] by auto
  from up obtain v path where t: "view s slug = Some v" "valid_path raw False = Inr path"
    "view s' = (view s)(slug \<mapsto> v\<lparr>sv_items := with_file (segments_of path) ?c (sv_items v)\<rparr>)"
    using v' by (auto simp: spec_target_def Let_def split: option.splits sum.splits prod.splits if_splits)
  have "outlined a = fst (spec rules (R_DownloadFile slug raw) (view s'))"
    using answers [OF ok' _ _ assms(5)] assms(3) by simp
  moreover have "canonical_path path" using t(2) by (auto simp: valid_path_def intro: path_canonical split: sum.splits)
  then obtain d where "attachment (path_name path) = Inr d" by (rule attachment_name)
  ultimately show ?thesis
    unfolding t(3) using t(2) by (simp add: spec_target_def with_file_def)
qed

text \<open>
  What a listing shows is what the other requests find: a file at its path, with the length and the digest
  shown, a folder that can be listed in turn.
\<close>

lemma listed_is_there:
  assumes "ok s" "calm (mo_env m)" "calm (mo_env m')"
    "run m (R_ListFiles slug raw) s = (Inr (Listing l), s')" "e \<in> set (fl_entries l)"
  defines "path \<equiv> join_name (fl_path l) (fe_name e)"
  shows "fe_type e = FILE \<Longrightarrow> run m' (R_DownloadFile slug path) s' = (a, s'') \<Longrightarrow>
      \<exists>c t d. outlined a = O_Content c t d \<and> fe_bytes e = length c \<and> fe_sha256 e = Some (sr_sha256 rules c)"
    and "fe_type e = FOLDER \<Longrightarrow> run m' (R_ListFiles slug path) s' = (a, s'') \<Longrightarrow>
      \<exists>lines. outlined a = O_Entries slug path lines"
proof -
  have same: "ok s'" "view s' = view s" and
    l: "outlined (Inr (Listing l)) = fst (spec rules (R_ListFiles slug raw) (view s))"
    using keeps [OF assms(1) _ _ assms(4)] moves [OF assms(1) _ _ assms(4)] answers [OF assms(1) _ _ assms(4)] assms(2) by simp_all
  obtain v folder where v: "view s slug = Some v" "valid_path raw True = Inr folder" "fl_path l = folder"
    "map entry_line (fl_entries l) = spec_listing rules (sv_items v) (segments_of folder)"
    using l by (auto split: option.splits sum.splits item.splits)
  have "entry_line e \<in> set (spec_listing rules (sv_items v) (segments_of folder))"
    using assms(5) v(4) by (metis image_eqI list.set_map)
  note line = in_listing [OF this, unfolded entry_line_def prod.case]
  have "sv_items v (segments_of folder @ [fe_name e]) \<noteq> Absent" using line by auto
  then have good: "good_path (segments_of folder @ [fe_name e])" using located [OF assms(1) v(1)] by blast
  note p = join_child [OF good, folded v(3), folded path_def]
  obtain d where d: "attachment (path_name path) = Inr d" using p(2) by (rule attachment_name)
  show "\<exists>c t d. outlined a = O_Content c t d \<and> fe_bytes e = length c \<and> fe_sha256 e = Some (sr_sha256 rules c)"
    if "fe_type e = FILE" "run m' (R_DownloadFile slug path) s' = (a, s'')"
    using answers [OF same(1) _ _ that(2)] assms(3) line that(1) v(1) p(2,3) same(2)
    by (auto simp: spec_target_def valid_path_canonical d v(3))
  show "\<exists>lines. outlined a = O_Entries slug path lines"
    if "fe_type e = FOLDER" "run m' (R_ListFiles slug path) s' = (a, s'')"
    using answers [OF same(1) _ _ that(2)] assms(3) line that(1) v(1) p(2,3) same(2)
    by (auto simp: valid_path_canonical v(3))
qed

text \<open>A request about one site leaves the others alone.\<close>

lemma other_sites_untouched:
  assumes "ok s" "undisturbed m rq" "run m rq s = (a, s')"
    "rq \<in> {R_GetSite slug, R_ListFiles slug raw, R_DeleteSite slug confirm, R_UploadFile slug raw overwrite header body,
       R_DownloadFile slug raw, R_DeleteFile slug raw, R_DeleteFolder slug raw recursive}" "slug' \<noteq> slug"
  shows "view s' slug' = view s slug'"
proof -
  have "site_request rq" using assms(4) by auto
  from moves [OF assms(1) this assms(2,3)] assms(4,5) show ?thesis
    by (auto simp: Let_def split: option.splits sum.splits item.splits)
qed

end

text \<open>Two stores that show the same sites cannot be told apart by any run of requests.\<close>

locale two_stores =
  one: site_store rules ok1 view1 run1 + two: site_store rules ok2 view2 run2
  for rules :: site_rules and ok1 :: "'s \<Rightarrow> bool" and view1 run1 and ok2 :: "'t \<Rightarrow> bool" and view2 run2
begin

lemma indistinguishable:
  assumes "ok1 s" "ok2 t" "view1 s = view2 t" "map snd rqs = map snd rqs'"
    "\<forall>(m, rq)\<in>set rqs. site_request rq \<and> undisturbed m rq"
    "\<forall>(m, rq)\<in>set rqs'. site_request rq \<and> undisturbed m rq"
  shows "fst (run_all run1 rqs s) = fst (run_all run2 rqs' t)
    \<and> view1 (snd (run_all run1 rqs s)) = view2 (snd (run_all run2 rqs' t))"
  using one.run_all_spec [OF assms(1,5)] two.run_all_spec [OF assms(2,6)] assms(3,4) by simp

end

end
