(* ===== verification/Real_Store.thy ===== *)
theory Real_Store
  imports Site_Contract Requests
begin

text \<open>
  The real backend as a site store: the invariant that ties its three parts together (the rows of
  the sites, the served tree and the file index), the view of the sites it shows, and the proof that
  its site and file routes keep the invariant and answer as the contract says.
\<close>

section \<open>Paths as segments\<close>

lemma below_iff:
  assumes "folder \<noteq> []"
  shows "below folder p \<longleftrightarrow> strict_prefix (segments_of folder) (segments_of p)"
proof
  assume "below folder p"
  then have "take (length (folder @ [slash])) p = folder @ [slash]"
    using assms by (simp add: below_def Let_def)
  then obtain r where r: "p = folder @ slash # r"
    by (metis append_take_drop_id append_assoc append_Cons append_Nil)
  then show "strict_prefix (segments_of folder) (segments_of p)"
    using assms by (simp add: segments_of_def split_append_sep strict_prefix_def)
next
  assume "strict_prefix (segments_of folder) (segments_of p)"
  then obtain x xs where "segments_of p = segments_of folder @ x # xs" by (metis strict_prefixE')
  then have "p = join_on slash (segments_of folder @ x # xs)" by (metis join_segments_of)
  also have "\<dots> = folder @ slash # join_on slash (x # xs)"
    using assms by (subst join_on_append) (auto simp: segments_of_def)
  finally show "below folder p" by (simp add: below_def Let_def)
qed

lemma below_root: "below [] p"
  by (simp add: below_def)

section \<open>The invariant\<close>

fun item_of :: "what \<Rightarrow> item" where
  "item_of Missing = Absent"
| "item_of (A_File c m) = Is_File c"
| "item_of A_Folder = Is_Folder"
| "item_of Odd = Absent"

definition index_row :: "storage \<Rightarrow> ustring \<Rightarrow> ustring \<Rightarrow> what \<Rightarrow> file_row option" where
  "index_row sg slug path w =
     (case w of A_File c m \<Rightarrow> Some \<lparr>f_site = slug, f_path = path, f_bytes = length c, f_mtime_ns = m,
                                  f_sha256 = sg_sha256 sg c\<rparr>
      | _ \<Rightarrow> None)"

lemma index_row_Some:
  "index_row sg slug path w = Some r \<longleftrightarrow> (\<exists>c m. w = A_File c m \<and> f_site r = slug \<and> f_path r = path
     \<and> f_bytes r = length c \<and> f_mtime_ns r = m \<and> f_sha256 r = sg_sha256 sg c)"
  by (cases r) (auto simp: index_row_def split: what.split)

text \<open>
  A site has a row exactly when it has a folder, its slug is valid, every entry below it is at a
  canonical path, and the index has exactly one row for each file, with its size, time and digest.
  No upload is in progress: the staging area is empty.
\<close>

definition volume_ok :: "storage \<Rightarrow> state \<Rightarrow> bool" where
  "volume_ok sg st \<longleftrightarrow>
     db_ok (st_db st) \<and> tidy (st_sites st) \<and> what_at (st_sites st) [] = A_Folder
     \<and> (\<exists>m. st_staging st = Folder [] m)
     \<and> (\<forall>slug. what_at (st_sites st) [slug] = (if site_by_slug (st_db st) slug = None then Missing else A_Folder))
     \<and> (\<forall>slug. site_by_slug (st_db st) slug \<noteq> None \<longrightarrow> validate_slug slug = Inr slug)
     \<and> (\<forall>slug q. q \<noteq> [] \<longrightarrow> what_at (st_sites st) (slug # q) \<noteq> Missing \<longrightarrow> good_path q)
     \<and> (\<forall>slug path. file_row_at (st_db st) slug path =
          index_row sg slug path (what_at (st_sites st) (slug # segments_of path)))"

lemma volume_okD:
  assumes "volume_ok sg st"
  shows "db_ok (st_db st)" "tidy (st_sites st)" "what_at (st_sites st) [] = A_Folder"
    "what_at (st_staging st) [] = A_Folder" "what_at (st_staging st) (x # p) = Missing"
    "what_at (st_sites st) [slug] = (if site_by_slug (st_db st) slug = None then Missing else A_Folder)"
    "site_by_slug (st_db st) slug \<noteq> None \<Longrightarrow> validate_slug slug = Inr slug"
    "q \<noteq> [] \<Longrightarrow> what_at (st_sites st) (slug # q) \<noteq> Missing \<Longrightarrow> good_path q"
    "file_row_at (st_db st) slug path = index_row sg slug path (what_at (st_sites st) (slug # segments_of path))"
  using assms by (auto simp: volume_ok_def what_at_Cons)

lemma volume_not_odd: "volume_ok sg st \<Longrightarrow> what_at (st_sites st) q \<noteq> Odd"
  using tidy_not_odd volume_okD(2) by blast

definition backend_view :: "state \<Rightarrow> sites_view" where
  "backend_view st slug =
     map_option (\<lambda>s. \<lparr>sv_name = s_name s, sv_items = (\<lambda>q. item_of (what_at (st_sites st) (slug # q)))\<rparr>)
       (site_by_slug (st_db st) slug)"

definition rules_of :: "backend \<Rightarrow> site_rules" where
  "rules_of bk = \<lparr>sr_cap = sg_max_upload_bytes (bk_storage bk), sr_sha256 = sg_sha256 (bk_storage bk),
     sr_nfkd = bk_nfkd bk, sr_mime = bk_mime bk, sr_url = bk_public_sites_url bk\<rparr>"

lemma item_of_simps [simp]:
  "item_of w = Is_Folder \<longleftrightarrow> w = A_Folder" "item_of w = Is_File c \<longleftrightarrow> (\<exists>m. w = A_File c m)"
  by (cases w; auto)+

section \<open>Totals from the index\<close>

text \<open>
  The rows below a folder are the files below it: the index's count and size of a folder are those
  of its tree.
\<close>

lemma totals_below:
  fixes slug
  assumes "volume_ok sg st"
  defines "items \<equiv> \<lambda>q. item_of (what_at (st_sites st) (slug # q))"
  shows "tt_file_count (folder_totals (st_db st) slug folder) = card (files_below items (segments_of folder))"
    and "tt_bytes (folder_totals (st_db st) slug folder) = total_below items (segments_of folder)"
proof -
  let ?rows = "filter (\<lambda>f. f_site f = slug \<and> below folder (f_path f)) (db_files (st_db st))"
  let ?g = "\<lambda>r. segments_of (f_path r)"
  note ok = volume_okD [OF assms(1)]
  have dist: "distinct (map file_key (db_files (st_db st)))" using ok(1) by (rule db_okD)
  have row: "r \<in> set (db_files (st_db st)) \<and> f_site r = slug \<longleftrightarrow> file_row_at (st_db st) slug (f_path r) = Some r" for r
    using row_with_iff [OF dist, of "(slug, f_path r)" r] by (auto simp: file_row_at_def)
  have found: "file_row_at (st_db st) slug (f_path r) = Some r" if "r \<in> set ?rows" for r
    using that unfolding row [symmetric] by simp
  have size: "\<exists>c. items (?g r) = Is_File c \<and> f_bytes r = length c" if "r \<in> set ?rows" for r
    using found [OF that] unfolding ok(9) by (auto simp: items_def index_row_Some)
  have below: "below folder p \<longleftrightarrow> strict_prefix (segments_of folder) (segments_of p)" if "segments_of p \<noteq> []" for p
    using below_iff [of folder p] below_root [of p] that by (cases "folder = []") (auto simp: segments_of_def [of "[]"] strict_prefix_def)
  have "inj_on ?g (set ?rows)"
  proof (rule inj_onI)
    fix r r' assume r: "r \<in> set ?rows" "r' \<in> set ?rows" "?g r = ?g r'"
    have "f_path r = f_path r'" using r(3) by (rule segments_inj)
    then have "Some r = Some r'" using found [OF r(1)] found [OF r(2)] by metis
    then show "r = r'" by simp
  qed
  moreover have "?g ` set ?rows = files_below items (segments_of folder)"
  proof (intro set_eqI iffI)
    fix q assume "q \<in> ?g ` set ?rows"
    then obtain r where r: "r \<in> set ?rows" "q = ?g r" by blast
    with size obtain c where c: "items q = Is_File c" by blast
    have "q \<noteq> []" using c ok(6) [of slug] by (auto simp: items_def split: if_splits)
    then show "q \<in> files_below items (segments_of folder)"
      using below [of "f_path r"] r c by (auto simp: files_below_def)
  next
    fix q assume q: "q \<in> files_below items (segments_of folder)"
    then obtain c m where c: "what_at (st_sites st) (slug # q) = A_File c m" "strict_prefix (segments_of folder) q"
      by (auto simp: files_below_def items_def)
    then have "q \<noteq> []" by auto
    then have seg: "segments_of (join_on slash q) = q" using ok(8) [of q slug] c(1) by (simp add: good_path_def)
    obtain r where r: "file_row_at (st_db st) slug (join_on slash q) = Some r" "f_path r = join_on slash q"
      using ok(9) [of slug "join_on slash q"] c(1) by (auto simp: seg index_row_def)
    then have "r \<in> set (db_files (st_db st)) \<and> f_site r = slug" unfolding row by simp
    then have "r \<in> set ?rows" "?g r = q"
      using below [of "join_on slash q"] c(2) seg \<open>q \<noteq> []\<close> r(2) by simp_all
    then show "q \<in> ?g ` set ?rows" by blast
  qed
  ultimately have bij: "bij_betw ?g (set ?rows) (files_below items (segments_of folder))" by (simp add: bij_betw_def)
  have "distinct ?rows" using dist by (simp add: distinct_map)
  then show "tt_file_count (folder_totals (st_db st) slug folder) = card (files_below items (segments_of folder))"
    using bij_betw_same_card [OF bij] distinct_card [OF \<open>distinct ?rows\<close>]
    by (simp only: folder_totals_def Let_def totals.simps)
  have "sum_list (map f_bytes ?rows) = (\<Sum>r\<in>set ?rows. f_bytes r)"
    using \<open>distinct ?rows\<close> by (rule sum_list_distinct_conv_sum_set)
  also have "\<dots> = (\<Sum>r\<in>set ?rows. item_size (items (?g r)))"
  proof (rule sum.cong)
    fix r assume "r \<in> set ?rows"
    from size [OF this] obtain c where "items (?g r) = Is_File c" "f_bytes r = length c" by blast
    then show "f_bytes r = item_size (items (?g r))" by simp
  qed simp
  also have "\<dots> = total_below items (segments_of folder)"
    unfolding total_below_def by (rule sum.reindex_bij_betw [OF bij])
  finally show "tt_bytes (folder_totals (st_db st) slug folder) = total_below items (segments_of folder)"
    by (simp add: folder_totals_def Let_def)
qed

lemma site_answer:
  assumes "volume_ok (bk_storage bk) st" "site_by_slug (st_db st) slug = Some s"
  shows "outlined (Inr (SiteResponse n (public_site bk (st_db st) s))) =
     site_outline (rules_of bk) n slug (the (backend_view st slug))"
proof -
  have "s_slug s = slug" using assms(2) by (auto simp: site_by_slug_def dest!: row_with_SomeD)
  then show ?thesis
    using totals_below [OF assms(1), of slug "[]"] assms(2)
    by (simp add: public_site_def site_totals_def site_outline_def rules_of_def backend_view_def Let_def segments_of_def)
qed

section \<open>Finding the target of a request\<close>

lemma find_site_ok:
  assumes "volume_ok sg st"
  shows "find_site st slug = (case site_by_slug (st_db st) slug of None \<Rightarrow> Inl not_found | Some s \<Rightarrow> Inr s)"
  using volume_okD(7) [OF assms, of slug]
  by (auto simp: find_site_def split: option.splits sum.splits)

lemma site_slug: "site_by_slug db slug = Some s \<Longrightarrow> s_slug s = slug"
  by (auto simp: site_by_slug_def dest!: row_with_SomeD)

lemma backend_view_None: "backend_view st slug = None \<longleftrightarrow> site_by_slug (st_db st) slug = None"
  by (simp add: backend_view_def)

lemma target_ok:
  assumes "volume_ok sg st"
  shows "site_and_path st slug raw False =
     (case spec_target (backend_view st) slug raw of Inl e \<Rightarrow> Inl e | Inr (v, path) \<Rightarrow> Inr (slug, path))"
  by (auto simp: site_and_path_def find_site_ok [OF assms] spec_target_def backend_view_def dest: site_slug
      split: option.split sum.split)

lemma spec_target_ok:
  assumes "spec_target V slug raw = Inr (v, path)"
  shows "V slug = Some v" "canonical_path path"
  using assms path_not_root
  by (auto simp: spec_target_def valid_path_def split: option.splits sum.splits)

text \<open>A change below one site, seen from outside.\<close>

lemma backend_view_update:
  assumes "db_sites (st_db st') = db_sites (st_db st)" "backend_view st slug = Some v"
    "\<And>q. item_of (what_at (st_sites st') (slug # q)) = items q"
    "\<And>s q. s \<noteq> slug \<Longrightarrow> what_at (st_sites st') (s # q) = what_at (st_sites st) (s # q)"
  shows "backend_view st' = (backend_view st)(slug \<mapsto> v\<lparr>sv_items := items\<rparr>)"
proof
  fix s
  have "site_by_slug (st_db st') s = site_by_slug (st_db st) s" using assms(1) by (simp add: site_by_slug_def)
  then show "backend_view st' s = ((backend_view st)(slug \<mapsto> v\<lparr>sv_items := items\<rparr>)) s"
    using assms(2-4) by (cases "s = slug") (auto simp: backend_view_def)
qed

lemma backend_view_same:
  assumes "db_sites (st_db st') = db_sites (st_db st)" "\<And>q. what_at (st_sites st') q = what_at (st_sites st) q"
  shows "backend_view st' = backend_view st"
  by (auto simp: fun_eq_iff backend_view_def site_by_slug_def assms)

lemma volume_ok_same:
  assumes "volume_ok sg st" "st_db st' = st_db st" "st_sites st' = st_sites st" "\<exists>m. st_staging st' = Folder [] m"
  shows "volume_ok sg st'"
  using assms by (simp add: volume_ok_def)

section \<open>Creating and deleting sites\<close>

lemma valid_slug: "slug_from_name nfkd name = Inr slug \<Longrightarrow> validate_slug slug = Inr slug"
  using slug_from_name_proper [of nfkd name slug] by (simp add: proper_slug_def validate_slug_def SLUG_RE_match_def)

lemma create_site_ok:
  assumes "volume_ok (bk_storage bk) st" "calm (mo_env mo)" "create_site_route bk mo name st = (r, st')"
  shows "volume_ok (bk_storage bk) st' \<and> outlined r = fst (spec (rules_of bk) (R_CreateSite name) (backend_view st))
    \<and> backend_view st' = snd (spec (rules_of bk) (R_CreateSite name) (backend_view st))"
proof (cases "slug_from_name (bk_nfkd bk) name")
  case (Inl e)
  then show ?thesis using assms by (auto simp: create_site_route_def rules_of_def)
next
  case slug: (Inr slug)
  note ok = volume_okD [OF assms(1)]
  obtain r1 st1 where c: "create_site (mo_env mo) slug (strip is_space name) (mo_now mo) st = (r1, st1)" by fastforce
  note eff = create_site_effect [OF ok(3) c]
  show ?thesis
  proof (cases "site_by_slug (st_db st) slug")
    case (Some s)
    then have "r1 = Inl (ApiError 409 SITE_EXISTS)" "st1 = st" using c by (auto simp: create_site_def)
    then show ?thesis using assms slug c Some by (auto simp: create_site_route_def rules_of_def backend_view_def)
  next
    case None
    then have free: "what_at (st_sites st) [slug] = Missing" using ok(6) [of slug] by simp
    let ?site = "\<lparr>s_slug = slug, s_name = strip is_space name, s_created_at = mo_now mo\<rparr>"
    obtain site where r1: "r1 = Inr site"
      using eff assms(2) None free by (cases r1) auto
    then have e: "site = ?site"
      "\<And>q. what_at (st_sites st1) q = (if q = [slug] then A_Folder else what_at (st_sites st) q)"
      "\<And>s. site_by_slug (st_db st1) s = (if s = slug then Some site else site_by_slug (st_db st) s)"
      "db_files (st_db st1) = db_files (st_db st)" "st_staging st1 = st_staging st"
      using eff by auto
    have "insert_site (st_db st) ?site = Inr (st_db st1)" "st_sites st1 = mkdirs (ev_now (mo_env mo)) [slug] (st_sites st)"
      using c r1 by (auto simp: create_site_def Let_def split: if_splits option.splits sum.splits)
    then have db: "db_ok (st_db st1)" "tidy (st_sites st1)" using ok(1,2) insert_site_ok tidy_mkdirs by auto
    have below: "what_at (st_sites st) (slug # q) = Missing" for q
      using below_missing [OF free] by simp
    have "volume_ok (bk_storage bk) st1"
      using assms(1) db e(2-5) e(2) [of "[]"] valid_slug [OF slug] below
      by (auto simp: volume_ok_def file_row_at_def segments_of_def index_row_def split: if_splits)
    moreover have "st' = st1" "r = Inr (SiteResponse 201 (public_site bk (st_db st1) site))"
      using assms(3) slug c r1 by (auto simp: create_site_route_def)
    moreover have v: "backend_view st1 = (backend_view st)(slug \<mapsto> \<lparr>sv_name = strip is_space name, sv_items = no_items\<rparr>)"
      using e(1-3) below by (auto simp: fun_eq_iff backend_view_def no_items_def)
    ultimately show ?thesis
      using site_answer [of bk st1 slug site 201] e(3) slug None
      by (simp add: rules_of_def backend_view_None Let_def)
  qed
qed

lemma delete_site_ok:
  assumes "volume_ok sg st" "calm (mo_env mo)" "delete_site_route mo slug confirm st = (r, st')"
  shows "volume_ok sg st' \<and> outlined r = fst (spec ru (R_DeleteSite slug confirm) (backend_view st))
    \<and> backend_view st' = snd (spec ru (R_DeleteSite slug confirm) (backend_view st))"
proof (cases "site_by_slug (st_db st) slug")
  case None
  then show ?thesis using assms by (auto simp: delete_site_route_def find_site_ok [OF assms(1)] backend_view_def)
next
  case (Some s)
  show ?thesis
  proof (cases "confirm = Some slug")
    case False
    then show ?thesis using assms Some site_slug [OF Some]
      by (auto simp: delete_site_route_def find_site_ok [OF assms(1)] backend_view_def)
  next
    case True
    note ok = volume_okD [OF assms(1)]
    obtain root where root: "lookup (st_sites st) [slug] = Some root"
      using ok(6) [of slug] Some what_at_lookup [of "st_sites st" "[slug]"] by auto
    obtain m where m: "st_staging st = Folder [] m" using assms(1) by (auto simp: volume_ok_def)
    obtain r1 st1 where d: "delete_site (mo_env mo) slug st = (r1, st1)" by fastforce
    then have r1: "r1 = Inr ()" "st_db st1 = snd (delete_site_row (st_db st) slug)"
      "st_sites st1 = remove_at (ev_now (mo_env mo)) [slug] (st_sites st)" "\<exists>m. st_staging st1 = Folder [] m"
      using assms(2) root m ok(5) by (auto simp: delete_site_def calm_def Let_def)
    have e: "what_at (st_sites st1) q = (if prefix [slug] q then Missing else what_at (st_sites st) q)"
      "site_by_slug (st_db st1) s = (if s = slug then None else site_by_slug (st_db st) s)"
      "file_row_at (st_db st1) s p = (if s = slug then None else file_row_at (st_db st) s p)" for q s p
      using delete_site_effect [OF ok(1,4) d [unfolded r1(1)]] by auto
    have "db_ok (st_db st1)" "tidy (st_sites st1)" using ok(1,2) delete_site_row_ok tidy_remove r1(2,3) by auto
    then have "volume_ok sg st1"
      using assms(1) e(1) [of "[]"] e r1(4) by (auto simp: volume_ok_def index_row_def split: if_splits)
    moreover have "backend_view st1 = (backend_view st)(slug := None)"
      using e by (auto simp: fun_eq_iff backend_view_def)
    moreover have "r = Inr NoContent" "st' = st1"
      using assms(3) Some True d r1(1) site_slug [OF Some]
      by (auto simp: delete_site_route_def find_site_ok [OF assms(1)])
    ultimately show ?thesis using Some True by (simp add: backend_view_def)
  qed
qed

section \<open>Uploads\<close>

lemma check_write_spec:
  assumes "\<And>q. what_at sites q \<noteq> Odd" "what_at sites [slug] = A_Folder" "p \<noteq> []" "length c \<le> sr_cap ru"
  shows "check_write_target sites slug p overwrite = spec_upload ru (\<lambda>q. item_of (what_at sites (slug # q))) p overwrite c"
proof -
  let ?file = "\<lambda>q. \<exists>c m. what_at sites (slug # q) = A_File c m"
  have kind: "kind_of sites q = (case what_at sites q of Missing \<Rightarrow> K_MISSING | A_File c m \<Rightarrow> K_FILE | _ \<Rightarrow> K_FOLDER)" for q
    using assms(1) [of q] by (auto simp: kind_of_def split: what.split)
  have parents: "check_parents sites slug qs = (if \<exists>q\<in>set qs. ?file q then Some (ApiError 409 NOT_A_FOLDER) else None)" for qs
    by (induction qs) (auto simp: kind split: what.split)
  have "(\<exists>q\<in>set (parents p). ?file q) \<longleftrightarrow> (\<exists>q. strict_prefix q p \<and> ?file q)"
  proof -
    have "?file q \<Longrightarrow> q \<noteq> []" for q using assms(2) by auto
    then show ?thesis by (auto simp: set_parents Bex_def)
  qed
  then show ?thesis
    using assms(1) [of "slug # p"] assms(4)
    by (auto simp: check_write_target_def spec_upload_def parents kind split: what.split item.split)
qed

lemma spec_upload_ok:
  "spec_upload ru items p overwrite c = Inr replaced \<Longrightarrow>
     length c \<le> sr_cap ru \<and> replaced = (\<exists>c'. items p = Is_File c')"
  by (auto simp: spec_upload_def split: if_splits item.splits)

lemma not_blocked_target:
  assumes "volume_ok sg st" "what_at (st_sites st) [slug] = A_Folder" "p \<noteq> []"
    "spec_upload ru (\<lambda>q. item_of (what_at (st_sites st) (slug # q))) p overwrite c = Inr replaced"
  shows "\<not> blocked (butlast (slug # p)) (st_sites st)"
proof
  assume "blocked (butlast (slug # p)) (st_sites st)"
  then obtain q where q: "prefix q (butlast (slug # p))" "what_at (st_sites st) q \<noteq> Missing" "what_at (st_sites st) q \<noteq> A_Folder"
    by (auto simp: blocked_iff)
  then obtain q' where q': "q = slug # q'" "strict_prefix q' p"
    using assms(3) volume_okD(3) [OF assms(1)] prefix_butlast [OF assms(3)]
    by (cases q) auto
  then obtain c' m where "what_at (st_sites st) (slug # q') = A_File c' m"
    using q(2,3) volume_not_odd [OF assms(1), of q] by (cases "what_at (st_sites st) q") auto
  then show False
    using assms(4) q'(2) by (auto simp: spec_upload_def split: if_splits)
qed

lemma write_file_calm:
  fixes slug
  assumes "volume_ok sg st" "calm ev" "canonical_path path" "site_by_slug (st_db st) slug \<noteq> None"
    "\<not> ub_broken body" "declared = None \<or> declared = Some (int (length (concat (ub_chunks body))))"
    "sr_cap ru = sg_max_upload_bytes sg"
    "write_file sg ev slug path body overwrite declared st = (r, st')"
  defines "c \<equiv> concat (ub_chunks body)" and "items \<equiv> \<lambda>q. item_of (what_at (st_sites st) (slug # q))"
  shows "\<exists>m. st_staging st' = Folder [] m"
    and "case spec_upload ru items (segments_of path) overwrite c of
        Inl e \<Rightarrow> r = Inl e \<and> st_db st' = st_db st \<and> st_sites st' = st_sites st
      | Inr replaced \<Rightarrow> r = Inr \<lparr>ur_path = path, ur_bytes = length c, ur_sha256 = sg_sha256 sg c, ur_replaced = replaced\<rparr>"
proof -
  let ?target = "slug # segments_of path"
  note ok = volume_okD [OF assms(1)]
  obtain m where m: "st_staging st = Folder [] m" using assms(1) by (auto simp: volume_ok_def)
  have ne: "segments_of path \<noteq> []" by (rule segments_nonempty [OF assms(3)])
  have res: "resolve sg (st_sites st) slug path = Inr ?target"
    using resolve_tidy [OF ok(2)] assms(3) by blast
  have folder: "what_at (st_sites st) [slug] = A_Folder" using ok(6) [of slug] assms(4) by simp
  have recv: "receive (sg_max_upload_bytes sg) None False (ub_chunks body) [] =
      (if length c \<le> sg_max_upload_bytes sg then Inr c else Inl (ApiError 413 PAYLOAD_TOO_LARGE))"
    using receive_calm [of "[]" "sg_max_upload_bytes sg" "ub_chunks body"] by (simp add: c_def)
  have "(\<exists>m. st_staging st' = Folder [] m) \<and> (case spec_upload ru items (segments_of path) overwrite c of
        Inl e \<Rightarrow> r = Inl e \<and> st_db st' = st_db st \<and> st_sites st' = st_sites st
      | Inr replaced \<Rightarrow> r = Inr \<lparr>ur_path = path, ur_bytes = length c, ur_sha256 = sg_sha256 sg c, ur_replaced = replaced\<rparr>)"
  proof (cases "length c \<le> sg_max_upload_bytes sg")
    case False
    then have "r = Inl (ApiError 413 PAYLOAD_TOO_LARGE) \<and> st' = st"
      using assms(2,5,6,8) res m recv
      by (auto simp: write_file_def begin_write_def stage_def calm_def Let_def kind_of_def what_at_Cons unlink_at_def
          simp flip: c_def split: if_splits)
    then show ?thesis using False assms(7) m by (auto simp: spec_upload_def)
  next
    case True
    let ?sd = "\<lparr>sd_name = staging_name ev, sd_sha256 = sg_sha256 sg c, sd_bytes = length c\<rparr>"
    let ?st1 = "st\<lparr>st_staging := Folder [(staging_name ev, Reg c (ev_now ev))] (ev_now ev)\<rparr>"
    have "begin_write sg ev slug path body declared st = (Inr ?sd, ?st1)"
      using assms(2,5,6) res m recv True
      by (auto simp: begin_write_def stage_def calm_def Let_def kind_of_def what_at_Cons simp flip: c_def)
    then have land: "land sg ev slug path overwrite ?sd ?st1 = (r, st')"
      using assms(8) by (simp add: write_file_def)
    have chk: "check_write_target (st_sites st) slug (segments_of path) overwrite =
        spec_upload ru items (segments_of path) overwrite c"
      unfolding items_def using check_write_spec [OF volume_not_odd [OF assms(1)] folder ne] True assms(7) by simp
    show ?thesis
    proof (cases "spec_upload ru items (segments_of path) overwrite c")
      case (Inl e)
      then show ?thesis
        using land assms(4) res chk
        by (auto simp: land_def land_locked_def unlink_at_def kind_of_def what_at_Cons)
    next
      case (Inr replaced)
      have nb: "\<not> blocked (butlast ?target) (st_sites st)"
        using not_blocked_target [OF assms(1) folder ne] Inr unfolding items_def by blast
      show ?thesis
        using land assms(2,4) res chk Inr nb
        by (auto simp: land_def land_locked_def calm_def Let_def upsert_file_def simp del: butlast.simps split: if_splits)
    qed
  qed
  then show "\<exists>m. st_staging st' = Folder [] m"
    "case spec_upload ru items (segments_of path) overwrite c of
        Inl e \<Rightarrow> r = Inl e \<and> st_db st' = st_db st \<and> st_sites st' = st_sites st
      | Inr replaced \<Rightarrow> r = Inr \<lparr>ur_path = path, ur_bytes = length c, ur_sha256 = sg_sha256 sg c, ur_replaced = replaced\<rparr>"
    by blast+
qed

lemma write_file_keeps:
  assumes "write_file sg ev slug path body overwrite declared st = (r, st')" "db_ok (st_db st)" "tidy (st_sites st)"
  shows "db_ok (st_db st') \<and> tidy (st_sites st')"
proof -
  obtain r1 st1 where b: "begin_write sg ev slug path body declared st = (r1, st1)" by fastforce
  then have same: "st_sites st1 = st_sites st" "st_db st1 = st_db st"
    by (auto simp: begin_write_def stage_def Let_def split: sum.splits if_splits)
  have "db_ok (st_db st2) \<and> tidy (st_sites st2)" if l: "land_locked sg ev slug path overwrite sd st1 = (r2, st2)" for sd r2 st2
  proof
    have "st_db st2 = st_db st1 \<or> (\<exists>row. upsert_file (st_db st1) row = Inr (st_db st2))"
      using l by (auto simp: land_locked_def Let_def split: sum.splits if_splits option.splits prod.splits node.splits)
    then show "db_ok (st_db st2)" using assms(2) upsert_file_ok unfolding same by metis
    show "tidy (st_sites st2)"
      using land_locked_tree [OF l] unfolding same
      by (elim disjE exE conjE) (simp_all add: assms(3) tidy_insert tidy_mkdirs del: butlast.simps)
  qed
  then show ?thesis
    using b same assms by (cases r1) (auto simp: write_file_def land_def split: prod.splits sum.splits)
qed

lemma upload_file_ok:
  assumes "volume_ok (bk_storage bk) st" "undisturbed mo (R_UploadFile slug raw overwrite header body)"
    "upload_file_route bk mo slug raw overwrite header body st = (r, st')"
  defines "rq \<equiv> R_UploadFile slug raw overwrite header body"
  shows "volume_ok (bk_storage bk) st' \<and> outlined r = fst (spec (rules_of bk) rq (backend_view st))
    \<and> backend_view st' = snd (spec (rules_of bk) rq (backend_view st))"
proof (cases "spec_target (backend_view st) slug raw")
  case (Inl e)
  then show ?thesis using assms by (auto simp: upload_file_route_def target_ok [OF assms(1)])
next
  case (Inr t)
  obtain v path where t: "t = (v, path)" by fastforce
  note tgt = spec_target_ok [OF Inr [unfolded t]]
  let ?sg = "bk_storage bk" and ?c = "concat (ub_chunks body)" and ?p = "segments_of path"
  let ?items = "\<lambda>q. item_of (what_at (st_sites st) (slug # q))"
  have items: "sv_items v = ?items" using tgt(1) by (auto simp: backend_view_def)
  have site: "site_by_slug (st_db st) slug \<noteq> None" using tgt(1) backend_view_None [of st slug] by auto
  obtain r1 st1 where w: "write_file ?sg (mo_env mo) slug path body overwrite (declared_length header) st = (r1, st1)"
    by fastforce
  have cap: "sr_cap (rules_of bk) = sg_max_upload_bytes ?sg" by (simp add: rules_of_def)
  note calm = write_file_calm [OF assms(1) _ tgt(2) site _ _ cap w]
  have m: "\<exists>m. st_staging st1 = Folder [] m" using calm(1) assms(2) by simp
  note keeps = write_file_keeps [OF w volume_okD(1,2) [OF assms(1)]]
  show ?thesis
  proof (cases "spec_upload (rules_of bk) ?items ?p overwrite ?c")
    case err: (Inl e)
    then have "r1 = Inl e" "st_db st1 = st_db st" "st_sites st1 = st_sites st" using calm(2) assms(2) by auto
    then have "volume_ok ?sg st1" "backend_view st1 = backend_view st" "r = Inl e" "st' = st1"
      using assms(3) w Inr t volume_ok_same [OF assms(1), of st1] m
      by (auto simp: upload_file_route_def target_ok [OF assms(1)] intro: backend_view_same)
    then show ?thesis using Inr t err by (simp add: rq_def items Let_def)
  next
    case up: (Inr replaced)
    let ?r = "\<lparr>ur_path = path, ur_bytes = length ?c, ur_sha256 = sg_sha256 ?sg ?c, ur_replaced = replaced\<rparr>"
    have r1: "r1 = Inr ?r" using calm(2) assms(2) up by auto
    note eff = write_file_effect [OF tgt(2) volume_okD(4) [OF assms(1)] w [unfolded r1], unfolded Let_def]
    have tree: "what_at (st_sites st1) q = (if q = slug # ?p then A_File ?c (ev_now (mo_env mo))
        else if strict_prefix q (slug # ?p) \<and> what_at (st_sites st) q = Missing then A_Folder
        else what_at (st_sites st) q)" for q
      using eff by blast
    have idx: "file_row_at (st_db st1) s p = (if s = slug \<and> p = path
        then Some \<lparr>f_site = slug, f_path = path, f_bytes = length ?c, f_mtime_ns = ev_now (mo_env mo),
                   f_sha256 = sg_sha256 ?sg ?c\<rparr> else file_row_at (st_db st) s p)" for s p
      using eff by blast
    have rows: "db_sites (st_db st1) = db_sites (st_db st)" using write_file_accounts [OF w] by simp
    have good: "good_path ?p" by (rule good_path_segments [OF tgt(2)])
    have site_row: "site_by_slug (st_db st1) s = site_by_slug (st_db st) s" for s
      using rows by (simp add: site_by_slug_def)
    have ne: "?p \<noteq> []" by (rule segments_nonempty [OF tgt(2)])
    have root: "what_at (st_sites st) [slug] = A_Folder" using volume_okD(6) [OF assms(1), of slug] site by simp
    have "volume_ok ?sg st1"
      unfolding volume_ok_def
    proof (intro conjI allI impI)
      show "db_ok (st_db st1)" "tidy (st_sites st1)" using keeps by auto
      show "what_at (st_sites st1) [] = A_Folder" using tree [of "[]"] volume_okD(3) [OF assms(1)] by simp
      show "what_at (st_sites st1) [s] = (if site_by_slug (st_db st1) s = None then Missing else A_Folder)" for s
        using tree [of "[s]"] volume_okD(6) [OF assms(1), of s] ne root site
        by (cases "s = slug") (auto simp: site_row strict_prefix_def)
      show "site_by_slug (st_db st1) s \<noteq> None \<Longrightarrow> validate_slug s = Inr s" for s
        using volume_okD(7) [OF assms(1), of s] by (simp add: site_row)
      show "good_path q" if "q \<noteq> []" "what_at (st_sites st1) (s # q) \<noteq> Missing" for s q
        using that(2) tree [of "s # q"] good good_path_prefix [OF good _ that(1)] volume_okD(8) [OF assms(1) that(1), of s]
        by (auto simp: strict_prefix_def split: if_splits)
      show "file_row_at (st_db st1) s p = index_row ?sg s p (what_at (st_sites st1) (s # segments_of p))" for s p
        using tree [of "s # segments_of p"] idx [of s p] volume_okD(9) [OF assms(1), of s p] segments_inj [of p path]
        by (auto simp: index_row_def)
    qed (rule m)
    moreover have "r = Inr (Uploaded (if replaced then 200 else 201) ?r)" "st' = st1"
      using assms(3) w Inr t r1 by (auto simp: upload_file_route_def target_ok [OF assms(1)])
    moreover have "backend_view st1 = (backend_view st)(slug \<mapsto> v\<lparr>sv_items := with_file ?p ?c (sv_items v)\<rparr>)"
    proof (rule backend_view_update [OF rows tgt(1)])
      show "item_of (what_at (st_sites st1) (slug # q)) = with_file ?p ?c (sv_items v) q" for q
        unfolding items tree with_file_def using volume_not_odd [OF assms(1), of "slug # q"]
        by (cases "what_at (st_sites st) (slug # q)") auto
      show "what_at (st_sites st1) (s # q) = what_at (st_sites st) (s # q)" if "s \<noteq> slug" for s q
        using tree [of "s # q"] that by simp
    qed
    ultimately show ?thesis using Inr t up by (simp add: rq_def items Let_def rules_of_def)
  qed
qed

section \<open>Downloads and removals\<close>

text \<open>What a file request finds at its target.\<close>

lemma target_found:
  assumes "volume_ok sg st" "spec_target (backend_view st) slug raw = Inr (v, path)"
  shows "resolve sg (st_sites st) slug path = Inr (slug # segments_of path)"
    "sv_items v q = item_of (what_at (st_sites st) (slug # q))"
    "kind_of (st_sites st) (slug # segments_of path) =
       (case sv_items v (segments_of path) of Absent \<Rightarrow> K_MISSING | Is_File c \<Rightarrow> K_FILE | Is_Folder \<Rightarrow> K_FOLDER)"
proof -
  note tgt = spec_target_ok [OF assms(2)]
  show "resolve sg (st_sites st) slug path = Inr (slug # segments_of path)"
    using resolve_tidy [OF volume_okD(2) [OF assms(1)]] tgt(2) by blast
  show items: "sv_items v q = item_of (what_at (st_sites st) (slug # q))" for q
    using tgt(1) by (auto simp: backend_view_def)
  show "kind_of (st_sites st) (slug # segments_of path) =
       (case sv_items v (segments_of path) of Absent \<Rightarrow> K_MISSING | Is_File c \<Rightarrow> K_FILE | Is_Folder \<Rightarrow> K_FOLDER)"
    using volume_not_odd [OF assms(1), of "slug # segments_of path"]
    by (cases "what_at (st_sites st) (slug # segments_of path)") (auto simp: items kind_of_def)
qed

lemma download_file_ok:
  assumes "volume_ok (bk_storage bk) st"
  shows "outlined (download_file_route bk slug raw st) =
     fst (spec (rules_of bk) (R_DownloadFile slug raw) (backend_view st))"
proof (cases "spec_target (backend_view st) slug raw")
  case (Inl e)
  then show ?thesis by (auto simp: download_file_route_def target_ok [OF assms])
next
  case (Inr t)
  obtain v path where t: "t = (v, path)" by fastforce
  note f = target_found [OF assms Inr [unfolded t]]
  show ?thesis
    using Inr t f(1,3) volume_not_odd [OF assms, of "slug # segments_of path"]
    by (cases "what_at (st_sites st) (slug # segments_of path)")
      (auto simp: download_file_route_def target_ok [OF assms] file_path_def f(2) rules_of_def kind_of_def Let_def
        split: sum.split)
qed

lemma removed_ok:
  assumes "volume_ok sg st" "backend_view st slug = Some v" "db_ok (st_db st')" "db_sites (st_db st') = db_sites (st_db st)"
    "st_sites st' = remove_at t (slug # p) (st_sites st)" "st_staging st' = st_staging st" "p \<noteq> []"
    "\<And>s q. file_row_at (st_db st') s q =
       (if s = slug \<and> prefix p (segments_of q) then None else file_row_at (st_db st) s q)"
  shows "volume_ok sg st' \<and> backend_view st' = (backend_view st)(slug \<mapsto> v\<lparr>sv_items := without p (sv_items v)\<rparr>)"
proof
  have tree: "what_at (st_sites st') q = (if prefix (slug # p) q then Missing else what_at (st_sites st) q)" for q
    by (simp add: assms(5) what_at_remove)
  have site_row: "site_by_slug (st_db st') s = site_by_slug (st_db st) s" for s
    using assms(4) by (simp add: site_by_slug_def)
  show "volume_ok sg st'"
    unfolding volume_ok_def
  proof (intro conjI allI impI)
    show "tidy (st_sites st')" using volume_okD(2) [OF assms(1)] tidy_remove assms(5) by simp
    show "what_at (st_sites st') [] = A_Folder" using tree [of "[]"] volume_okD(3) [OF assms(1)] by simp
    show "\<exists>m. st_staging st' = Folder [] m" using assms(1,6) by (simp add: volume_ok_def)
    show "what_at (st_sites st') [s] = (if site_by_slug (st_db st') s = None then Missing else A_Folder)" for s
      using tree [of "[s]"] volume_okD(6) [OF assms(1), of s] assms(7) by (simp add: site_row)
    show "site_by_slug (st_db st') s \<noteq> None \<Longrightarrow> validate_slug s = Inr s" for s
      using volume_okD(7) [OF assms(1), of s] by (simp add: site_row)
    show "good_path q" if "q \<noteq> []" "what_at (st_sites st') (s # q) \<noteq> Missing" for s q
      using that(2) tree [of "s # q"] volume_okD(8) [OF assms(1) that(1), of s] by (auto split: if_splits)
    show "file_row_at (st_db st') s q = index_row sg s q (what_at (st_sites st') (s # segments_of q))" for s q
      using tree [of "s # segments_of q"] assms(8) [of s q] volume_okD(9) [OF assms(1), of s q]
      by (auto simp: index_row_def)
  qed (rule assms(3))
  show "backend_view st' = (backend_view st)(slug \<mapsto> v\<lparr>sv_items := without p (sv_items v)\<rparr>)"
  proof (rule backend_view_update [OF assms(4,2)])
    show "item_of (what_at (st_sites st') (slug # q)) = without p (sv_items v) q" for q
      using assms(2) tree [of "slug # q"] by (auto simp: without_def backend_view_def)
    show "what_at (st_sites st') (s # q) = what_at (st_sites st) (s # q)" if "s \<noteq> slug" for s q
      using tree [of "s # q"] that by simp
  qed
qed

lemma delete_file_ok:
  assumes "volume_ok (bk_storage bk) st" "calm (mo_env mo)" "delete_file_route bk mo slug raw st = (r, st')"
  shows "volume_ok (bk_storage bk) st' \<and> outlined r = fst (spec ru (R_DeleteFile slug raw) (backend_view st))
    \<and> backend_view st' = snd (spec ru (R_DeleteFile slug raw) (backend_view st))"
proof (cases "spec_target (backend_view st) slug raw")
  case (Inl e)
  then show ?thesis using assms by (auto simp: delete_file_route_def target_ok [OF assms(1)])
next
  case (Inr t)
  obtain v path where t: "t = (v, path)" by fastforce
  note f = target_found [OF assms(1) Inr [unfolded t]] and tgt = spec_target_ok [OF Inr [unfolded t]]
  show ?thesis
  proof (cases "sv_items v (segments_of path)")
    case (Is_File c)
    let ?st = "st\<lparr>st_sites := remove_at (ev_now (mo_env mo)) (slug # segments_of path) (st_sites st),
                st_db := delete_file_row (st_db st) slug path\<rparr>"
    have "r = Inr NoContent" "st' = ?st"
      using assms(2,3) Inr t f(1,3) Is_File
      by (auto simp: delete_file_route_def delete_file_def target_ok [OF assms(1)] calm_def Let_def)
    obtain m where m: "what_at (st_sites st) (slug # segments_of path) = A_File c m" using Is_File f(2) by auto
    have row: "s = slug \<Longrightarrow> prefix (segments_of path) (segments_of q) \<Longrightarrow> q \<noteq> path \<Longrightarrow> file_row_at (st_db st) s q = None" for s q
    proof -
      assume q: "s = slug" "prefix (segments_of path) (segments_of q)" "q \<noteq> path"
      then have "strict_prefix (slug # segments_of path) (slug # segments_of q)"
        using segments_inj [of path q] by (auto simp: strict_prefix_def)
      from below_no_folder [OF _ this, of "st_sites st"] m show "file_row_at (st_db st) s q = None"
        using volume_okD(9) [OF assms(1), of s q] q(1) by (simp add: index_row_def)
    qed
    have "volume_ok (bk_storage bk) ?st \<and> backend_view ?st = (backend_view st)(slug \<mapsto> v\<lparr>sv_items := without (segments_of path) (sv_items v)\<rparr>)"
    proof (rule removed_ok [OF assms(1) tgt(1)])
      show "db_ok (st_db ?st)" using volume_okD(1) [OF assms(1)] delete_file_row_ok by simp
      show "file_row_at (st_db ?st) s q =
          (if s = slug \<and> prefix (segments_of path) (segments_of q) then None else file_row_at (st_db st) s q)" for s q
        using row [of s q] file_row_at_delete(1) [OF volume_okD(1) [OF assms(1)], of slug path s q] by auto
    qed (use segments_nonempty [OF tgt(2)] in \<open>simp_all add: delete_file_row_def\<close>)
    then show ?thesis using \<open>r = _\<close> \<open>st' = _\<close> Inr t Is_File by simp
  qed (use assms(1,3) Inr t f(1,3) in \<open>auto simp: delete_file_route_def delete_file_def target_ok [OF assms(1)]\<close>)
qed

lemma empty_folder:
  assumes "volume_ok sg st" "what_at (st_sites st) p = A_Folder"
  shows "entries_at (st_sites st) p = [] \<longleftrightarrow> \<not> (\<exists>q. strict_prefix p q \<and> what_at (st_sites st) q \<noteq> Missing)"
proof
  assume e: "entries_at (st_sites st) p = []"
  show "\<not> (\<exists>q. strict_prefix p q \<and> what_at (st_sites st) q \<noteq> Missing)"
  proof
    assume "\<exists>q. strict_prefix p q \<and> what_at (st_sites st) q \<noteq> Missing"
    then obtain x xs where q: "what_at (st_sites st) (p @ x # xs) \<noteq> Missing" by (metis strict_prefixE')
    then have "what_at (st_sites st) (p @ [x]) \<noteq> Missing"
      using below_missing [of "st_sites st" "p @ [x]" "p @ x # xs"] by auto
    then obtain n where "lookup (st_sites st) (p @ [x]) = Some n" by (auto simp: what_at_def split: option.splits)
    then show False using entries_at_iff [OF volume_okD(2) [OF assms(1)], of x n p] e by simp
  qed
next
  assume n: "\<not> (\<exists>q. strict_prefix p q \<and> what_at (st_sites st) q \<noteq> Missing)"
  show "entries_at (st_sites st) p = []"
  proof (rule ccontr)
    assume "entries_at (st_sites st) p \<noteq> []"
    then obtain x n' where "(x, n') \<in> set (entries_at (st_sites st) p)" by (metis list.set_intros(1) neq_Nil_conv surj_pair)
    then have "lookup (st_sites st) (p @ [x]) = Some n'" using entries_at_iff [OF volume_okD(2) [OF assms(1)]] by blast
    then have "what_at (st_sites st) (p @ [x]) \<noteq> Missing" by (simp add: what_at_def)
    moreover have "strict_prefix p (p @ [x])" by (simp add: strict_prefix_def)
    ultimately show False using n by blast
  qed
qed

lemma delete_folder_ok:
  assumes "volume_ok (bk_storage bk) st" "calm (mo_env mo)" "delete_folder_route bk mo slug raw recursive st = (r, st')"
  shows "volume_ok (bk_storage bk) st' \<and> outlined r = fst (spec ru (R_DeleteFolder slug raw recursive) (backend_view st))
    \<and> backend_view st' = snd (spec ru (R_DeleteFolder slug raw recursive) (backend_view st))"
proof (cases "spec_target (backend_view st) slug raw")
  case (Inl e)
  then show ?thesis using assms by (auto simp: delete_folder_route_def target_ok [OF assms(1)])
next
  case (Inr t)
  obtain v path where t: "t = (v, path)" by fastforce
  note f = target_found [OF assms(1) Inr [unfolded t]] and tgt = spec_target_ok [OF Inr [unfolded t]]
  let ?p = "segments_of path"
  show ?thesis
  proof (cases "sv_items v ?p")
    case Is_Folder
    then have folder: "what_at (st_sites st) (slug # ?p) = A_Folder" by (simp add: f(2))
    have "(\<exists>q. strict_prefix (slug # ?p) q \<and> what_at (st_sites st) q \<noteq> Missing) \<longleftrightarrow>
        (\<exists>q. strict_prefix ?p q \<and> sv_items v q \<noteq> Absent)"
    proof -
      have "strict_prefix (slug # ?p) q \<longleftrightarrow> (\<exists>q'. q = slug # q' \<and> strict_prefix ?p q')" for q by (cases q) auto
      moreover have "sv_items v q \<noteq> Absent \<longleftrightarrow> what_at (st_sites st) (slug # q) \<noteq> Missing" for q
        using volume_not_odd [OF assms(1), of "slug # q"] unfolding f(2)
        by (cases "what_at (st_sites st) (slug # q)") auto
      ultimately show ?thesis by auto
    qed
    then have empty: "entries_at (st_sites st) (slug # ?p) \<noteq> [] \<longleftrightarrow> (\<exists>q. strict_prefix ?p q \<and> sv_items v q \<noteq> Absent)"
      using empty_folder [OF assms(1) folder] by simp
    show ?thesis
    proof (cases "(\<exists>q. strict_prefix ?p q \<and> sv_items v q \<noteq> Absent) \<and> \<not> recursive")
      case True
      then have "r = Inl (ApiError 409 FOLDER_NOT_EMPTY)" "st' = st"
        using assms(3) Inr t f(1,3) Is_Folder empty
        by (auto simp: delete_folder_route_def delete_folder_def target_ok [OF assms(1)])
      then show ?thesis using assms(1) Inr t Is_Folder True by (simp add: Let_def)
    next
      case False
      let ?st = "st\<lparr>st_sites := remove_at (ev_now (mo_env mo)) (slug # ?p) (st_sites st),
                  st_db := snd (delete_files_under (st_db st) slug path)\<rparr>"
      have res: "r = Inr NoContent" "st' = ?st"
        using assms(2,3) Inr t f(1,3) Is_Folder empty False
        by (auto simp: delete_folder_route_def delete_folder_def target_ok [OF assms(1)] calm_def Let_def)
      have "path \<noteq> []" using segments_nonempty [OF tgt(2)] by (auto simp: segments_of_def)
      have "volume_ok (bk_storage bk) ?st \<and> backend_view ?st = (backend_view st)(slug \<mapsto> v\<lparr>sv_items := without ?p (sv_items v)\<rparr>)"
      proof (rule removed_ok [OF assms(1) tgt(1)])
        show "db_ok (st_db ?st)" using volume_okD(1) [OF assms(1)] delete_files_under_ok by simp
        have "file_row_at (st_db st) slug path = None"
          using volume_okD(9) [OF assms(1), of slug path] folder by (simp add: index_row_def)
        then show "file_row_at (st_db ?st) s q = (if s = slug \<and> prefix ?p (segments_of q) then None else file_row_at (st_db st) s q)" for s q
          using file_row_at_delete(2) [OF volume_okD(1) [OF assms(1)], of slug path s q] below_iff [OF \<open>path \<noteq> []\<close>, of q]
            segments_inj [of path q]
          by (auto simp: strict_prefix_def)
      qed (use segments_nonempty [OF tgt(2)] in \<open>simp_all add: delete_files_under_def\<close>)
      then show ?thesis using res Inr t Is_Folder False by (simp add: Let_def)
    qed
  qed (use assms(1,3) Inr t f(1,3) in \<open>auto simp: delete_folder_route_def delete_folder_def Let_def target_ok [OF assms(1)]\<close>)
qed

end
