(* ===== verification/Real_Listing.thy ===== *)
theory Real_Listing
  imports Real_Store
begin

text \<open>
  Listings of the real backend (\<open>Storage.list_folder\<close>, \<open>Db.list_sites\<close>) against the contract: while the
  index is in step with the tree a listing writes nothing, and shows every entry of the folder in order.
  With this the backend is interpreted as a site store.
\<close>

section \<open>The loop over the entries\<close>

fun is_dir :: "ustring \<times> node \<Rightarrow> bool" where
  "is_dir (_, Folder _ _) = True"
| "is_dir _ = False"

fun is_reg :: "ustring \<times> node \<Rightarrow> bool" where
  "is_reg (_, Reg _ _) = True"
| "is_reg _ = False"

lemma list_entries_current:
  assumes "\<And>name c m. (name, Reg c m) \<in> set es \<Longrightarrow>
      row_with f_path (join_name folder name) indexed =
        Some \<lparr>f_site = slug, f_path = join_name folder name, f_bytes = length c, f_mtime_ns = m, f_sha256 = sg_sha256 sg c\<rparr>"
  shows "list_entries sg slug folder indexed es db =
    Inr (map (\<lambda>(name, n). folder_entry sg name (case n of Folder _ m \<Rightarrow> m | _ \<Rightarrow> 0)
               (folder_totals db slug (join_name folder name))) (filter is_dir es),
         map (\<lambda>(name, n). case n of Reg c m \<Rightarrow> row_entry sg name \<lparr>f_site = slug, f_path = join_name folder name,
               f_bytes = length c, f_mtime_ns = m, f_sha256 = sg_sha256 sg c\<rparr> | _ \<Rightarrow> undefined) (filter is_reg es),
         map (\<lambda>e. join_name folder (fst e)) (filter is_reg es), db)"
  using assms
proof (induction es)
  case (Cons e es)
  obtain name n where e: "e = (name, n)" by fastforce
  have ih: "list_entries sg slug folder indexed es db =
    Inr (map (\<lambda>(name, n). folder_entry sg name (case n of Folder _ m \<Rightarrow> m | _ \<Rightarrow> 0)
               (folder_totals db slug (join_name folder name))) (filter is_dir es),
         map (\<lambda>(name, n). case n of Reg c m \<Rightarrow> row_entry sg name \<lparr>f_site = slug, f_path = join_name folder name,
               f_bytes = length c, f_mtime_ns = m, f_sha256 = sg_sha256 sg c\<rparr> | _ \<Rightarrow> undefined) (filter is_reg es),
         map (\<lambda>e. join_name folder (fst e)) (filter is_reg es), db)"
    by (rule Cons.IH) (use Cons.prems in auto)
  show ?case
  proof (cases n)
    case (Reg c m)
    have "row_with f_path (join_name folder name) indexed =
        Some \<lparr>f_site = slug, f_path = join_name folder name, f_bytes = length c, f_mtime_ns = m, f_sha256 = sg_sha256 sg c\<rparr>"
      using Cons.prems [of name c m] Reg e by simp
    then show ?thesis by (simp add: e Reg ih Let_def)
  qed (simp_all add: e ih)
qed simp

lemma listed_entry:
  assumes "volume_ok sg st" "(name, n) \<in> set (entries_at (st_sites st) (slug # segments_of folder))"
  shows "what_at (st_sites st) (slug # segments_of folder @ [name]) = what_of n"
    "good_segment name" "segments_of (join_name folder name) = segments_of folder @ [name]"
proof -
  have l: "lookup (st_sites st) (slug # segments_of folder @ [name]) = Some n"
    using assms(2) entries_at_iff [OF volume_okD(2) [OF assms(1)]] by simp
  then show w: "what_at (st_sites st) (slug # segments_of folder @ [name]) = what_of n" by (simp add: what_at_def)
  then have "what_at (st_sites st) (slug # segments_of folder @ [name]) \<noteq> Missing" by (cases n) simp_all
  from volume_okD(8) [OF assms(1) _ this] have "good_path (segments_of folder @ [name])" by simp
  then have g: "list_all good_segment (segments_of folder @ [name])" using canonical_segments by (metis good_path_def)
  then show "good_segment name" by simp
  then show "segments_of (join_name folder name) = segments_of folder @ [name]"
    by (intro join_name_segments) (auto simp: good_segment_def)
qed

lemma indexed_row:
  assumes "volume_ok sg st" "(name, Reg c m) \<in> set (entries_at (st_sites st) (slug # segments_of folder))"
  shows "row_with f_path (join_name folder name) (files_in_folder (st_db st) slug folder) =
    Some \<lparr>f_site = slug, f_path = join_name folder name, f_bytes = length c, f_mtime_ns = m, f_sha256 = sg_sha256 sg c\<rparr>"
proof -
  let ?row = "\<lparr>f_site = slug, f_path = join_name folder name, f_bytes = length c, f_mtime_ns = m, f_sha256 = sg_sha256 sg c\<rparr>"
  let ?rows = "filter (\<lambda>f. f_site f = slug \<and> directly_in folder (f_path f)) (db_files (st_db st))"
  note e = listed_entry [OF assms]
  have "file_row_at (st_db st) slug (join_name folder name) = Some ?row"
    using volume_okD(9) [OF assms(1), of slug "join_name folder name"] e(1) by (simp add: e(3) index_row_def)
  then have "?row \<in> set ?rows"
    using directly_in_join [of name folder] e(2) by (auto simp: file_row_at_def good_segment_def dest!: row_with_SomeD)
  moreover have "distinct (map f_path (sort_key f_path ?rows))"
  proof -
    have "distinct (map file_key (db_files (st_db st)))" using volume_okD(1) [OF assms(1)] by (rule db_okD)
    then show ?thesis by (auto simp: distinct_map inj_on_def)
  qed
  ultimately show ?thesis
    unfolding files_in_folder_def by (subst row_with_iff) simp_all
qed

lemma no_stale_row:
  assumes "volume_ok sg st" "r \<in> set (files_in_folder (st_db st) slug folder)"
    "what_at (st_sites st) (slug # segments_of folder) = A_Folder"
  shows "f_path r \<in> (\<lambda>e. join_name folder (fst e)) ` set (filter is_reg (entries_at (st_sites st) (slug # segments_of folder)))"
proof -
  have r: "r \<in> set (db_files (st_db st))" "f_site r = slug" "directly_in folder (f_path r)"
    using assms(2) by (auto simp: files_in_folder_def)
  obtain name where name: "f_path r = join_name folder name" "slash \<notin> set name" using directly_in_name [OF r(3)] .
  have "distinct (map file_key (db_files (st_db st)))" using volume_okD(1) [OF assms(1)] by (rule db_okD)
  then have "file_row_at (st_db st) slug (f_path r) = Some r"
    using r(1,2) by (auto simp: file_row_at_def row_with_iff)
  then obtain c m where w: "what_at (st_sites st) (slug # segments_of (f_path r)) = A_File c m"
    using volume_okD(9) [OF assms(1), of slug "f_path r"] by (auto simp: index_row_Some)
  have "name \<noteq> [] \<or> folder \<noteq> []"
  proof (rule ccontr)
    assume "\<not> (name \<noteq> [] \<or> folder \<noteq> [])"
    then have "segments_of (f_path r) = []" "segments_of folder = []" by (simp_all add: name join_name_def segments_of_def)
    then show False using w assms(3) by simp
  qed
  then have "what_at (st_sites st) ((slug # segments_of folder) @ [name]) = A_File c m"
    using w join_name_segments [OF name(2)] name(1) by simp
  then have "lookup (st_sites st) ((slug # segments_of folder) @ [name]) = Some (Reg c m)"
    by (auto simp: what_at_def split: option.splits elim: what_of.elims)
  then have "(name, Reg c m) \<in> set (entries_at (st_sites st) (slug # segments_of folder))"
    by (subst entries_at_iff [OF volume_okD(2) [OF assms(1)]])
  then show ?thesis using name(1) by force
qed

lemma sorted_lines:
  assumes "volume_ok sg st"
    and "\<And>name n. (name, n) \<in> set (entries_at (st_sites st) t) \<Longrightarrow> P (name, n) \<longleftrightarrow> name \<in> S"
    and "\<And>name n. (name, n) \<in> set (entries_at (st_sites st) t) \<Longrightarrow> P (name, n) \<Longrightarrow>
      fe_name (F (name, n)) = name \<and> entry_line (F (name, n)) = h name"
    and "\<And>name. name \<in> S \<Longrightarrow> what_at (st_sites st) (t @ [name]) \<noteq> Missing"
  shows "map entry_line (sort_key fe_name (map F (filter P (entries_at (st_sites st) t)))) = map h (sorted_list_of_set S)"
proof -
  let ?es = "entries_at (st_sites st) t"
  have names: "map fe_name (map F (filter P ?es)) = map fst (filter P ?es)" using assms(3) by auto
  have d: "distinct (map fst (filter P ?es))"
    using distinct_entries [OF volume_okD(2) [OF assms(1)]] by (simp add: distinct_map_filter)
  have "\<exists>n. (name, n) \<in> set ?es" if "name \<in> S" for name
    using assms(4) [OF that] entries_at_iff [OF volume_okD(2) [OF assms(1)]] by (auto simp: what_at_def split: option.splits)
  then have "set (map fst (filter P ?es)) = S" using assms(2) by force
  then have "fe_name ` set (map F (filter P ?es)) = S" by (metis names set_map)
  moreover have "entry_line x = h (fe_name x)" if "x \<in> set (map F (filter P ?es))" for x
    using that assms(3) by force
  ultimately show ?thesis
    using map_sort_key [of fe_name "map F (filter P ?es)" entry_line h] d unfolding names by simp
qed

lemma list_folder_lines:
  fixes slug folder
  assumes "volume_ok (bk_storage bk) st" "resolve (bk_storage bk) (st_sites st) slug folder = Inr (slug # segments_of folder)"
    and "what_at (st_sites st) (slug # segments_of folder) = A_Folder"
  defines "items \<equiv> \<lambda>q. item_of (what_at (st_sites st) (slug # q))"
  obtains entries where
    "list_folder (bk_storage bk) slug folder st = (Inr \<lparr>fl_site = slug, fl_path = folder, fl_entries = entries\<rparr>, st)"
    "map entry_line entries = spec_listing (rules_of bk) items (segments_of folder)"
proof -
  let ?sg = "bk_storage bk" and ?t = "slug # segments_of folder"
  let ?F = "\<lambda>(name, n). folder_entry ?sg name (case n of Folder _ m \<Rightarrow> m | _ \<Rightarrow> 0)
      (folder_totals (st_db st) slug (join_name folder name))"
  let ?R = "\<lambda>(name, n). case n of Reg c m \<Rightarrow> row_entry ?sg name \<lparr>f_site = slug, f_path = join_name folder name,
      f_bytes = length c, f_mtime_ns = m, f_sha256 = sg_sha256 ?sg c\<rparr> | _ \<Rightarrow> undefined"
  let ?es = "entries_at (st_sites st) ?t" and ?indexed = "files_in_folder (st_db st) slug folder"
  note entry = listed_entry [OF assms(1), of _ _ slug folder]
  have l: "list_entries ?sg slug folder ?indexed ?es (st_db st) = Inr (map ?F (filter is_dir ?es), map ?R (filter is_reg ?es),
      map (\<lambda>e. join_name folder (fst e)) (filter is_reg ?es), st_db st)"
    by (rule list_entries_current) (rule indexed_row [OF assms(1)])
  have stale: "filter (\<lambda>p. p \<notin> set (map (\<lambda>e. join_name folder (fst e)) (filter is_reg ?es))) (map f_path ?indexed) = []"
    using no_stale_row [OF assms(1) _ assms(3)] by (auto simp: filter_empty_conv)
  let ?entries = "sort_key fe_name (map ?F (filter is_dir ?es)) @ sort_key fe_name (map ?R (filter is_reg ?es))"
  have "list_folder ?sg slug folder st = (Inr \<lparr>fl_site = slug, fl_path = folder, fl_entries = ?entries\<rparr>, st)"
    unfolding list_folder_def assms(2) using l stale assms(3) by (simp add: kind_of_def Let_def)
  moreover have "map entry_line (sort_key fe_name (map ?F (filter is_dir ?es))) =
      map (\<lambda>n. (n, FOLDER, total_below items (segments_of folder @ [n]), None))
        (sorted_list_of_set {n. items (segments_of folder @ [n]) = Is_Folder})"
  proof (rule sorted_lines [OF assms(1)])
    fix name n assume e: "(name, n) \<in> set ?es"
    show "is_dir (name, n) \<longleftrightarrow> name \<in> {n. items (segments_of folder @ [n]) = Is_Folder}"
      using entry(1) [OF e] by (cases n) (simp_all add: items_def)
    show "fe_name (?F (name, n)) = name \<and>
        entry_line (?F (name, n)) = (name, FOLDER, total_below items (segments_of folder @ [name]), None)"
      using totals_below(2) [OF assms(1), of slug "join_name folder name"] entry(3) [OF e]
      by (simp add: entry_line_def folder_entry_def items_def)
  qed (simp add: items_def)
  moreover have "map entry_line (sort_key fe_name (map ?R (filter is_reg ?es))) =
      map (\<lambda>n. case items (segments_of folder @ [n]) of
          Is_File c \<Rightarrow> (n, FILE, length c, Some (sr_sha256 (rules_of bk) c)) | _ \<Rightarrow> (n, FILE, 0, None))
        (sorted_list_of_set {n. \<exists>c. items (segments_of folder @ [n]) = Is_File c})"
  proof (rule sorted_lines [OF assms(1)])
    fix name n assume e: "(name, n) \<in> set ?es"
    show "is_reg (name, n) \<longleftrightarrow> name \<in> {n. \<exists>c. items (segments_of folder @ [n]) = Is_File c}"
      using entry(1) [OF e] by (cases n) (simp_all add: items_def)
    assume "is_reg (name, n)"
    then show "fe_name (?R (name, n)) = name \<and> entry_line (?R (name, n)) = (case items (segments_of folder @ [name]) of
          Is_File c \<Rightarrow> (name, FILE, length c, Some (sr_sha256 (rules_of bk) c)) | _ \<Rightarrow> (name, FILE, 0, None))"
      using entry(1) [OF e] by (cases n) (simp_all add: items_def entry_line_def row_entry_def rules_of_def)
  qed (auto simp: items_def)
  ultimately show ?thesis using that by (simp add: spec_listing_def)
qed

section \<open>The two routes\<close>

lemma list_files_ok:
  assumes "volume_ok (bk_storage bk) st" "list_files_route bk slug raw st = (r, st')"
  shows "st' = st \<and> outlined r = fst (spec (rules_of bk) (R_ListFiles slug raw) (backend_view st))"
proof (cases "site_by_slug (st_db st) slug")
  case None
  then show ?thesis
    using assms by (auto simp: list_files_route_def site_and_path_def find_site_ok [OF assms(1)] backend_view_def)
next
  case (Some s)
  then have v: "backend_view st slug =
      Some \<lparr>sv_name = s_name s, sv_items = (\<lambda>q. item_of (what_at (st_sites st) (slug # q)))\<rparr>"
    by (simp add: backend_view_def)
  show ?thesis
  proof (cases "valid_path raw True")
    case (Inl e)
    then show ?thesis
      using assms Some v by (auto simp: list_files_route_def site_and_path_def find_site_ok [OF assms(1)])
  next
    case (Inr folder)
    let ?t = "slug # segments_of folder"
    have res: "resolve (bk_storage bk) (st_sites st) slug folder = Inr ?t"
      using resolve_tidy [OF volume_okD(2) [OF assms(1)]] valid_folder [OF Inr] by blast
    have route: "list_files_route bk slug raw st = (case list_folder (bk_storage bk) slug folder st of
        (Inl e, st') \<Rightarrow> (Inl e, st') | (Inr l, st') \<Rightarrow> (Inr (Listing l), st'))"
      using Some site_slug [OF Some] Inr by (simp add: list_files_route_def site_and_path_def find_site_ok [OF assms(1)])
    show ?thesis
    proof (cases "what_at (st_sites st) ?t")
      case A_Folder
      obtain entries where l:
        "list_folder (bk_storage bk) slug folder st = (Inr \<lparr>fl_site = slug, fl_path = folder, fl_entries = entries\<rparr>, st)"
        "map entry_line entries =
           spec_listing (rules_of bk) (\<lambda>q. item_of (what_at (st_sites st) (slug # q))) (segments_of folder)"
        using list_folder_lines [OF assms(1) res A_Folder] .
      then show ?thesis using assms(2) A_Folder Inr v by (auto simp: route)
    next
      case Missing
      then have "folder \<noteq> []" using volume_okD(6) [OF assms(1), of slug] Some by (auto simp: segments_of_def)
      then show ?thesis using assms(2) Missing Inr v by (auto simp: route list_folder_def res kind_of_def)
    next
      case (A_File c m)
      then show ?thesis using assms(2) Inr v by (auto simp: route list_folder_def res kind_of_def)
    next
      case Odd
      then show ?thesis using volume_not_odd [OF assms(1)] by blast
    qed
  qed
qed

lemma list_sites_ok:
  assumes "volume_ok (bk_storage bk) st"
  shows "outlined (list_sites_route bk st) = fst (spec (rules_of bk) R_ListSites (backend_view st))"
proof -
  let ?rows = "db_sites (st_db st)"
  have d: "distinct (map s_slug ?rows)" using volume_okD(1) [OF assms] by (rule db_okD)
  have found: "site_by_slug (st_db st) slug = Some s \<longleftrightarrow> s \<in> set ?rows \<and> s_slug s = slug" for slug s
    unfolding site_by_slug_def by (rule row_with_iff [OF d])
  have "s_slug ` set ?rows = dom (backend_view st)" using found by (force simp: dom_def backend_view_def)
  moreover have "site_line (public_site bk (st_db st) s) = spec_site_line (rules_of bk) (backend_view st) (s_slug s)"
    if "s \<in> set ?rows" for s
  proof -
    have "site_by_slug (st_db st) (s_slug s) = Some s" using found that by blast
    with site_answer [OF assms this, of 200] show ?thesis
      by (auto simp: site_line_def spec_site_line_def site_outline_def backend_view_def public_site_def Let_def)
  qed
  ultimately have "map (\<lambda>s. site_line (public_site bk (st_db st) s)) (sort_key s_slug ?rows) =
      map (spec_site_line (rules_of bk) (backend_view st)) (sorted_list_of_set (dom (backend_view st)))"
    using map_sort_key [OF d, of "\<lambda>s. site_line (public_site bk (st_db st) s)" "spec_site_line (rules_of bk) (backend_view st)"]
    by simp
  then show ?thesis by (simp add: list_sites_route_def list_sites_def comp_def)
qed
section \<open>The interpretation\<close>

lemma real_store_step:
  assumes "volume_ok (bk_storage bk) st" "site_request rq" "undisturbed mo rq" "run_route bk mo actor rq st = (r, st')"
  shows "volume_ok (bk_storage bk) st' \<and> outlined r = fst (spec (rules_of bk) rq (backend_view st))
    \<and> backend_view st' = snd (spec (rules_of bk) rq (backend_view st))"
proof (cases rq)
  case (R_GetSite slug)
  then show ?thesis
    using assms site_answer [OF assms(1), of slug _ 200]
    by (auto simp: get_site_route_def find_site_ok [OF assms(1)] backend_view_def split: option.splits)
next
  case R_ListSites
  then show ?thesis using assms list_sites_ok [OF assms(1)] by auto
next
  case (R_ListFiles slug raw)
  then show ?thesis using assms list_files_ok [OF assms(1), of slug raw] by auto
next
  case (R_UploadFile slug raw overwrite header body)
  then show ?thesis using assms upload_file_ok [OF assms(1)] by simp
next
  case (R_DownloadFile slug raw)
  then show ?thesis using assms download_file_ok [OF assms(1)] by auto
next
  case (R_CreateSite name)
  show ?thesis using create_site_ok [OF assms(1)] assms(3,4) unfolding R_CreateSite by simp
next
  case (R_DeleteSite slug confirm)
  show ?thesis using delete_site_ok [OF assms(1)] assms(3,4) unfolding R_DeleteSite by simp
next
  case (R_DeleteFile slug raw)
  show ?thesis using delete_file_ok [OF assms(1)] assms(3,4) unfolding R_DeleteFile by simp
next
  case (R_DeleteFolder slug raw recursive)
  show ?thesis using delete_folder_ok [OF assms(1)] assms(3,4) unfolding R_DeleteFolder by simp
qed (use assms(2) in simp_all)

lemma volume_located:
  assumes "volume_ok sg st" "backend_view st slug = Some v" "q \<noteq> []" "sv_items v q \<noteq> Absent"
  shows "good_path q"
proof -
  have "what_at (st_sites st) (slug # q) \<noteq> Missing" using assms(2,4) by (auto simp: backend_view_def)
  from volume_okD(8) [OF assms(1,3) this] show ?thesis .
qed

interpretation real: site_store "rules_of bk" "volume_ok (bk_storage bk)" backend_view "\<lambda>mo. run_route bk mo actor"
  for bk :: backend and actor :: actor
  using real_store_step volume_located by unfold_locales blast+

end
