(* ===== verification/Site_Requests.thy ===== *)
theory Site_Requests
  imports Real_Listing Requests
begin

text \<open>
  A whole site or file request, from its header to its answer, against the contract: who is refused and how,
  and that an admitted one gets what \<open>spec\<close> says, with the invariants of volume and accounts kept.
\<close>

text \<open>What the header is good for on a route: nothing to hold against it, or the refusal.\<close>

definition header_refusal :: "backend \<Rightarrow> time \<Rightarrow> ustring option \<Rightarrow> access \<Rightarrow> database \<Rightarrow> exn option" where
  "header_refusal bk now h acc db =
     (case caller (bk_accounts bk) now h db of
        Some (type, scope, _) \<Rightarrow>
          if access_allows acc (Some type) (Some scope) then None
          else Some (if acc = SESSION_ONLY then ApiError 403 SESSION_REQUIRED else ApiError 403 FORBIDDEN)
      | None \<Rightarrow>
          (case parse_bearer h of
             Some secret \<Rightarrow> (case secret_digest (bk_accounts bk) secret of
                 Inl e \<Rightarrow> Some e | Inr _ \<Rightarrow> Some (ApiError 401 UNAUTHORIZED))
           | None \<Rightarrow> Some (ApiError 401 UNAUTHORIZED)))"

definition request_spec :: "backend \<Rightarrow> moment \<Rightarrow> ustring option \<Rightarrow> request \<Rightarrow> database \<Rightarrow> sites_view \<Rightarrow> outline \<times> sites_view" where
  "request_spec bk mo h rq db V =
     (case header_refusal bk (mo_auth_now mo) h (access_of rq) db of
        Some e \<Rightarrow> (O_Error e, V)
      | None \<Rightarrow> if \<not> valid_request rq then (O_Error RequestValidationError, V) else spec (rules_of bk) rq V)"

lemma requires_refusal:
  assumes "accounts_ok db" "requires bk now h acc db = (r, db')"
  shows "case header_refusal bk now h acc db of Some e \<Rightarrow> r = Inl e | None \<Rightarrow> \<exists>actor. r = Inr actor"
proof (cases "\<exists>secret t. parse_bearer h = Some secret \<and> stored_token (bk_accounts bk) db secret = Some t \<and> live_token now t")
  case True
  then obtain secret t where t: "parse_bearer h = Some secret" "stored_token (bk_accounts bk) db secret = Some t" "live_token now t"
    by blast
  then have c: "caller (bk_accounts bk) now h db = Some (grant_of t)"
    by (auto simp: caller_def stored_token_def grants_def split: sum.splits)
  obtain u e where "resolve_bearer (bk_accounts bk) now h db =
      (Inr (Some \<lparr>a_token = t\<lparr>t_last_used_at := Some now, t_expires_at := e\<rparr>, a_user = u\<rparr>), touch_token db (t_id t) now e)"
    using resolve_bearer_live [OF assms(1) t] unfolding Let_def by blast
  then show ?thesis using assms(2) c by (auto simp: requires_def header_refusal_def grant_of_def)
next
  case False
  then have c: "caller (bk_accounts bk) now h db = None"
    by (auto simp: caller_def stored_token_def grants_def split: option.splits sum.splits)
  have "\<not> (\<exists>a. fst (resolve_bearer (bk_accounts bk) now h db) = Inr (Some a))"
  proof
    assume "\<exists>a. fst (resolve_bearer (bk_accounts bk) now h db) = Inr (Some a)"
    then obtain a where "resolve_bearer (bk_accounts bk) now h db = (Inr (Some a), snd (resolve_bearer (bk_accounts bk) now h db))"
      by (metis prod.collapse)
    from resolve_found [OF assms(1) this] False show False by (auto simp: stored_token_def)
  qed
  then show ?thesis using assms(2) c
    by (auto simp: requires_def header_refusal_def resolve_bearer_def Let_def split: option.splits sum.splits if_splits)
qed

lemma volume_ok_accounts:
  assumes "volume_ok sg st" "db_ok db'" "db_sites db' = db_sites (st_db st)" "db_files db' = db_files (st_db st)"
  shows "volume_ok sg (st\<lparr>st_db := db'\<rparr>)" "backend_view (st\<lparr>st_db := db'\<rparr>) = backend_view st"
  using assms by (auto simp: volume_ok_def backend_view_def fun_eq_iff site_by_slug_def file_row_at_def)

lemma site_request_accounts: "site_request rq \<Longrightarrow> access_of rq \<notin> {PUBLIC, SESSION_ONLY}"
  by (cases rq) simp_all

lemma handle_site_request:
  assumes "volume_ok (bk_storage bk) st" "accounts_ok (st_db st)" "site_request rq" "undisturbed mo rq"
    and "handle bk mo h rq st = (r, st')"
  shows "(outlined r, backend_view st') = request_spec bk mo h rq (st_db st) (backend_view st)"
    "volume_ok (bk_storage bk) st'" "accounts_ok (st_db st')"
proof -
  have nl: "\<forall>u p. rq \<noteq> R_Login u p" using assms(3) by auto
  obtain q db' where q: "requires bk (mo_auth_now mo) h (access_of rq) (st_db st) = (q, db')" by (metis prod.collapse)
  note acc = requires_accounts_ok [OF assms(2) q] and frame = requires_frame [OF q]
  note v = volume_ok_accounts [OF assms(1) accounts_okD [OF acc] frame(2,3)]
  note refusal = requires_refusal [OF assms(2) q]
  have "(outlined r, backend_view st') = request_spec bk mo h rq (st_db st) (backend_view st)
    \<and> volume_ok (bk_storage bk) st' \<and> accounts_ok (st_db st')"
  proof (cases "\<exists>actor. q = Inr actor \<and> valid_request rq")
    case False
    then have "st' = st\<lparr>st_db := db'\<rparr>" "r = (case q of Inl e \<Rightarrow> Inl e | Inr _ \<Rightarrow> Inl RequestValidationError)"
      using assms(5) q by (auto simp: handle_protected [OF nl] split: sum.splits if_splits)
    then show ?thesis using False refusal v acc by (cases q) (auto simp: request_spec_def split: option.splits)
  next
    case True
    then obtain actor where d: "q = Inr actor" "valid_request rq" by blast
    then have route: "run_route bk mo actor rq (st\<lparr>st_db := db'\<rparr>) = (r, st')"
      using assms(5) q by (simp add: handle_protected [OF nl])
    have s: "volume_ok (bk_storage bk) st' \<and> outlined r = fst (spec (rules_of bk) rq (backend_view st))
        \<and> backend_view st' = snd (spec (rules_of bk) rq (backend_view st))"
      using real_store_step [OF v(1) assms(3,4) route] by (simp only: v(2))
    moreover have "accounts_ok (st_db st')"
    proof -
      have "db_ok (st_db st')" using s volume_okD(1) by blast
      then show ?thesis using acc run_route_accounts [OF route] site_request_accounts [OF assms(3)]
        by (simp add: accounts_ok_def)
    qed
    moreover have "header_refusal bk (mo_auth_now mo) h (access_of rq) (st_db st) = None"
      using refusal d by (auto split: option.splits)
    ultimately show ?thesis using d(2) by (simp add: request_spec_def)
  qed
  then show "(outlined r, backend_view st') = request_spec bk mo h rq (st_db st) (backend_view st)"
    "volume_ok (bk_storage bk) st'" "accounts_ok (st_db st')" by blast+
qed

text \<open>
  C4. A whole request refines the contract: a site or file request, whatever its header, is refused with the
  code the route table and the stored tokens give, leaving every site as it was, or gets the answer of the abstract
  specification and leaves the sites it says; the invariants of the volume and of the accounts are kept.
\<close>

theorem request_refines_contract:
  assumes "volume_ok (bk_storage bk) st" "accounts_ok (st_db st)" "site_request rq" "undisturbed mo rq"
    and "handle bk mo h rq st = (r, st')"
  shows "(outlined r, backend_view st') = request_spec bk mo h rq (st_db st) (backend_view st)
    \<and> volume_ok (bk_storage bk) st' \<and> accounts_ok (st_db st')"
  using handle_site_request [OF assms] by blast

section \<open>An agent's requests in a row\<close>

lemma caller_eq: "db_tokens db = db_tokens db' \<Longrightarrow> caller ac now h db = caller ac now h db'"
  by (simp add: caller_def grants_def token_by_secret_def split: option.split sum.split)

text \<open>An agent token does not expire.\<close>

lemma agent_any_time:
  assumes "accounts_ok db" "caller ac now h db = Some (AGENT, scope, owner)"
  shows "caller ac now' h db = Some (AGENT, scope, owner)"
proof -
  obtain secret d t where t: "parse_bearer h = Some secret" "secret_digest ac secret = Inr d" "token_by_secret db d = Some t"
    "live_token now t" "grant_of t = (AGENT, scope, owner)"
    using assms(2) by (auto simp: caller_def grants_def split: option.splits sum.splits if_splits)
  then have "t_expires_at t = None"
    using accounts_ok_shape [OF assms(1) token_by_secret_in [OF t(3)]] by (auto simp: token_shape_def grant_of_def)
  then have "live_token now' t" using t(4) by (simp add: live_token_def)
  then show ?thesis using t by (simp add: caller_def grants_def)
qed

lemma agent_request:
  assumes "volume_ok (bk_storage bk) st" "accounts_ok (st_db st)" "site_request rq" "undisturbed mo rq" "valid_request rq"
    and "caller (bk_accounts bk) now h (st_db st) = Some (AGENT, scope, owner)"
    and "access_allows (access_of rq) (Some AGENT) (Some scope)"
    and "handle bk mo h rq st = (r, st')"
  shows "outlined r = fst (spec (rules_of bk) rq (backend_view st))"
    "backend_view st' = snd (spec (rules_of bk) rq (backend_view st))"
    "volume_ok (bk_storage bk) st'" "accounts_ok (st_db st')"
    "caller (bk_accounts bk) now' h (st_db st') = Some (AGENT, scope, owner)"
proof -
  note c = agent_any_time [OF assms(2,6)]
  have "request_spec bk mo h rq (st_db st) (backend_view st) = spec (rules_of bk) rq (backend_view st)"
    using assms(5,7) c [of "mo_auth_now mo"] by (simp add: request_spec_def header_refusal_def)
  then show "outlined r = fst (spec (rules_of bk) rq (backend_view st))"
    "backend_view st' = snd (spec (rules_of bk) rq (backend_view st))"
    using handle_site_request(1) [OF assms(1-4,8)] by (metis fst_conv snd_conv)+
  show ok: "volume_ok (bk_storage bk) st'" "accounts_ok (st_db st')" using handle_site_request(2,3) [OF assms(1-4,8)] .
  obtain secret d where d: "parse_bearer h = Some secret" "secret_digest (bk_accounts bk) secret = Inr d"
    using assms(6) by (auto simp: caller_def split: option.splits sum.splits)
  obtain q db' where q: "requires bk (mo_auth_now mo) h (access_of rq) (st_db st) = (q, db')" by (metis prod.collapse)
  have "grants (mo_auth_now mo) db' d = grants (mo_auth_now mo) (st_db st) d"
    using requires_agent_grants [OF assms(2) q order.refl] c [of "mo_auth_now mo"] by simp
  moreover have "db_tokens (st_db st') = db_tokens db'"
  proof (cases "\<exists>actor. q = Inr actor")
    case True
    then obtain actor where "run_route bk mo actor rq (st\<lparr>st_db := db'\<rparr>) = (r, st')"
      using assms(3,5,8) q by (cases rq) (auto simp: handle_protected)
    from run_route_accounts [OF this] site_request_accounts [OF assms(3)] show ?thesis by simp
  next
    case False
    then show ?thesis using assms(3,8) q by (cases rq) (auto simp: handle_protected split: sum.splits)
  qed
  ultimately have "grants (mo_auth_now mo) (st_db st') d = grants (mo_auth_now mo) (st_db st) d"
    by (simp add: grants_def token_by_secret_def)
  then have "caller (bk_accounts bk) (mo_auth_now mo) h (st_db st') = Some (AGENT, scope, owner)"
    using c [of "mo_auth_now mo"] d by (simp add: caller_def)
  from agent_any_time [OF ok(2) this] show "caller (bk_accounts bk) now' h (st_db st') = Some (AGENT, scope, owner)" .
qed

end
