(* ===== verification/Mcp_Roundtrip.thy ===== *)
theory Mcp_Roundtrip
  imports Mcp_Calls Site_Requests
begin

text \<open>
  An agent's round trip through the MCP server and the backend: what its \<open>upload_file\<close> stored is what its
  \<open>download_file\<close> answers with.
\<close>

section \<open>A tool's request at the backend\<close>

lemma ask_handled:
  assumes "ask (wire bk mos) ctx rq st = (x, st')" "valid_request rq" "hc_path (client_http rq) \<noteq> None"
  obtains r where "handle bk (mos rq) (Some (bearer_header (tc_bearer ctx))) rq st = (r, st')"
    "x = (case r of Inr a \<Rightarrow> Inr (if returns_nothing rq then NoContent else a)
          | Inl e \<Rightarrow> Inl (FromClient (BackendError (fst (error_answer e)) (snd (error_answer e)))))"
proof -
  obtain r s1 where h: "handle bk (mos rq) (map_option bearer_header (Some (tc_bearer ctx))) rq st = (r, s1)"
    by (metis prod.collapse)
  from client_call_backend [OF assms(2,3) h, of "Some (lit ''mcp'')"] assms(1)
  have "s1 = st'" "x = (case r of Inr a \<Rightarrow> Inr (if returns_nothing rq then NoContent else a)
          | Inl e \<Rightarrow> Inl (FromClient (BackendError (fst (error_answer e)) (snd (error_answer e)))))"
    by (auto simp: ask_def wire_client split: sum.splits)
  then show ?thesis using that h by simp
qed

lemma client_paths:
  assumes "hc_path (client_http (R_UploadFile slug p overwrite header body)) \<noteq> None"
  shows "hc_path (client_http (R_DownloadFile slug p)) \<noteq> None" "hc_path (client_http (R_ListFiles slug q)) \<noteq> None"
  using assms by (auto simp: url_simps split: option.splits)

section \<open>The upload\<close>

lemma upload_tool_ok:
  assumes "upload_file_tool ex ctx site path content overwrite s = (Inr (O_Upload u), s')"
  shows "\<exists>p bytes status. site_and_path_args site path False = Inr (site, p) \<and> decode_content content = Inr bytes
    \<and> length bytes \<le> tc_max_file_bytes ctx \<and> canonical_path p
    \<and> ask ex ctx (R_UploadFile site p overwrite (Some (nat_text (length bytes))) \<lparr>ub_chunks = [bytes], ub_broken = False\<rparr>) s
        = (Inr (Uploaded status u), s')"
proof -
  obtain slug p where sp: "site_and_path_args site path False = Inr (slug, p)"
    using assms by (auto simp: upload_file_tool_def split: sum.splits)
  then have "slug = site" "canonical_path p"
    using path_not_root by (auto simp: site_and_path_args_def slug_arg_def path_arg_def validate_slug_def split: sum.splits if_splits)
  moreover obtain bytes where "decode_content content = Inr bytes" "length bytes \<le> tc_max_file_bytes ctx"
    using assms sp by (auto simp: upload_file_tool_def split: sum.splits if_splits)
  moreover obtain x s1 where x: "ask ex ctx (R_UploadFile slug p overwrite (Some (nat_text (length bytes)))
      \<lparr>ub_chunks = [bytes], ub_broken = False\<rparr>) s = (x, s1)" by (metis prod.collapse)
  ultimately have "answer_with (\<lambda>r. case r of Uploaded _ u \<Rightarrow> Some (O_Upload u) | _ \<Rightarrow> None) (x, s1) = (Inr (O_Upload u), s')"
    using assms sp by (simp add: upload_file_tool_def)
  then have "\<exists>status. x = Inr (Uploaded status u) \<and> s1 = s'"
    by (auto simp: answer_with_def split: sum.splits response.splits)
  then show ?thesis using sp x \<open>slug = site\<close> \<open>canonical_path p\<close> \<open>decode_content content = _\<close> \<open>length bytes \<le> _\<close> by blast
qed

text \<open>What the tool's upload has done at the backend, in the terms of the contract.\<close>

lemma upload_tool_effect:
  assumes "volume_ok (bk_storage bk) st" "accounts_ok (st_db st)" "\<forall>rq. calm (mo_env (mos rq))"
    and "caller (bk_accounts bk) now (Some (bearer_header (tc_bearer ctx))) (st_db st) = Some (AGENT, scope, owner)"
    and "tc_max_file_bytes ctx < 10 ^ Suc k" "k < 4300"
    and "run_handler (wire bk mos) ctx (T_UploadFile site path content overwrite) st = (Inr (O_Upload u), st1)"
  obtains bytes p v where "decode_content content = Inr bytes" "length bytes \<le> tc_max_file_bytes ctx"
    "site_and_path_args site path False = Inr (site, p)" "canonical_path p"
    "ur_path u = p" "ur_bytes u = length bytes" "ur_sha256 u = sg_sha256 (bk_storage bk) bytes"
    "backend_view st site = Some v"
    "backend_view st1 = (backend_view st)(site \<mapsto> v\<lparr>sv_items := with_file (segments_of p) bytes (sv_items v)\<rparr>)"
    "\<forall>q c. strict_prefix q (segments_of p) \<longrightarrow> sv_items v q \<noteq> Is_File c"
    "volume_ok (bk_storage bk) st1" "accounts_ok (st_db st1)"
    "\<And>now'. caller (bk_accounts bk) now' (Some (bearer_header (tc_bearer ctx))) (st_db st1) = Some (AGENT, scope, owner)"
    "\<And>q. hc_path (client_http (R_DownloadFile site p)) \<noteq> None \<and> hc_path (client_http (R_ListFiles site q)) \<noteq> None"
proof -
  obtain p bytes status where t: "site_and_path_args site path False = Inr (site, p)" "decode_content content = Inr bytes"
    "length bytes \<le> tc_max_file_bytes ctx" "canonical_path p"
    "ask (wire bk mos) ctx (R_UploadFile site p overwrite (Some (nat_text (length bytes)))
       \<lparr>ub_chunks = [bytes], ub_broken = False\<rparr>) st = (Inr (Uploaded status u), st1)"
    using assms(7) upload_tool_ok by (metis run_handler.simps(4))
  let ?rq = "R_UploadFile site p overwrite (Some (nat_text (length bytes))) \<lparr>ub_chunks = [bytes], ub_broken = False\<rparr>"
  have url: "hc_path (client_http ?rq) \<noteq> None"
    using t(5) by (auto simp: ask_def client_call_def split: if_splits)
  obtain r where r: "handle bk (mos ?rq) (Some (bearer_header (tc_bearer ctx))) ?rq st = (r, st1)"
    "Inr (Uploaded status u) = (case r of Inr a \<Rightarrow> Inr (if returns_nothing ?rq then NoContent else a)
          | Inl e \<Rightarrow> Inl (FromClient (BackendError (fst (error_answer e)) (snd (error_answer e)))))"
    using ask_handled [OF t(5) _ url] by auto
  then have ru: "r = Inr (Uploaded status u)" by (auto split: sum.splits)
  have "length bytes < 10 ^ Suc k" using t(3) assms(5) by (rule le_less_trans)
  then have "length (nat_text (length bytes)) \<le> 4300" using nat_text_length [of "length bytes" k] assms(6) by linarith
  then have quiet: "undisturbed (mos ?rq) ?rq" using assms(3) python_int_text by (simp add: declared_length_def)
  have whole: "(outlined r, backend_view st1) =
      request_spec bk (mos ?rq) (Some (bearer_header (tc_bearer ctx))) ?rq (st_db st) (backend_view st)"
    using handle_site_request(1) [OF assms(1,2) _ quiet r(1)] by simp
  then have acc: "access_allows (access_of ?rq) (Some AGENT) (Some scope)"
    using agent_any_time [OF assms(2,4), of "mo_auth_now (mos ?rq)"] ru
    by (auto simp: request_spec_def header_refusal_def split: if_splits)
  note eff = agent_request [OF assms(1,2) _ quiet _ assms(4) acc r(1)]
  have up: "O_Uploaded status u = fst (spec (rules_of bk) ?rq (backend_view st))" using eff(1) ru by simp
  then obtain v where v: "backend_view st site = Some v"
    by (auto simp: spec_target_def split: option.splits)
  have tgt: "spec_target (backend_view st) site p = Inr (v, p)"
    using v valid_path_canonical [OF t(4)] by (simp add: spec_target_def)
  obtain replaced where w: "spec_upload (rules_of bk) (sv_items v) (segments_of p) overwrite bytes = Inr replaced"
    using up tgt by (auto simp: Let_def split: sum.splits)
  show ?thesis
  proof (rule that [OF t(2,3,1,4) _ _ _ v])
    show "ur_path u = p" "ur_bytes u = length bytes" "ur_sha256 u = sg_sha256 (bk_storage bk) bytes"
      using up tgt w by (simp_all add: Let_def rules_of_def)
    show "backend_view st1 = (backend_view st)(site \<mapsto> v\<lparr>sv_items := with_file (segments_of p) bytes (sv_items v)\<rparr>)"
      using eff(2) tgt w by (simp add: Let_def)
    show "\<forall>q c. strict_prefix q (segments_of p) \<longrightarrow> sv_items v q \<noteq> Is_File c"
      using w by (auto simp: spec_upload_def split: if_splits)
    show "volume_ok (bk_storage bk) st1" "accounts_ok (st_db st1)" using eff(3,4) by simp_all
    show "caller (bk_accounts bk) now' (Some (bearer_header (tc_bearer ctx))) (st_db st1) = Some (AGENT, scope, owner)" for now'
      using eff(5) by simp
    show "hc_path (client_http (R_DownloadFile site p)) \<noteq> None \<and> hc_path (client_http (R_ListFiles site q)) \<noteq> None" for q
      using client_paths [OF url] by blast
  qed
qed

section \<open>The download\<close>

lemma ask_read:
  assumes "volume_ok (bk_storage bk) st" "accounts_ok (st_db st)" "\<forall>rq. calm (mo_env (mos rq))"
    and "caller (bk_accounts bk) now (Some (bearer_header (tc_bearer ctx))) (st_db st) = Some (AGENT, scope, owner)"
    and "site_request rq" "access_of rq = NEEDS_READ_ONLY" "hc_path (client_http rq) \<noteq> None" "\<not> returns_nothing rq"
    and "\<forall>e. fst (spec (rules_of bk) rq (backend_view st)) \<noteq> O_Error e"
  obtains a st' where "ask (wire bk mos) ctx rq st = (Inr a, st')"
    "outlined (Inr a) = fst (spec (rules_of bk) rq (backend_view st))"
    "backend_view st' = snd (spec (rules_of bk) rq (backend_view st))"
    "volume_ok (bk_storage bk) st'" "accounts_ok (st_db st')"
    "\<forall>now. caller (bk_accounts bk) now (Some (bearer_header (tc_bearer ctx))) (st_db st') = Some (AGENT, scope, owner)"
proof -
  have valid: "valid_request rq" and quiet: "undisturbed (mos rq) rq" using assms(3,5,6) by (cases rq; simp)+
  obtain x st' where ask: "ask (wire bk mos) ctx rq st = (x, st')" by (metis prod.collapse)
  obtain r where r: "handle bk (mos rq) (Some (bearer_header (tc_bearer ctx))) rq st = (r, st')"
    "x = (case r of Inr a \<Rightarrow> Inr (if returns_nothing rq then NoContent else a)
          | Inl e \<Rightarrow> Inl (FromClient (BackendError (fst (error_answer e)) (snd (error_answer e)))))"
    using ask_handled [OF ask valid assms(7)] .
  have acc: "access_allows (access_of rq) (Some AGENT) (Some scope)"
    unfolding assms(6) by (cases scope) (simp_all add: access_allows_token less_eq_scope_def)
  note eff = agent_request [OF assms(1,2,5) quiet valid assms(4) acc r(1)]
  have "r \<noteq> Inl e" for e using eff(1) assms(9) by (metis outlined.simps(1))
  then obtain a where "r = Inr a" by (cases r) auto
  with that ask r(2) eff assms(8) show ?thesis by simp
qed

lemma listed_size:
  assumes "map entry_line entries = spec_listing ru items q" "items (q @ [name]) = Is_File c"
    and "e \<in> set entries" "fe_name e = name" "fe_type e = FILE"
  shows "fe_bytes e = length c"
proof -
  have "entry_line e \<in> set (spec_listing ru items q)" using assms(1,3) by (metis image_eqI list.set_map)
  from in_listing [OF this] assms(2,4,5) show ?thesis by (auto simp: entry_line_def)
qed

lemma download_tool_answers:
  assumes "volume_ok (bk_storage bk) st" "accounts_ok (st_db st)" "\<forall>rq. calm (mo_env (mos rq))"
    and "caller (bk_accounts bk) now (Some (bearer_header (tc_bearer ctx))) (st_db st) = Some (AGENT, scope, owner)"
    and "site_and_path_args site path False = Inr (site, p)" "canonical_path p" "backend_view st site = Some v"
    and "sv_items v (segments_of (path_parent p)) = Is_Folder" "sv_items v (segments_of p) = Is_File bytes"
    and "length bytes \<le> tc_max_file_bytes ctx"
    and "\<And>q. hc_path (client_http (R_DownloadFile site p)) \<noteq> None \<and> hc_path (client_http (R_ListFiles site q)) \<noteq> None"
  shows "\<exists>d st'. run_handler (wire bk mos) ctx (T_DownloadFile site path) st = (Inr (O_Download d), st')
    \<and> do_site d = site \<and> do_path d = p \<and> do_bytes d = length bytes \<and> do_sha256 d = tc_sha256 ctx bytes
    \<and> do_content_base64 d = b64encode bytes \<and> backend_view st' = backend_view st"
proof -
  let ?list = "R_ListFiles site (path_parent p)" and ?down = "R_DownloadFile site p"
  note sp = segments_parent_name [OF assms(6)]
  have parent: "valid_path (path_parent p) True = Inr (path_parent p)"
    using sp(2) valid_path_canonical valid_path_root by auto
  have list_spec: "spec (rules_of bk) ?list (backend_view st) =
      (O_Entries site (path_parent p) (spec_listing (rules_of bk) (sv_items v) (segments_of (path_parent p))), backend_view st)"
    using assms(7,8) parent by simp
  have prem: "site_request ?list" "access_of ?list = NEEDS_READ_ONLY" "hc_path (client_http ?list) \<noteq> None"
    "\<not> returns_nothing ?list" "\<forall>e. fst (spec (rules_of bk) ?list (backend_view st)) \<noteq> O_Error e"
    unfolding list_spec using assms(11) by simp_all
  obtain a st1 where l: "ask (wire bk mos) ctx ?list st = (Inr a, st1)"
    "outlined (Inr a) = fst (spec (rules_of bk) ?list (backend_view st))"
    "backend_view st1 = snd (spec (rules_of bk) ?list (backend_view st))" "volume_ok (bk_storage bk) st1" "accounts_ok (st_db st1)"
    "\<forall>now. caller (bk_accounts bk) now (Some (bearer_header (tc_bearer ctx))) (st_db st1) = Some (AGENT, scope, owner)"
    using ask_read [OF assms(1-4) prem] .
  note l' = l(2,3) [unfolded list_spec fst_conv snd_conv]
  obtain listing where a: "a = Listing listing" using l'(1) by (cases a) auto
  have small: "\<not> over_cap ctx p listing"
    using listed_size [of "fl_entries listing" "rules_of bk" "sv_items v" "segments_of (path_parent p)" "path_name p" bytes] l'(1)
      assms(9,10) unfolding a sp(1) by (auto simp: over_cap_def find_Some_iff split: option.splits)
  obtain disposition where d: "attachment (path_name p) = Inr disposition"
    using canonical_name_encodes [OF assms(6)] by (auto simp: attachment_def quote_def Let_def)
  obtain t where t: "spec (rules_of bk) ?down (backend_view st1) = (O_Content bytes t disposition, backend_view st1)"
    using assms(7,9) valid_path_canonical [OF assms(6)] d by (simp add: l'(2) spec_target_def)
  have prem': "site_request ?down" "access_of ?down = NEEDS_READ_ONLY" "hc_path (client_http ?down) \<noteq> None"
    "\<not> returns_nothing ?down" "\<forall>e. fst (spec (rules_of bk) ?down (backend_view st1)) \<noteq> O_Error e"
    using t assms(11) by (simp_all del: spec.simps client_http.simps)
  obtain b st2 where b: "ask (wire bk mos) ctx ?down st1 = (Inr b, st2)"
    "outlined (Inr b) = fst (spec (rules_of bk) ?down (backend_view st1))"
    "backend_view st2 = snd (spec (rules_of bk) ?down (backend_view st1))"
    using ask_read [OF l(4,5) assms(3) l(6) [rule_format] prem'] by metis
  note b' = b(2,3) [unfolded t fst_conv snd_conv]
  have "b = Content bytes t disposition" using b'(1) by (cases b) auto
  then show ?thesis
    using assms(5,10) l(1) l'(2) a small b(1) b'(2) by (simp add: download_file_tool_def)
qed

section \<open>The round trip\<close>

definition upload_args :: "ustring \<Rightarrow> ustring \<Rightarrow> ustring \<Rightarrow> bool \<Rightarrow> arguments" where
  "upload_args site path content overwrite =
     [(lit ''site'', JStr site), (lit ''path'', JStr path), (lit ''content_base64'', JStr content),
      (lit ''overwrite'', JBool overwrite)]"

definition download_args :: "ustring \<Rightarrow> ustring \<Rightarrow> arguments" where
  "download_args site path = [(lit ''site'', JStr site), (lit ''path'', JStr path)]"

lemma dispatch_upload:
  "dispatch ex tool_specs (lit ''upload_file'') (upload_args site path content overwrite) ctx granted s = (Inr out, s') \<Longrightarrow>
     run_handler ex ctx (T_UploadFile site path content overwrite) s = (Inr out, s')"
  by (auto simp: dispatch_def tool_specs_def spec_for_def upload_file_input_def upload_args_def only_fields_def two_strings_def
      str_arg_def bool_default_def simp del: run_handler.simps split: if_splits prod.splits sum.splits)

lemma dispatch_download:
  "run_handler ex ctx (T_DownloadFile site path) s = (Inr out, s') \<Longrightarrow>
     dispatch ex tool_specs (lit ''download_file'') (download_args site path) ctx granted s = (Inr out, s')"
  by (auto simp: dispatch_def tool_specs_def spec_for_def download_file_input_def download_args_def only_fields_def two_strings_def
      str_arg_def scope_allows_iff less_eq_scope_def simp del: run_handler.simps split: if_splits prod.splits sum.splits)

lemma a2b_bytes:
  assumes "a2b quad left pads started s = Some bs"
    and "quad = 1 \<longrightarrow> left < 64" "quad = 2 \<longrightarrow> left < 16" "quad = 3 \<longrightarrow> left < 4" "quad \<le> 3"
  shows "\<forall>x\<in>set bs. x < 256"
  using assms
proof (induction quad left pads started s arbitrary: bs rule: a2b.induct)
  case (2 quad left pads started c cs)
  have six: "v < 64" if "sextet c = Some v" for v using that by (auto simp: sextet_def split: if_splits)
  show ?case
  proof (cases "c = 61")
    case True
    then show ?thesis using 2 by (auto split: if_splits)
  next
    case False
    then obtain v where v: "sextet c = Some v" "\<not> started" using 2(6) by (auto split: option.splits if_splits)
    note d = six [OF v(1)]
    consider "quad = 0" | "quad = 1" | "quad = 2" | "quad = 3" using 2(10) by linarith
    then show ?thesis
    proof cases
      case 1
      with 2(6) False v have "a2b 1 v 0 False cs = Some bs" by simp
      from 2(2) [OF False v 1 this] d show ?thesis by simp
    next
      case quad: 2
      with 2(6) False v obtain bs' where b: "a2b 2 (v mod 16) 0 False cs = Some bs'" "bs = (left * 4 + v div 16) # bs'" by auto
      have "left * 4 + v div 16 < 256" using 2(7) quad d by (simp add: less_mult_imp_div_less)
      moreover have "\<forall>x\<in>set bs'. x < 256" using 2(3) [OF False v _ quad b(1)] quad by simp
      ultimately show ?thesis using b(2) by simp
    next
      case quad: 3
      with 2(6) False v obtain bs' where b: "a2b 3 (v mod 4) 0 False cs = Some bs'" "bs = (left * 16 + v div 4) # bs'" by auto
      have "left * 16 + v div 4 < 256" using 2(8) quad d by (simp add: less_mult_imp_div_less)
      moreover have "\<forall>x\<in>set bs'. x < 256" using 2(4) [OF False v _ _ quad b(1)] quad by simp
      ultimately show ?thesis using b(2) by simp
    next
      case quad: 4
      with 2(6) False v obtain bs' where b: "a2b 0 0 0 False cs = Some bs'" "bs = (left * 64 + v) # bs'" by auto
      have "left * 64 + v < 256" using 2(9) quad d by simp
      moreover have "\<forall>x\<in>set bs'. x < 256" using 2(5) [OF False v _ _ _ b(1)] quad by simp
      ultimately show ?thesis using b(2) by simp
    qed
  qed
qed (auto split: if_splits)

lemma decoded_bytes: "decode_content content = Inr bytes \<Longrightarrow> \<forall>x\<in>set bytes. x < 256"
  using a2b_bytes [of 0 0 0 False "filter (\<lambda>c. \<not> is_space c) content" bytes]
  by (auto simp: decode_content_def b64decode_def split: option.splits)

text \<open>
  C11. What an agent uploads through the MCP server it gets back through it: after an answered \<open>upload_file\<close>,
  \<open>download_file\<close> of the same site and path, with any scope the token has, is answered, and its
  base64 content decodes to exactly the bytes the upload's content decoded to; path and length are those the upload
  reported.
\<close>

theorem mcp_round_trip:
  assumes "volume_ok (bk_storage bk) st" "accounts_ok (st_db st)" "\<forall>rq. calm (mo_env (mos rq))" "\<forall>rq. calm (mo_env (mos' rq))"
    and "caller (bk_accounts bk) now (Some (bearer_header (tc_bearer ctx))) (st_db st) = Some (AGENT, scope, owner)"
    and "tc_max_file_bytes ctx < 10 ^ Suc k" "k < 4300"
    and "dispatch (wire bk mos) tool_specs (lit ''upload_file'') (upload_args site path content overwrite) ctx granted st =
      (Inr (O_Upload u), st1)"
  shows "\<exists>bytes d st2. decode_content content = Inr bytes
    \<and> dispatch (wire bk mos') tool_specs (lit ''download_file'') (download_args site path) ctx granted' st1 = (Inr (O_Download d), st2)
    \<and> decode_content (do_content_base64 d) = Inr bytes \<and> do_bytes d = length bytes \<and> do_bytes d = ur_bytes u
    \<and> do_site d = site \<and> do_path d = ur_path u \<and> backend_view st2 = backend_view st1"
proof -
  obtain bytes p v where u: "decode_content content = Inr bytes" "length bytes \<le> tc_max_file_bytes ctx"
    "site_and_path_args site path False = Inr (site, p)" "canonical_path p"
    "ur_path u = p" "ur_bytes u = length bytes" "ur_sha256 u = sg_sha256 (bk_storage bk) bytes"
    "backend_view st site = Some v"
    "backend_view st1 = (backend_view st)(site \<mapsto> v\<lparr>sv_items := with_file (segments_of p) bytes (sv_items v)\<rparr>)"
    "\<forall>q c. strict_prefix q (segments_of p) \<longrightarrow> sv_items v q \<noteq> Is_File c"
    "volume_ok (bk_storage bk) st1" "accounts_ok (st_db st1)"
    "\<And>now'. caller (bk_accounts bk) now' (Some (bearer_header (tc_bearer ctx))) (st_db st1) = Some (AGENT, scope, owner)"
    "\<And>q. hc_path (client_http (R_DownloadFile site p)) \<noteq> None \<and> hc_path (client_http (R_ListFiles site q)) \<noteq> None"
    using upload_tool_effect [OF assms(1,2,3,5,6,7) dispatch_upload [OF assms(8)]] by blast
  let ?items = "with_file (segments_of p) bytes (sv_items v)"
  have seg: "strict_prefix (segments_of (path_parent p)) (segments_of p)"
    using segments_parent_name(1) [OF u(4)] by (simp add: strict_prefix_def)
  have parent: "?items (segments_of (path_parent p)) = Is_Folder"
    using u(10) seg by (cases "sv_items v (segments_of (path_parent p))") (auto simp: with_file_def)
  obtain d st2 where d: "run_handler (wire bk mos') ctx (T_DownloadFile site path) st1 = (Inr (O_Download d), st2)"
    "do_site d = site" "do_path d = p" "do_bytes d = length bytes" "do_content_base64 d = b64encode bytes"
    "backend_view st2 = backend_view st1"
    using download_tool_answers [OF u(11,12) assms(4) u(13,3,4) _ _ _ u(2,14), of "v\<lparr>sv_items := ?items\<rparr>"] u(9) parent
    by (auto simp: with_file_def)
  have "decode_content (b64encode bytes) = Inr bytes" using decode_content_encoded(1) decoded_bytes [OF u(1)] by blast
  then show ?thesis using dispatch_download [OF d(1)] d u(1,5,6) by auto
qed

end
