(* ===== verification/Request_Instances.thy ===== *)
theory Request_Instances
  imports Requests
begin

text \<open>The theorems of \<open>Requests\<close> at a concrete backend with one account, its session and an
  agent token, and one site.\<close>

definition sample_backend :: backend where
  "sample_backend = \<lparr>bk_accounts = sample_accounts\<lparr>ac_hasher :=
       \<lparr>h_hash = (\<lambda>salt pw. pw), h_verify = (\<lambda>hash pw. pw = hash), h_needs_rehash = (\<lambda>_. False)\<rparr>\<rparr>,
     bk_storage = sample_storage, bk_nfkd = (\<lambda>s. s), bk_mime = (\<lambda>_. None), bk_public_sites_url = lit ''http://h''\<rparr>"

definition sample_moment :: moment where
  "sample_moment = \<lparr>mo_auth_now = 50, mo_now = 51, mo_draws = sample_draws 7, mo_env = sample_env\<rparr>"

definition sample_world :: state where
  "sample_world = sample_state\<lparr>st_db := sample_db
     \<lparr>db_users := [sample_user\<lparr>u_password_hash := lit ''secret''\<rparr>],
      db_sites := db_sites (st_db sample_state), db_files := db_files (st_db sample_state)\<rparr>\<rparr>"

abbreviation session_header :: "ustring option" where "session_header \<equiv> Some (lit ''Bearer pb_B'')"
abbreviation agent_header :: "ustring option" where "agent_header \<equiv> Some (lit ''Bearer pb_C'')"

lemma agent_parse: "parse_bearer agent_header = Some (lit ''pb_C'')"
  by (simp add: parse_bearer_def partition_on_def ascii_lower_def strip_def lstrip_def rstrip_def is_space_def)

lemma sample_world_ok: "accounts_ok (st_db sample_world)" "what_at (st_sites sample_world) [] = A_Folder"
  by code_simp+

lemma sample_caller:
  "caller (bk_accounts sample_backend) 50 session_header (st_db sample_world) = Some (SESSION, SESSION_SCOPE, lit ''usr_0'')"
  "caller (bk_accounts sample_backend) 50 agent_header (st_db sample_world) = Some (AGENT, READ_ONLY, lit ''usr_0'')"
  unfolding caller_def sample_parse agent_parse by code_simp+

theorem answered_only_with_access_witness:
  "fst (handle sample_backend sample_moment agent_header (R_GetSite (lit ''docs'')) sample_world) =
     Inr (SiteResponse 200 \<lparr>so_slug = lit ''docs'', so_name = lit ''Docs'', so_url = lit ''http://h/docs/'',
       so_created_at = 1, so_file_count = 1, so_bytes = 2\<rparr>)
   \<and> (\<exists>type scope owner. caller (bk_accounts sample_backend) 50 agent_header (st_db sample_world) = Some (type, scope, owner)
       \<and> access_allows NEEDS_READ_ONLY (Some type) (Some scope))"
proof -
  let ?h = "handle sample_backend sample_moment agent_header (R_GetSite (lit ''docs'')) sample_world"
  let ?r = "SiteResponse 200 \<lparr>so_slug = lit ''docs'', so_name = lit ''Docs'', so_url = lit ''http://h/docs/'',
       so_created_at = 1, so_file_count = 1, so_bytes = 2\<rparr>"
  have f: "fst ?h = Inr ?r"
    unfolding handle_def requires_def resolve_bearer_def agent_parse by code_simp
  then have "?h = (Inr ?r, snd ?h)" by (metis prod.collapse)
  from answered_only_with_access [OF sample_world_ok(1) this] f show ?thesis
    by (simp add: sample_moment_def)
qed

theorem tree_changes_need_scope_witness:
  "what_at (st_sites (snd (handle sample_backend sample_moment session_header
       (R_DeleteFile (lit ''docs'') (lit ''a/b'')) sample_world))) [lit ''docs'', lit ''a'', lit ''b''] = Missing
   \<and> (\<exists>type owner. caller (bk_accounts sample_backend) 50 session_header (st_db sample_world) =
        Some (type, REMOVE_DESTRUCTIVE, owner))"
proof -
  let ?h = "handle sample_backend sample_moment session_header (R_DeleteFile (lit ''docs'') (lit ''a/b'')) sample_world"
  let ?q = "[lit ''docs'', lit ''a'', lit ''b'']"
  have f: "what_at (st_sites (snd ?h)) ?q = Missing"
    unfolding handle_def requires_def resolve_bearer_def sample_parse by code_simp
  have g: "what_at (st_sites sample_world) ?q = A_File [1, 2] 3" by code_simp
  from tree_changes_need_scope [OF sample_world_ok prod.collapse [symmetric], where q = ?q and bk = sample_backend
      and mo = sample_moment and h = session_header and rq = "R_DeleteFile (lit ''docs'') (lit ''a/b'')"] f g
  show ?thesis by (auto simp: sample_moment_def)
qed

theorem only_sessions_change_accounts_witness:
  "grants 60 (st_db (snd (handle sample_backend sample_moment agent_header R_ListSites sample_world))) (lit ''pb_B'') =
     Some (SESSION, SESSION_SCOPE, lit ''usr_0'')"
proof -
  have g: "grants 60 (st_db sample_world) (lit ''pb_B'') = Some (SESSION, SESSION_SCOPE, lit ''usr_0'')" by code_simp
  have "mo_auth_now sample_moment = 50" by (simp add: sample_moment_def)
  with only_sessions_change_accounts [OF sample_world_ok(1) prod.collapse [symmetric],
      where rq = R_ListSites and mo = sample_moment and now = 60 and h = agent_header and bk = sample_backend]
    sample_caller(2) g
  show ?thesis by simp
qed

theorem an_account_remains_witness:
  "fst (handle sample_backend sample_moment session_header (R_DeleteUser (lit ''usr_0'')) sample_world) =
     Inl (ApiError 409 LAST_USER)
   \<and> 1 \<le> count_users (st_db (snd (handle sample_backend sample_moment session_header (R_DeleteUser (lit ''usr_0'')) sample_world)))"
proof -
  have f: "fst (handle sample_backend sample_moment session_header (R_DeleteUser (lit ''usr_0'')) sample_world) =
      Inl (ApiError 409 LAST_USER)"
    unfolding handle_def requires_def resolve_bearer_def sample_parse by code_simp
  have "1 \<le> count_users (st_db sample_world)" by code_simp
  from an_account_remains [OF sample_world_ok(1) this prod.collapse [symmetric]] f show ?thesis by blast
qed

theorem errors_follow_contract_witness:
  "fst (handle sample_backend sample_moment agent_header (R_DeleteSite (lit ''docs'') None) sample_world) =
     Inl (ApiError 403 FORBIDDEN)
   \<and> fst (error_answer (ApiError 403 FORBIDDEN)) = status_of (snd (error_answer (ApiError 403 FORBIDDEN)))"
proof -
  let ?h = "handle sample_backend sample_moment agent_header (R_DeleteSite (lit ''docs'') None) sample_world"
  have f: "fst ?h = Inl (ApiError 403 FORBIDDEN)"
    unfolding handle_def requires_def resolve_bearer_def agent_parse by code_simp
  then have "?h = (Inl (ApiError 403 FORBIDDEN), snd ?h)" by (metis prod.collapse)
  from errors_follow_contract [OF this] f show ?thesis by blast
qed


end
