(* ===== verification/Mcp_Instances.thy ===== *)
theory Mcp_Instances
  imports Request_Instances Mcp_Calls
begin

text \<open>The theorems of \<open>Client\<close>, \<open>Mcp_Gate\<close> and \<open>Mcp_Calls\<close> at a concrete backend, gate and server.\<close>

definition sample_mcp_world :: state where
  "sample_mcp_world = sample_world\<lparr>st_db := (st_db sample_world)
     \<lparr>db_tokens := [(lit ''pb_C'', sample_agent\<lparr>t_scope := REMOVE_DESTRUCTIVE\<rparr>)]\<rparr>\<rparr>"

definition sample_gate :: gate where
  "sample_gate = \<lparr>tg_security = (\<lambda>_. None), tg_max_body_bytes = 100, tg_lifespan = True\<rparr>"

definition sample_scope :: asgi_scope where
  "sample_scope = \<lparr>as_http = True, as_method = lit ''POST'', as_headers = [(lit ''authorization'', lit ''Bearer pb_C'')],
     as_confirmed = None\<rparr>"

definition sample_server :: mcp_server where
  "sample_server = \<lparr>ms_lifespan = True, ms_max_file_bytes = 4, ms_sha256 = (\<lambda>_. [])\<rparr>"

definition sample_context :: tool_context where
  "sample_context = \<lparr>tc_bearer = lit ''pb_C'', tc_max_file_bytes = 4, tc_sha256 = (\<lambda>_. [])\<rparr>"

lemma sample_mcp_world_ok: "accounts_ok (st_db sample_mcp_world)" "what_at (st_sites sample_mcp_world) [] = A_Folder"
  by code_simp+

abbreviation sample_delete :: request where
  "sample_delete \<equiv> R_DeleteFile (lit ''docs'') (lit ''a/b'')"


theorem gate_admits_agents_only_witness:
  "\<exists>owner. caller (bk_accounts sample_backend) (mo_auth_now sample_moment) (Some (bearer_header (lit ''pb_C''))) (st_db sample_mcp_world) =
     Some (AGENT, REMOVE_DESTRUCTIVE, owner)"
proof -
  let ?g = "gate_call (rest_exchange sample_backend sample_moment) sample_gate sample_scope sample_mcp_world"
  let ?me = "\<lparr>ts_id = lit ''tok_2'', ts_name = lit ''ci'', ts_type = AGENT, ts_scope = REMOVE_DESTRUCTIVE,
    ts_username = lit ''ann'', ts_expires_at = None\<rparr>"
  have f: "fst ?g = Passed (sample_scope\<lparr>as_confirmed := Some \<lparr>cf_bearer = lit ''pb_C'', cf_token = ?me\<rparr>\<rparr>)"
    by code_simp
  then have g: "?g = (Passed (sample_scope\<lparr>as_confirmed := Some \<lparr>cf_bearer = lit ''pb_C'', cf_token = ?me\<rparr>\<rparr>), snd ?g)"
    by (metis prod.collapse)
  have "as_http sample_scope" by (simp add: sample_scope_def)
  from gate_admits_agents_only [OF sample_mcp_world_ok(1) g this] show ?thesis
    by (auto simp: confirmed_from_def)
qed

text \<open>Two exchanges that differ on the requests a read-only token may not make.\<close>

theorem tools_stay_in_scope_witness:
  "dispatch (\<lambda>rq _ _ n. (Lost, Suc n)) tool_specs (lit ''delete_site'') [] sample_context READ_ONLY 0 =
   dispatch (\<lambda>rq _ _ n. if access_of rq = NEEDS_REMOVE_DESTRUCTIVE then (Broken, n) else (Lost, Suc n))
     tool_specs (lit ''delete_site'') [] sample_context READ_ONLY 0"
  by (rule tools_stay_in_scope) (auto simp: access_allows_token less_eq_scope_def fun_eq_iff)

theorem mcp_tree_changes_need_scope_witness:
  "what_at (st_sites (snd (mcp_call (wire sample_backend (\<lambda>_. sample_moment)) sample_gate sample_server sample_scope
       (lit ''delete_file'') [(lit ''site'', JStr (lit ''docs'')), (lit ''path'', JStr (lit ''a/b''))] sample_mcp_world)))
     [lit ''docs'', lit ''a'', lit ''b''] = Missing
   \<and> (\<exists>bearer owner. bearer_from (as_headers sample_scope) = Some bearer
       \<and> caller (bk_accounts sample_backend) (mo_auth_now sample_moment) (Some (bearer_header bearer)) (st_db sample_mcp_world) =
           Some (AGENT, REMOVE_DESTRUCTIVE, owner))"
proof -
  let ?c = "mcp_call (wire sample_backend (\<lambda>_. sample_moment)) sample_gate sample_server sample_scope
       (lit ''delete_file'') [(lit ''site'', JStr (lit ''docs'')), (lit ''path'', JStr (lit ''a/b''))] sample_mcp_world"
  let ?q = "[lit ''docs'', lit ''a'', lit ''b'']"
  have f: "what_at (st_sites (snd ?c)) ?q = Missing" by code_simp
  have g: "what_at (st_sites sample_mcp_world) ?q = A_File [1, 2] 3" by code_simp
  have http: "as_http sample_scope" by (simp add: sample_scope_def)
  have ne: "what_at (st_sites (snd ?c)) ?q \<noteq> what_at (st_sites sample_mcp_world) ?q"
    unfolding f g by simp
  have "?c = (fst ?c, snd ?c)" by (rule prod.collapse [symmetric])
  from mcp_tree_changes_need_scope [OF sample_mcp_world_ok this http ne] show ?thesis unfolding f by blast
qed

end
