(* ===== verification/Fake_Backend.thy ===== *)
theory Fake_Backend
  imports Backend_Routes
begin

text \<open>
  The in-memory backend of \<open>src/paper_boxing/common/fake_backend.py\<close>, which the tests of the
  frontend and of the MCP server run against.  Its dictionaries are association lists in insertion
  order; its routes take the same requests and give the same responses as those of the real
  backend.  A dictionary access that raises is \<open>KeyError\<close>.
\<close>

section \<open>State\<close>

record fake_user =
  fu_id :: ustring
  fu_username :: ustring
  fu_password :: ustring
  fu_created_at :: time

record fake_token =
  ft_id :: ustring
  ft_name :: ustring
  ft_type :: token_type
  ft_scope :: scope
  ft_user_id :: ustring
  ft_created_at :: time
  ft_last_used_at :: "time option"
  ft_expires_at :: "time option"
  ft_revoked :: bool

record fake_file =
  ff_content :: octets
  ff_modified_at :: time

record fake_site =
  fs_slug :: ustring
  fs_name :: ustring
  fs_created_at :: time
  fs_files :: "(ustring \<times> fake_file) list"
  fs_folders :: "(ustring \<times> time) list"

record recorded_request =
  rr_route :: ustring
  rr_token_id :: "ustring option"
  rr_via :: "ustring option"

record fake_state =
  fk_users :: "(ustring \<times> fake_user) list"
  fk_tokens :: "(ustring \<times> fake_token) list"
  fk_secrets :: "(ustring \<times> ustring) list"
  fk_sites :: "(ustring \<times> fake_site) list"
  fk_requests :: "recorded_request list"

text \<open>The constants of one fake: its address, cap, session length and libraries.\<close>

record fake_config =
  fc_public_sites_url :: ustring
  fc_max_upload_bytes :: nat
  fc_session_length :: time
  fc_sha256 :: "octets \<Rightarrow> ustring"
  fc_nfkd :: "ustring \<Rightarrow> ustring"
  fc_mime :: "ustring \<Rightarrow> ustring option"

section \<open>A site\<close>

definition has_folder :: "fake_site \<Rightarrow> ustring \<Rightarrow> bool" where
  "has_folder site path \<longleftrightarrow> path = [] \<or> map_of (fs_folders site) path \<noteq> None"

lemma path_parent_shorter: "p \<noteq> [] \<Longrightarrow> length (path_parent p) < length p"
proof -
  assume "p \<noteq> []"
  have "length (path_parent p) = length (tl (dropWhile (\<lambda>x. x \<noteq> slash) (rev p)))"
    by (simp add: path_parent_def rpartition_on_def)
  also have "\<dots> \<le> length (dropWhile (\<lambda>x. x \<noteq> slash) (rev p)) - 1" by simp
  also have "\<dots> < length p"
    using length_dropWhile_le [of "\<lambda>x. x \<noteq> slash" "rev p"] \<open>p \<noteq> []\<close>
    by (simp add: less_eq_Suc_le flip: length_greater_0_conv)
  finally show ?thesis .
qed

text \<open>The loop of \<open>add_folders_for\<close>, from a parent upwards.\<close>

function add_folders_up :: "time \<Rightarrow> ustring \<Rightarrow> (ustring \<times> time) list \<Rightarrow> (ustring \<times> time) list" where
  "add_folders_up now parent folders =
     (if parent \<noteq> [] \<and> map_of folders parent = None
      then add_folders_up now (path_parent parent) (AList.update parent now folders)
      else folders)"
  by pat_completeness auto
termination
  by (relation "measure (\<lambda>(_, p, _). length p)") (auto simp: path_parent_shorter)

declare add_folders_up.simps [simp del]

definition add_folders_for :: "time \<Rightarrow> ustring \<Rightarrow> fake_site \<Rightarrow> fake_site" where
  "add_folders_for now path site =
     site\<lparr>fs_folders := add_folders_up now (path_parent path) (fs_folders site)\<rparr>"

text \<open>\<open>f"{folder}/" if folder else ""\<close>.\<close>

definition folder_prefix :: "ustring \<Rightarrow> ustring" where
  "folder_prefix folder = (if folder = [] then [] else folder @ [slash])"

definition children :: "fake_site \<Rightarrow> ustring \<Rightarrow> ustring list \<times> ustring list" where
  "children site folder =
     (let pre = folder_prefix folder;
          subfolders = sort (filter (\<lambda>p. path_parent p = folder) (map fst (fs_folders site)));
          files = sort (filter (\<lambda>p. path_parent p = folder) (map fst (fs_files site)))
      in (filter (prefix pre) subfolders, filter (prefix pre) files))"

definition descendants :: "fake_site \<Rightarrow> ustring \<Rightarrow> ustring list \<times> ustring list" where
  "descendants site folder =
     (let pre = folder_prefix folder in
      (filter (prefix pre) (map fst (fs_folders site)), filter (prefix pre) (map fst (fs_files site))))"

definition file_bytes :: "fake_site \<Rightarrow> ustring \<Rightarrow> nat" where
  "file_bytes site p = (case map_of (fs_files site) p of None \<Rightarrow> 0 | Some f \<Rightarrow> length (ff_content f))"

definition folder_bytes :: "fake_site \<Rightarrow> ustring \<Rightarrow> nat" where
  "folder_bytes site folder = sum_list (map (file_bytes site) (snd (descendants site folder)))"

definition folder_modified_at :: "fake_site \<Rightarrow> ustring \<Rightarrow> time option" where
  "folder_modified_at site folder =
     (case map_of (fs_folders site) folder of None \<Rightarrow> None
      | Some t \<Rightarrow> Some (Max (set (t # map ff_modified_at
          (List.map_filter (map_of (fs_files site)) (snd (descendants site folder)))))))"

section \<open>Users and tokens\<close>

definition add_user :: "time \<Rightarrow> draws \<Rightarrow> ustring \<Rightarrow> ustring \<Rightarrow> fake_state \<Rightarrow> (exn + fake_user) \<times> fake_state" where
  "add_user now dr username password fk =
     (if list_ex (\<lambda>(_, u). fu_username u = username) (fk_users fk) then (Inl ValueError, fk)
      else let user = \<lparr>fu_id = new_id dr ''usr'', fu_username = username, fu_password = password, fu_created_at = now\<rparr>
        in (Inr user, fk\<lparr>fk_users := AList.update (fu_id user) user (fk_users fk)\<rparr>))"

definition user_by_name :: "ustring \<Rightarrow> fake_state \<Rightarrow> exn + fake_user" where
  "user_by_name username fk =
     (case find (\<lambda>(_, u). fu_username u = username) (fk_users fk) of None \<Rightarrow> Inl KeyError | Some (_, u) \<Rightarrow> Inr u)"

definition store_token :: "draws \<Rightarrow> fake_token \<Rightarrow> fake_state \<Rightarrow> ustring \<times> fake_state" where
  "store_token dr token fk =
     (let secret = new_secret dr in
      (secret, fk\<lparr>fk_tokens := AList.update (ft_id token) token (fk_tokens fk),
                  fk_secrets := AList.update secret (ft_id token) (fk_secrets fk)\<rparr>))"

definition issue_session ::
  "fake_config \<Rightarrow> time \<Rightarrow> draws \<Rightarrow> ustring \<Rightarrow> fake_state \<Rightarrow> (exn + ustring) \<times> fake_state" where
  "issue_session fc now dr username fk =
     (case user_by_name username fk of Inl e \<Rightarrow> (Inl e, fk)
      | Inr user \<Rightarrow>
          let token = \<lparr>ft_id = new_id dr ''tok'', ft_name = lit ''session'', ft_type = SESSION, ft_scope = SESSION_SCOPE,
                ft_user_id = fu_id user, ft_created_at = now, ft_last_used_at = None,
                ft_expires_at = Some (now + fc_session_length fc), ft_revoked = False\<rparr>;
              (secret, fk') = store_token dr token fk
          in (Inr secret, fk'))"

definition issue_agent_token ::
  "time \<Rightarrow> draws \<Rightarrow> ustring \<Rightarrow> ustring \<Rightarrow> scope \<Rightarrow> fake_state \<Rightarrow> (exn + fake_token \<times> ustring) \<times> fake_state" where
  "issue_agent_token now dr username name scope fk =
     (case user_by_name username fk of Inl e \<Rightarrow> (Inl e, fk)
      | Inr user \<Rightarrow>
          let token = \<lparr>ft_id = new_id dr ''tok'', ft_name = name, ft_type = AGENT, ft_scope = scope,
                ft_user_id = fu_id user, ft_created_at = now, ft_last_used_at = None, ft_expires_at = None,
                ft_revoked = False\<rparr>;
              (secret, fk') = store_token dr token fk
          in (Inr (token, secret), fk'))"

text \<open>\<open>FakeState.revoke\<close>, which the tests call.\<close>

definition revoke_by_id :: "ustring \<Rightarrow> fake_state \<Rightarrow> (exn + unit) \<times> fake_state" where
  "revoke_by_id token_id fk =
     (case map_of (fk_tokens fk) token_id of None \<Rightarrow> (Inl KeyError, fk)
      | Some t \<Rightarrow> (Inr (), fk\<lparr>fk_tokens := AList.update token_id (t\<lparr>ft_revoked := True\<rparr>) (fk_tokens fk)\<rparr>))"

definition requests_for :: "ustring \<Rightarrow> fake_state \<Rightarrow> recorded_request list" where
  "requests_for token_id fk = filter (\<lambda>r. rr_token_id r = Some token_id) (fk_requests fk)"

definition fake_public_user :: "fake_user \<Rightarrow> user_out" where
  "fake_public_user u = \<lparr>uo_id = fu_id u, uo_username = fu_username u, uo_created_at = fu_created_at u\<rparr>"

definition fake_public_token :: "fake_state \<Rightarrow> fake_token \<Rightarrow> exn + token_out" where
  "fake_public_token fk t =
     (case map_of (fk_users fk) (ft_user_id t) of None \<Rightarrow> Inl KeyError
      | Some user \<Rightarrow> Inr \<lparr>to_id = ft_id t, to_name = ft_name t, to_type = ft_type t, to_scope = ft_scope t,
          to_username = fu_username user, to_created_at = ft_created_at t, to_last_used_at = ft_last_used_at t,
          to_expires_at = ft_expires_at t\<rparr>)"

definition fake_public_site :: "fake_config \<Rightarrow> fake_site \<Rightarrow> site_out" where
  "fake_public_site fc site =
     \<lparr>so_slug = fs_slug site, so_name = fs_name site, so_url = site_url (fc_public_sites_url fc) (fs_slug site),
      so_created_at = fs_created_at site, so_file_count = length (fs_files site),
      so_bytes = sum_list (map (\<lambda>(_, f). length (ff_content f)) (fs_files site))\<rparr>"

section \<open>Authorization\<close>

definition bearer :: "ustring option \<Rightarrow> ustring option" where
  "bearer header =
     (let (scheme, v) = partition_on 32 (case header of None \<Rightarrow> [] | Some h \<Rightarrow> h) in
      if map ascii_lower scheme \<noteq> lit ''bearer'' \<or> strip is_space v = [] then None else Some (strip is_space v))"

definition resolve_token ::
  "fake_config \<Rightarrow> time \<Rightarrow> ustring option \<Rightarrow> fake_state \<Rightarrow> (exn + fake_token option) \<times> fake_state" where
  "resolve_token fc now header fk =
     (case bearer header of None \<Rightarrow> (Inr None, fk)
      | Some secret \<Rightarrow>
        (case map_of (fk_secrets fk) secret of None \<Rightarrow> (Inr None, fk)
         | Some token_id \<Rightarrow>
           (case map_of (fk_tokens fk) token_id of None \<Rightarrow> (Inl KeyError, fk)
            | Some token \<Rightarrow>
                if ft_revoked token \<or> (case ft_expires_at token of None \<Rightarrow> False | Some e \<Rightarrow> e \<le> now)
                then (Inr None, fk)
                else let token' = token\<lparr>ft_last_used_at := Some now,
                       ft_expires_at := (if ft_type token = SESSION then Some (now + fc_session_length fc)
                                         else ft_expires_at token)\<rparr>
                  in (Inr (Some token'), fk\<lparr>fk_tokens := AList.update token_id token' (fk_tokens fk)\<rparr>))))"

definition authorize ::
  "fake_config \<Rightarrow> time \<Rightarrow> ustring option \<Rightarrow> ustring option \<Rightarrow> request \<Rightarrow> fake_state
    \<Rightarrow> (exn + fake_token option) \<times> fake_state" where
  "authorize fc now header via rq fk =
     (case resolve_token fc now header fk of (Inl e, fk') \<Rightarrow> (Inl e, fk')
      | (Inr token, fk') \<Rightarrow>
        let fk1 = fk'\<lparr>fk_requests := fk_requests fk' @
                    [\<lparr>rr_route = route_name rq, rr_token_id = map_option ft_id token, rr_via = via\<rparr>]\<rparr>;
            acc = access_of rq
        in if acc = PUBLIC then (Inr token, fk1)
           else (case token of None \<Rightarrow> (Inl (ApiError 401 UNAUTHORIZED), fk1)
             | Some t \<Rightarrow>
                 if \<not> access_allows acc (Some (ft_type t)) (Some (ft_scope t)) then
                   (Inl (if acc = SESSION_ONLY then ApiError 403 SESSION_REQUIRED else ApiError 403 FORBIDDEN), fk1)
                 else (Inr token, fk1)))"

definition fake_find_site :: "fake_state \<Rightarrow> ustring \<Rightarrow> exn + fake_site" where
  "fake_find_site fk slug =
     (case map_of (fk_sites fk) slug of None \<Rightarrow> Inl not_found | Some site \<Rightarrow> Inr site)"

section \<open>The routes\<close>

definition put_site :: "fake_site \<Rightarrow> fake_state \<Rightarrow> fake_state" where
  "put_site site fk = fk\<lparr>fk_sites := AList.update (fs_slug site) site (fk_sites fk)\<rparr>"

definition fake_login ::
  "fake_config \<Rightarrow> moment \<Rightarrow> ustring \<Rightarrow> ustring \<Rightarrow> fake_state \<Rightarrow> (exn + response) \<times> fake_state" where
  "fake_login fc mo username password fk =
     (case user_by_name username fk of
        Inl e \<Rightarrow> (Inl (ApiError 401 INVALID_CREDENTIALS), fk)
      | Inr user \<Rightarrow>
          if fu_password user \<noteq> password then (Inl (ApiError 401 INVALID_CREDENTIALS), fk)
          else (case issue_session fc (mo_now mo) (mo_draws mo) (fu_username user) fk of
                  (Inl e, fk') \<Rightarrow> (Inl e, fk')
                | (Inr secret, fk') \<Rightarrow>
                    (case Option.bind (map_of (fk_secrets fk') secret) (map_of (fk_tokens fk')) of
                       None \<Rightarrow> (Inl KeyError, fk')
                     | Some token \<Rightarrow>
                         (case ft_expires_at token of None \<Rightarrow> (Inl ValueError, fk')
                          | Some e \<Rightarrow> (Inr (LoginResponse secret e (fake_public_user user)), fk')))))"

definition revoke_fake :: "fake_token \<Rightarrow> fake_state \<Rightarrow> fake_state" where
  "revoke_fake token fk = fk\<lparr>fk_tokens := AList.update (ft_id token) (token\<lparr>ft_revoked := True\<rparr>) (fk_tokens fk)\<rparr>"

definition fake_list_sites :: "fake_config \<Rightarrow> fake_state \<Rightarrow> exn + response" where
  "fake_list_sites fc fk = Inr (SiteList (map (fake_public_site fc) (map snd (sort_key fst (fk_sites fk)))))"

definition fake_create_site ::
  "fake_config \<Rightarrow> moment \<Rightarrow> ustring \<Rightarrow> fake_state \<Rightarrow> (exn + response) \<times> fake_state" where
  "fake_create_site fc mo name fk =
     (case slug_from_name (fc_nfkd fc) name of Inl e \<Rightarrow> (Inl (ApiError 400 INVALID_NAME), fk)
      | Inr slug \<Rightarrow>
          if map_of (fk_sites fk) slug \<noteq> None then (Inl (ApiError 409 SITE_EXISTS), fk)
          else let site = \<lparr>fs_slug = slug, fs_name = strip is_space name, fs_created_at = mo_now mo, fs_files = [], fs_folders = []\<rparr>
            in (Inr (SiteResponse 201 (fake_public_site fc site)), put_site site fk))"

definition fake_get_site :: "fake_config \<Rightarrow> ustring \<Rightarrow> fake_state \<Rightarrow> exn + response" where
  "fake_get_site fc slug fk =
     (case fake_find_site fk slug of Inl e \<Rightarrow> Inl e | Inr site \<Rightarrow> Inr (SiteResponse 200 (fake_public_site fc site)))"

definition fake_delete_site :: "ustring \<Rightarrow> ustring option \<Rightarrow> fake_state \<Rightarrow> (exn + response) \<times> fake_state" where
  "fake_delete_site slug confirm fk =
     (case fake_find_site fk slug of Inl e \<Rightarrow> (Inl e, fk)
      | Inr site \<Rightarrow>
          if confirm \<noteq> Some (fs_slug site) then (Inl (ApiError 400 CONFIRM_MISMATCH), fk)
          else (Inr NoContent, fk\<lparr>fk_sites := AList.delete slug (fk_sites fk)\<rparr>))"

text \<open>The site and the path of a file route.\<close>

definition fake_site_and_path :: "fake_state \<Rightarrow> ustring \<Rightarrow> ustring \<Rightarrow> bool \<Rightarrow> exn + fake_site \<times> ustring" where
  "fake_site_and_path fk slug path allow_root =
     (case fake_find_site fk slug of Inl e \<Rightarrow> Inl e
      | Inr site \<Rightarrow> (case valid_path path allow_root of Inl e \<Rightarrow> Inl e | Inr target \<Rightarrow> Inr (site, target)))"

definition fake_folder_entry :: "fake_site \<Rightarrow> ustring \<Rightarrow> exn + file_entry" where
  "fake_folder_entry site p =
     (case folder_modified_at site p of None \<Rightarrow> Inl KeyError
      | Some t \<Rightarrow> Inr \<lparr>fe_name = path_name p, fe_type = FOLDER, fe_bytes = folder_bytes site p, fe_modified_at = t, fe_sha256 = None\<rparr>)"

definition fake_file_entry :: "fake_config \<Rightarrow> fake_site \<Rightarrow> ustring \<Rightarrow> exn + file_entry" where
  "fake_file_entry fc site p =
     (case map_of (fs_files site) p of None \<Rightarrow> Inl KeyError
      | Some f \<Rightarrow> Inr \<lparr>fe_name = path_name p, fe_type = FILE, fe_bytes = length (ff_content f),
          fe_modified_at = ff_modified_at f, fe_sha256 = Some (fc_sha256 fc (ff_content f))\<rparr>)"

fun collect :: "('a \<Rightarrow> exn + 'b) \<Rightarrow> 'a list \<Rightarrow> exn + 'b list" where
  "collect f [] = Inr []"
| "collect f (x # xs) =
     (case f x of Inl e \<Rightarrow> Inl e | Inr y \<Rightarrow> (case collect f xs of Inl e \<Rightarrow> Inl e | Inr ys \<Rightarrow> Inr (y # ys)))"

definition fake_list_files :: "fake_config \<Rightarrow> ustring \<Rightarrow> ustring \<Rightarrow> fake_state \<Rightarrow> exn + response" where
  "fake_list_files fc slug path fk =
     (case fake_site_and_path fk slug path True of Inl e \<Rightarrow> Inl e
      | Inr (site, folder) \<Rightarrow>
          if map_of (fs_files site) folder \<noteq> None then Inl (ApiError 409 NOT_A_FOLDER)
          else if \<not> has_folder site folder then Inl not_found
          else let (subfolders, files) = children site folder in
            (case collect (fake_folder_entry site) subfolders of Inl e \<Rightarrow> Inl e
             | Inr fs \<Rightarrow> (case collect (fake_file_entry fc site) files of Inl e \<Rightarrow> Inl e
                 | Inr es \<Rightarrow> Inr (Listing \<lparr>fl_site = slug, fl_path = folder, fl_entries = fs @ es\<rparr>))))"

text \<open>The loop over the parents of a write.\<close>

function file_above :: "fake_site \<Rightarrow> ustring \<Rightarrow> bool" where
  "file_above site parent =
     (if parent = [] then False
      else if map_of (fs_files site) parent \<noteq> None then True
      else file_above site (path_parent parent))"
  by pat_completeness auto
termination
  by (relation "measure (\<lambda>(_, p). length p)") (auto simp: path_parent_shorter)

declare file_above.simps [simp del]

definition fake_check_write_target :: "fake_site \<Rightarrow> ustring \<Rightarrow> bool \<Rightarrow> exn + bool" where
  "fake_check_write_target site path overwrite =
     (if map_of (fs_folders site) path \<noteq> None then Inl (ApiError 409 NOT_A_FILE)
      else if file_above site (path_parent path) then Inl (ApiError 409 NOT_A_FOLDER)
      else if map_of (fs_files site) path \<noteq> None then
        (if \<not> overwrite then Inl (ApiError 409 FILE_EXISTS) else Inr True)
      else Inr False)"

definition fake_write :: "fake_config \<Rightarrow> time \<Rightarrow> fake_site \<Rightarrow> ustring \<Rightarrow> octets \<Rightarrow> upload_result \<times> fake_site" where
  "fake_write fc now site path content =
     (let replaced = (map_of (fs_files site) path \<noteq> None);
          site1 = add_folders_for now path site
      in (\<lparr>ur_path = path, ur_bytes = length content, ur_sha256 = fc_sha256 fc content, ur_replaced = replaced\<rparr>,
          site1\<lparr>fs_files := AList.update path \<lparr>ff_content = content, ff_modified_at = now\<rparr> (fs_files site1)\<rparr>))"

definition fake_upload_file ::
  "fake_config \<Rightarrow> moment \<Rightarrow> ustring \<Rightarrow> ustring \<Rightarrow> bool \<Rightarrow> upload_body \<Rightarrow> fake_state \<Rightarrow> (exn + response) \<times> fake_state" where
  "fake_upload_file fc mo slug path overwrite body fk =
     (case fake_site_and_path fk slug path False of Inl e \<Rightarrow> (Inl e, fk)
      | Inr (site, target) \<Rightarrow>
          if ub_broken body then (Inl ClientDisconnect, fk)
          else let content = concat (ub_chunks body) in
            if length content > fc_max_upload_bytes fc then (Inl (ApiError 413 PAYLOAD_TOO_LARGE), fk)
            else (case fake_check_write_target site target overwrite of Inl e \<Rightarrow> (Inl e, fk)
              | Inr replacing \<Rightarrow>
                  let (result, site') = fake_write fc (mo_now mo) site target content
                  in (Inr (Uploaded (if replacing then 200 else 201) result), put_site site' fk)))"

definition fake_download_file :: "fake_config \<Rightarrow> ustring \<Rightarrow> ustring \<Rightarrow> fake_state \<Rightarrow> exn + response" where
  "fake_download_file fc slug path fk =
     (case fake_site_and_path fk slug path False of Inl e \<Rightarrow> Inl e
      | Inr (site, target) \<Rightarrow>
          if map_of (fs_folders site) target \<noteq> None then Inl (ApiError 409 NOT_A_FILE)
          else (case map_of (fs_files site) target of None \<Rightarrow> Inl not_found
            | Some entry \<Rightarrow>
                let content_type = (case fc_mime fc target of None \<Rightarrow> lit ''application/octet-stream'' | Some t \<Rightarrow> t) in
                (case attachment (path_name target) of Inl e \<Rightarrow> Inl e
                 | Inr disposition \<Rightarrow> Inr (Content (ff_content entry) content_type disposition))))"

definition fake_delete_file :: "ustring \<Rightarrow> ustring \<Rightarrow> fake_state \<Rightarrow> (exn + response) \<times> fake_state" where
  "fake_delete_file slug path fk =
     (case fake_site_and_path fk slug path False of Inl e \<Rightarrow> (Inl e, fk)
      | Inr (site, target) \<Rightarrow>
          if map_of (fs_folders site) target \<noteq> None then (Inl (ApiError 409 NOT_A_FILE), fk)
          else if map_of (fs_files site) target = None then (Inl not_found, fk)
          else (Inr NoContent, put_site (site\<lparr>fs_files := AList.delete target (fs_files site)\<rparr>) fk))"

definition fake_delete_folder :: "ustring \<Rightarrow> ustring \<Rightarrow> bool \<Rightarrow> fake_state \<Rightarrow> (exn + response) \<times> fake_state" where
  "fake_delete_folder slug path recursive fk =
     (case fake_site_and_path fk slug path False of Inl e \<Rightarrow> (Inl e, fk)
      | Inr (site, target) \<Rightarrow>
          if map_of (fs_files site) target \<noteq> None then (Inl (ApiError 409 NOT_A_FOLDER), fk)
          else if map_of (fs_folders site) target = None then (Inl not_found, fk)
          else let (subfolders, files) = descendants site target in
            if (subfolders \<noteq> [] \<or> files \<noteq> []) \<and> \<not> recursive then (Inl (ApiError 409 FOLDER_NOT_EMPTY), fk)
            else (Inr NoContent, put_site (site
              \<lparr>fs_files := fold AList.delete files (fs_files site),
               fs_folders := AList.delete target (fold AList.delete subfolders (fs_folders site))\<rparr>) fk))"

definition fake_list_tokens :: "fake_state \<Rightarrow> exn + response" where
  "fake_list_tokens fk =
     (let agents = filter (\<lambda>t. ft_type t = AGENT \<and> \<not> ft_revoked t) (map snd (fk_tokens fk)) in
      case collect (fake_public_token fk) (sort_key (\<lambda>t. (ft_created_at t, ft_id t)) agents) of
        Inl e \<Rightarrow> Inl e | Inr ts \<Rightarrow> Inr (TokenList ts))"

definition fake_create_token ::
  "moment \<Rightarrow> fake_token \<Rightarrow> ustring \<Rightarrow> scope \<Rightarrow> fake_state \<Rightarrow> (exn + response) \<times> fake_state" where
  "fake_create_token mo caller name scope fk =
     (case map_of (fk_users fk) (ft_user_id caller) of None \<Rightarrow> (Inl KeyError, fk)
      | Some owner \<Rightarrow>
          (case issue_agent_token (mo_now mo) (mo_draws mo) (fu_username owner) (strip is_space name) scope fk of
             (Inl e, fk') \<Rightarrow> (Inl e, fk')
           | (Inr (token, secret), fk') \<Rightarrow>
               (case fake_public_token fk' token of Inl e \<Rightarrow> (Inl e, fk') | Inr t \<Rightarrow> (Inr (TokenCreated t secret), fk'))))"

definition fake_token_self :: "fake_token \<Rightarrow> fake_state \<Rightarrow> exn + response" where
  "fake_token_self caller fk =
     (case map_of (fk_users fk) (ft_user_id caller) of None \<Rightarrow> Inl KeyError
      | Some user \<Rightarrow> Inr (TokenSelfResponse \<lparr>ts_id = ft_id caller, ts_name = ft_name caller, ts_type = ft_type caller,
          ts_scope = ft_scope caller, ts_username = fu_username user, ts_expires_at = ft_expires_at caller\<rparr>))"

definition fake_revoke_token :: "ustring \<Rightarrow> fake_state \<Rightarrow> (exn + response) \<times> fake_state" where
  "fake_revoke_token token_id fk =
     (case map_of (fk_tokens fk) token_id of None \<Rightarrow> (Inl not_found, fk)
      | Some token \<Rightarrow>
          if ft_type token \<noteq> AGENT \<or> ft_revoked token then (Inl not_found, fk)
          else (Inr NoContent, fk\<lparr>fk_tokens := AList.update token_id (token\<lparr>ft_revoked := True\<rparr>) (fk_tokens fk)\<rparr>))"

definition fake_list_users :: "fake_state \<Rightarrow> exn + response" where
  "fake_list_users fk = Inr (UserList (map fake_public_user (sort_key fu_username (map snd (fk_users fk)))))"

definition fake_create_user :: "moment \<Rightarrow> ustring \<Rightarrow> ustring \<Rightarrow> fake_state \<Rightarrow> (exn + response) \<times> fake_state" where
  "fake_create_user mo username password fk =
     (case add_user (mo_now mo) (mo_draws mo) username password fk of
        (Inl e, fk') \<Rightarrow> (Inl (if e = ValueError then ApiError 409 USER_EXISTS else e), fk')
      | (Inr user, fk') \<Rightarrow> (Inr (UserResponse 201 (fake_public_user user)), fk'))"

text \<open>Every token a condition selects is revoked.\<close>

definition revoke_where :: "(fake_token \<Rightarrow> bool) \<Rightarrow> fake_state \<Rightarrow> fake_state" where
  "revoke_where P fk =
     fk\<lparr>fk_tokens := map (\<lambda>(i, t). (i, if P t then t\<lparr>ft_revoked := True\<rparr> else t)) (fk_tokens fk)\<rparr>"

definition fake_change_password ::
  "fake_token \<Rightarrow> ustring \<Rightarrow> ustring \<Rightarrow> fake_state \<Rightarrow> (exn + response) \<times> fake_state" where
  "fake_change_password caller current new fk =
     (case map_of (fk_users fk) (ft_user_id caller) of None \<Rightarrow> (Inl KeyError, fk)
      | Some user \<Rightarrow>
          if current \<noteq> fu_password user then (Inl (ApiError 403 WRONG_PASSWORD), fk)
          else (Inr NoContent,
            revoke_where (\<lambda>t. ft_user_id t = fu_id user \<and> ft_type t = SESSION \<and> ft_id t \<noteq> ft_id caller)
              (fk\<lparr>fk_users := AList.update (ft_user_id caller) (user\<lparr>fu_password := new\<rparr>) (fk_users fk)\<rparr>)))"

definition fake_delete_user :: "ustring \<Rightarrow> fake_state \<Rightarrow> (exn + response) \<times> fake_state" where
  "fake_delete_user user_id fk =
     (if map_of (fk_users fk) user_id = None then (Inl not_found, fk)
      else if length (fk_users fk) = 1 then (Inl (ApiError 409 LAST_USER), fk)
      else (Inr NoContent,
        revoke_where (\<lambda>t. ft_user_id t = user_id) (fk\<lparr>fk_users := AList.delete user_id (fk_users fk)\<rparr>)))"

section \<open>A request\<close>

fun fake_route :: "fake_config \<Rightarrow> moment \<Rightarrow> fake_token \<Rightarrow> request \<Rightarrow> fake_state \<Rightarrow> (exn + response) \<times> fake_state" where
  "fake_route fc mo caller (R_Login username password) fk = fake_login fc mo username password fk"
| "fake_route fc mo caller R_Logout fk = (Inr NoContent, revoke_fake caller fk)"
| "fake_route fc mo caller R_ListSites fk = (fake_list_sites fc fk, fk)"
| "fake_route fc mo caller (R_CreateSite name) fk = fake_create_site fc mo name fk"
| "fake_route fc mo caller (R_GetSite slug) fk = (fake_get_site fc slug fk, fk)"
| "fake_route fc mo caller (R_DeleteSite slug confirm) fk = fake_delete_site slug confirm fk"
| "fake_route fc mo caller (R_ListFiles slug path) fk = (fake_list_files fc slug path fk, fk)"
| "fake_route fc mo caller (R_UploadFile slug path overwrite header body) fk =
     fake_upload_file fc mo slug path overwrite body fk"
| "fake_route fc mo caller (R_DownloadFile slug path) fk = (fake_download_file fc slug path fk, fk)"
| "fake_route fc mo caller (R_DeleteFile slug path) fk = fake_delete_file slug path fk"
| "fake_route fc mo caller (R_DeleteFolder slug path recursive) fk = fake_delete_folder slug path recursive fk"
| "fake_route fc mo caller R_ListTokens fk = (fake_list_tokens fk, fk)"
| "fake_route fc mo caller (R_CreateToken name scope) fk = fake_create_token mo caller name scope fk"
| "fake_route fc mo caller R_TokenSelf fk = (fake_token_self caller fk, fk)"
| "fake_route fc mo caller (R_RevokeToken token_id) fk = fake_revoke_token token_id fk"
| "fake_route fc mo caller R_ListUsers fk = (fake_list_users fk, fk)"
| "fake_route fc mo caller (R_CreateUser username password) fk = fake_create_user mo username password fk"
| "fake_route fc mo caller (R_ChangePassword current new) fk = fake_change_password caller current new fk"
| "fake_route fc mo caller (R_DeleteUser user_id) fk = fake_delete_user user_id fk"

text \<open>Here the login runs the dependency too, whose answer it ignores.\<close>

definition fake_handle ::
  "fake_config \<Rightarrow> moment \<Rightarrow> ustring option \<Rightarrow> ustring option \<Rightarrow> request \<Rightarrow> fake_state
    \<Rightarrow> (exn + response) \<times> fake_state" where
  "fake_handle fc mo header via rq fk =
     (case authorize fc (mo_auth_now mo) header via rq fk of
        (Inl e, fk') \<Rightarrow> (Inl e, fk')
      | (Inr token, fk') \<Rightarrow>
          if \<not> valid_request rq then (Inl RequestValidationError, fk')
          else (case token of
                  Some t \<Rightarrow> fake_route fc mo t rq fk'
                | None \<Rightarrow> (case rq of R_Login username password \<Rightarrow> fake_login fc mo username password fk'
                           | _ \<Rightarrow> (Inl (ApiError 401 UNAUTHORIZED), fk'))))"

text \<open>
  A fresh fake: the configuration, the address without its final slashes, and the bootstrap account
  when there is one.
\<close>

definition create_fake_config :: "fake_config \<Rightarrow> ustring \<Rightarrow> nat \<Rightarrow> time \<Rightarrow> fake_config" where
  "create_fake_config libraries public_sites_url max_upload_mb session_length =
     libraries\<lparr>fc_public_sites_url := rstrip (\<lambda>c. c = slash) public_sites_url,
       fc_max_upload_bytes := max_upload_mb * 1024 * 1024, fc_session_length := session_length\<rparr>"

definition create_fake_backend ::
  "time \<Rightarrow> draws \<Rightarrow> (ustring \<times> ustring) option \<Rightarrow> (exn + unit) \<times> fake_state" where
  "create_fake_backend now dr admin =
     (let fk = \<lparr>fk_users = [], fk_tokens = [], fk_secrets = [], fk_sites = [], fk_requests = []\<rparr> in
      case admin of None \<Rightarrow> (Inr (), fk)
      | Some (username, password) \<Rightarrow>
          (case add_user now dr username password fk of (Inl e, fk') \<Rightarrow> (Inl e, fk') | (Inr _, fk') \<Rightarrow> (Inr (), fk')))"

end
