(* ===== verification/Fake_Store.thy ===== *)
theory Fake_Store
  imports Real_Store Fake_Backend "HOL-Library.AList"
begin

text \<open>
  The fake backend as a site store: the invariant of its dictionaries, the view of the sites they
  show, and the proof that its site and file routes keep the invariant and answer as the contract
  says, for the same contract the real backend is interpreted in.
\<close>

section \<open>Invariant and view\<close>

text \<open>Every folder above an entry is an entry of its own.\<close>

definition parents_in :: "fake_site \<Rightarrow> ustring \<Rightarrow> bool" where
  "parents_in site p \<longleftrightarrow>
     (\<forall>q. q \<noteq> [] \<longrightarrow> strict_prefix q (segments_of p) \<longrightarrow> map_of (fs_folders site) (join_on slash q) \<noteq> None)"

definition site_ok :: "fake_site \<Rightarrow> bool" where
  "site_ok site \<longleftrightarrow>
     distinct (map fst (fs_files site)) \<and> distinct (map fst (fs_folders site))
     \<and> (\<forall>p. map_of (fs_files site) p \<noteq> None \<longrightarrow> canonical_path p \<and> map_of (fs_folders site) p = None \<and> parents_in site p)
     \<and> (\<forall>p. map_of (fs_folders site) p \<noteq> None \<longrightarrow> canonical_path p \<and> parents_in site p)"

definition fake_ok :: "fake_state \<Rightarrow> bool" where
  "fake_ok fk \<longleftrightarrow> distinct (map fst (fk_sites fk))
     \<and> (\<forall>slug site. map_of (fk_sites fk) slug = Some site \<longrightarrow> fs_slug site = slug \<and> site_ok site)"

lemma site_okD:
  assumes "site_ok site"
  shows "distinct (map fst (fs_files site))" "distinct (map fst (fs_folders site))"
    "map_of (fs_files site) p = Some f \<Longrightarrow> canonical_path p"
    "map_of (fs_files site) p = Some f \<Longrightarrow> map_of (fs_folders site) p = None"
    "map_of (fs_files site) p = Some f \<Longrightarrow> parents_in site p"
    "map_of (fs_folders site) p = Some t \<Longrightarrow> canonical_path p"
    "map_of (fs_folders site) p = Some t \<Longrightarrow> parents_in site p"
  using assms by (auto simp: site_ok_def)

definition item_at :: "fake_site \<Rightarrow> ustring \<Rightarrow> item" where
  "item_at site p =
     (case map_of (fs_files site) p of Some f \<Rightarrow> Is_File (ff_content f)
      | None \<Rightarrow> if map_of (fs_folders site) p \<noteq> None then Is_Folder else Absent)"

definition fake_items :: "fake_site \<Rightarrow> ustring list \<Rightarrow> item" where
  "fake_items site q = (if q = [] then Is_Folder else if good_path q then item_at site (join_on slash q) else Absent)"

definition fake_view :: "fake_state \<Rightarrow> sites_view" where
  "fake_view fk slug =
     map_option (\<lambda>s. \<lparr>sv_name = fs_name s, sv_items = fake_items s\<rparr>) (map_of (fk_sites fk) slug)"

definition fake_rules :: "fake_config \<Rightarrow> site_rules" where
  "fake_rules fc = \<lparr>sr_cap = fc_max_upload_bytes fc, sr_sha256 = fc_sha256 fc, sr_nfkd = fc_nfkd fc,
     sr_mime = fc_mime fc, sr_url = fc_public_sites_url fc\<rparr>"

section \<open>Items and keys\<close>

lemma canonical_nonempty: "canonical_path p \<Longrightarrow> p \<noteq> []"
  by (simp add: canonical_path_def)

lemma good_join: "good_path q \<Longrightarrow> canonical_path (join_on slash q)" "good_path q \<Longrightarrow> segments_of (join_on slash q) = q"
  by (simp_all add: good_path_def)

lemma good_join_eq: "good_path q \<Longrightarrow> join_on slash q = p \<longleftrightarrow> q = segments_of p"
  using good_join(2) [of q] by auto

lemma fake_items_path: "canonical_path p \<Longrightarrow> fake_items site (segments_of p) = item_at site p"
  by (simp add: fake_items_def segments_nonempty good_path_segments)

lemma item_at_simps:
  assumes "site_ok site"
  shows "item_at site p = Is_Folder \<longleftrightarrow> map_of (fs_folders site) p \<noteq> None"
    "item_at site p = Is_File c \<longleftrightarrow> (\<exists>f. map_of (fs_files site) p = Some f \<and> ff_content f = c)"
    "item_at site p = Absent \<longleftrightarrow> map_of (fs_files site) p = None \<and> map_of (fs_folders site) p = None"
  using site_okD(4) [OF assms, of p] by (auto simp: item_at_def split: option.split)

lemma items_good: "fake_items site q \<noteq> Absent \<Longrightarrow> q \<noteq> [] \<Longrightarrow> good_path q"
  by (simp add: fake_items_def split: if_splits)

lemma items_above:
  assumes "site_ok site" "fake_items site p \<noteq> Absent" "strict_prefix q p"
  shows "fake_items site q = Is_Folder"
proof (cases "q = []")
  case False
  have p: "p \<noteq> []" using assms(3) by auto
  then have good: "good_path p" using items_good assms(2) by blast
  then have gq: "good_path q" using assms(3) False good_path_prefix by (auto simp: strict_prefix_def)
  have "item_at site (join_on slash p) \<noteq> Absent" using assms(2) p good by (simp add: fake_items_def)
  then have "parents_in site (join_on slash p)"
    using site_okD(5,7) [OF assms(1), of "join_on slash p"]
    by (auto simp: item_at_simps(3) [OF assms(1)])
  then have "map_of (fs_folders site) (join_on slash q) \<noteq> None"
    using False assms(3) good_join(2) [OF good] by (simp add: parents_in_def)
  then show ?thesis using False gq item_at_simps(1) [OF assms(1)] by (simp add: fake_items_def)
qed (simp add: fake_items_def)

section \<open>Totals\<close>

lemma folder_prefix_below: "prefix (folder_prefix folder) p \<longleftrightarrow> below folder p"
proof -
  have "prefix xs p \<longleftrightarrow> take (length xs) p = xs" for xs
    by (metis append_eq_conv_conj append_take_drop_id prefix_def)
  then show ?thesis by (simp add: folder_prefix_def below_def Let_def)
qed

lemma file_bytes_item:
  assumes "site_ok site" "p \<in> fst ` set (fs_files site)"
  shows "canonical_path p" "fake_items site (segments_of p) = Is_File (ff_content (the (map_of (fs_files site) p)))"
    "file_bytes site p = item_size (fake_items site (segments_of p))"
proof -
  obtain f where m: "map_of (fs_files site) p = Some f"
    using assms(2) by (metis map_of_eq_None_iff not_None_eq)
  then show c: "canonical_path p" by (rule site_okD(3) [OF assms(1)])
  show "fake_items site (segments_of p) = Is_File (ff_content (the (map_of (fs_files site) p)))"
    "file_bytes site p = item_size (fake_items site (segments_of p))"
    using m by (simp_all add: fake_items_path [OF c] item_at_def file_bytes_def)
qed

lemma fake_folder_totals:
  assumes "site_ok site" "folder = [] \<or> canonical_path folder"
  shows "length (snd (descendants site folder)) = card (files_below (fake_items site) (segments_of folder))"
    and "folder_bytes site folder = total_below (fake_items site) (segments_of folder)"
proof -
  let ?ps = "filter (prefix (folder_prefix folder)) (map fst (fs_files site))"
  have ps: "snd (descendants site folder) = ?ps" by (simp add: descendants_def Let_def)
  have dist: "distinct ?ps" using site_okD(1) [OF assms(1)] by simp
  note item = file_bytes_item [OF assms(1)]
  have below: "prefix (folder_prefix folder) p \<longleftrightarrow> strict_prefix (segments_of folder) (segments_of p)" if "canonical_path p" for p
    using that segments_nonempty [OF that] below_iff [of folder p] below_root [of p]
    by (cases "folder = []") (auto simp: folder_prefix_below segments_of_def [of "[]"] strict_prefix_def)
  have "segments_of ` set ?ps = files_below (fake_items site) (segments_of folder)"
  proof (intro set_eqI iffI)
    fix q assume "q \<in> segments_of ` set ?ps"
    then show "q \<in> files_below (fake_items site) (segments_of folder)" using item(1,2) below by (auto simp: files_below_def)
  next
    fix q assume "q \<in> files_below (fake_items site) (segments_of folder)"
    then obtain c where q: "fake_items site q = Is_File c" "strict_prefix (segments_of folder) q" by (auto simp: files_below_def)
    then have ne: "q \<noteq> []" by auto
    have good: "good_path q" using items_good [OF _ ne, of site] q(1) by simp
    then have "map_of (fs_files site) (join_on slash q) \<noteq> None"
      using q(1) ne good item_at_simps(2) [OF assms(1)] by (auto simp: fake_items_def)
    then have k: "join_on slash q \<in> fst ` set (fs_files site)" by (simp add: map_of_eq_None_iff)
    have "join_on slash q \<in> set ?ps" using k below [OF good_join(1) [OF good]] good_join(2) [OF good] q(2) by simp
    then show "q \<in> segments_of ` set ?ps" using good_join(2) [OF good] by (metis imageI)
  qed
  moreover have "inj_on segments_of (set ?ps)" by (auto simp: inj_on_def dest: segments_inj)
  ultimately have bij: "bij_betw segments_of (set ?ps) (files_below (fake_items site) (segments_of folder))"
    by (simp add: bij_betw_def)
  show "length (snd (descendants site folder)) = card (files_below (fake_items site) (segments_of folder))"
    unfolding ps using bij_betw_same_card [OF bij] distinct_card [OF dist] by simp
  have "folder_bytes site folder = (\<Sum>p\<in>set ?ps. file_bytes site p)"
    unfolding folder_bytes_def ps by (rule sum_list_distinct_conv_sum_set [OF dist])
  also have "\<dots> = (\<Sum>p\<in>set ?ps. item_size (fake_items site (segments_of p)))"
    using item(3) by (intro sum.cong) auto
  also have "\<dots> = total_below (fake_items site) (segments_of folder)"
    unfolding total_below_def by (rule sum.reindex_bij_betw [OF bij])
  finally show "folder_bytes site folder = total_below (fake_items site) (segments_of folder)" .
qed

lemma fake_totals:
  assumes "site_ok site"
  shows "length (fs_files site) = card (files_below (fake_items site) [])"
    and "sum_list (map (\<lambda>(_, f). length (ff_content f)) (fs_files site)) = total_below (fake_items site) []"
proof -
  have all: "snd (descendants site []) = map fst (fs_files site)"
    by (simp add: descendants_def folder_prefix_def Let_def)
  have "map (file_bytes site \<circ> fst) (fs_files site) = map (\<lambda>(_, f). length (ff_content f)) (fs_files site)"
    using site_okD(1) [OF assms] by (auto simp: file_bytes_def simp del: map_eq_conv intro: map_cong)
  from arg_cong [OF this, of sum_list] show "length (fs_files site) = card (files_below (fake_items site) [])"
    "sum_list (map (\<lambda>(_, f). length (ff_content f)) (fs_files site)) = total_below (fake_items site) []"
    using fake_folder_totals [OF assms, of "[]"] by (simp_all add: all folder_bytes_def segments_of_def)
qed

lemma fake_site_answer:
  assumes "site_ok site"
  shows "outlined (Inr (SiteResponse n (fake_public_site fc site))) =
     site_outline (fake_rules fc) n (fs_slug site) \<lparr>sv_name = fs_name site, sv_items = fake_items site\<rparr>"
  using fake_totals [OF assms] by (simp add: fake_public_site_def site_outline_def fake_rules_def)

section \<open>The two loops over the parents\<close>

lemma good_joins_inj:
  "list_all good_segment p \<Longrightarrow> list_all good_segment q \<Longrightarrow> join_on slash p = join_on slash q \<longleftrightarrow> p = q"
  by (metis segments_of_join)

lemma join_nonempty: "list_all good_segment ss \<Longrightarrow> join_on slash ss = [] \<longleftrightarrow> ss = []"
  by (auto simp: join_on_empty_iff good_segment_def)

lemma file_above_iff:
  "list_all good_segment ss \<Longrightarrow>
     file_above site (join_on slash ss) \<longleftrightarrow>
       (\<exists>q. q \<noteq> [] \<and> prefix q ss \<and> map_of (fs_files site) (join_on slash q) \<noteq> None)"
proof (induction ss rule: rev_induct)
  case (snoc s ss)
  have "file_above site (join_on slash (ss @ [s])) \<longleftrightarrow>
      map_of (fs_files site) (join_on slash (ss @ [s])) \<noteq> None \<or> file_above site (join_on slash ss)"
    using join_nonempty [OF snoc.prems] path_parent_name_join [OF snoc.prems]
    by (subst file_above.simps) simp
  with snoc show ?case by auto
qed (simp add: file_above.simps)

text \<open>
  The loop stops at the first folder it finds; since the folders above a folder are there, it
  leaves every folder on the way up in place.
\<close>

definition rooted :: "(ustring \<times> time) list \<Rightarrow> ustring list \<Rightarrow> bool" where
  "rooted folders ss \<longleftrightarrow>
     (\<forall>q r. prefix q ss \<longrightarrow> prefix r q \<longrightarrow> r \<noteq> [] \<longrightarrow>
        map_of folders (join_on slash q) \<noteq> None \<longrightarrow> map_of folders (join_on slash r) \<noteq> None)"

lemma add_folders_up_keys:
  "list_all good_segment ss \<Longrightarrow> rooted folders ss \<Longrightarrow>
     map_of (add_folders_up now (join_on slash ss) folders) p \<noteq> None \<longleftrightarrow>
       map_of folders p \<noteq> None \<or> (\<exists>q. q \<noteq> [] \<and> prefix q ss \<and> p = join_on slash q)"
proof (induction ss arbitrary: folders rule: rev_induct)
  case (snoc s ss)
  let ?p = "join_on slash (ss @ [s])"
  note ne = join_nonempty [OF snoc.prems(1)] path_parent_name_join [OF snoc.prems(1)]
  show ?case
  proof (cases "map_of folders ?p = None")
    case True
    let ?f = "AList.update ?p now folders"
    have step: "add_folders_up now ?p folders = add_folders_up now (join_on slash ss) ?f"
      using ne True by (subst add_folders_up.simps) simp
    have apart: "join_on slash q \<noteq> ?p" if "prefix q ss" for q
    proof -
      obtain r where "ss = q @ r" using \<open>prefix q ss\<close> by (auto simp: prefix_def)
      then show ?thesis using good_joins_inj [of q "ss @ [s]"] snoc.prems(1) by auto
    qed
    have "rooted ?f ss"
      using snoc.prems(2) apart
      by (auto simp: rooted_def update_conv' dest: prefix_order.trans)
    with snoc.IH [of ?f] snoc.prems(1) step show ?thesis by (auto simp: update_conv')
  next
    case False
    then have "add_folders_up now ?p folders = folders" by (subst add_folders_up.simps) (simp only: simp_thms if_False)
    moreover have "map_of folders (join_on slash q) \<noteq> None" if "q \<noteq> []" "prefix q (ss @ [s])" for q
      using snoc.prems(2) False that by (auto simp: rooted_def)
    ultimately show ?thesis by auto
  qed
qed (simp add: add_folders_up.simps)

lemma add_folders_up_distinct:
  "distinct (map fst folders) \<Longrightarrow> distinct (map fst (add_folders_up now p folders))"
proof (induction now p folders rule: add_folders_up.induct)
  case (1 now parent folders)
  then show ?case by (subst add_folders_up.simps) (simp add: distinct_update)
qed

lemma map_of_fold_delete: "map_of (fold AList.delete ks al) k = (if k \<in> set ks then None else map_of al k)"
  by (induction ks arbitrary: al) (auto simp: delete_conv')

lemma distinct_fold_delete: "distinct (map fst al) \<Longrightarrow> distinct (map fst (fold AList.delete ks al))"
  by (induction ks arbitrary: al) (auto simp: distinct_delete)

section \<open>Finding the target\<close>

lemma fake_okD:
  assumes "fake_ok fk" "map_of (fk_sites fk) slug = Some site"
  shows "fs_slug site = slug" "site_ok site"
  using assms by (auto simp: fake_ok_def)

lemma fake_view_Some:
  "fake_view fk slug = Some v \<longleftrightarrow>
     (\<exists>site. map_of (fk_sites fk) slug = Some site \<and> v = \<lparr>sv_name = fs_name site, sv_items = fake_items site\<rparr>)"
  by (auto simp: fake_view_def)

lemma fake_view_None: "fake_view fk slug = None \<longleftrightarrow> map_of (fk_sites fk) slug = None"
  by (simp add: fake_view_def)

lemma fake_target:
  "fake_site_and_path fk slug raw False =
     (case spec_target (fake_view fk) slug raw of Inl e \<Rightarrow> Inl e
      | Inr (v, path) \<Rightarrow> Inr (the (map_of (fk_sites fk) slug), path))"
  by (auto simp: fake_site_and_path_def fake_find_site_def spec_target_def fake_view_def split: option.split sum.split)

lemma fake_target_ok:
  assumes "spec_target (fake_view fk) slug raw = Inr (v, path)" "fake_ok fk"
  obtains site where "map_of (fk_sites fk) slug = Some site" "v = \<lparr>sv_name = fs_name site, sv_items = fake_items site\<rparr>"
    "canonical_path path" "fs_slug site = slug" "site_ok site"
  using spec_target_ok [OF assms(1)] fake_okD [OF assms(2)] by (auto simp: fake_view_Some)

text \<open>A site put back, seen from outside.\<close>

lemma put_site_ok:
  assumes "fake_ok fk" "site_ok site"
  shows "fake_ok (put_site site fk)"
    and "fake_view (put_site site fk) = (fake_view fk)(fs_slug site \<mapsto> \<lparr>sv_name = fs_name site, sv_items = fake_items site\<rparr>)"
  using assms by (auto simp: fake_ok_def put_site_def fake_view_def distinct_update update_conv' fun_eq_iff split: if_splits)

section \<open>Uploads\<close>

text \<open>Facts about a canonical target: its parent, and the locations above it.\<close>

lemma target_parts:
  assumes "canonical_path path"
  shows "path_parent path = join_on slash (butlast (segments_of path))"
    "list_all good_segment (butlast (segments_of path))" "segments_of path \<noteq> []"
    "strict_prefix q (segments_of path) \<Longrightarrow> q \<noteq> [] \<Longrightarrow> good_path q"
proof -
  let ?t = "segments_of path"
  have good: "list_all good_segment ?t" "?t \<noteq> []" using canonical_segments [OF assms] by simp_all
  then show "?t \<noteq> []" "path_parent path = join_on slash (butlast ?t)"
    using path_parent_name_join [of "butlast ?t" "last ?t"] by simp_all
  show "list_all good_segment (butlast ?t)" using good(1) by (auto simp: list_all_iff dest: in_set_butlastD)
  show "strict_prefix q ?t \<Longrightarrow> q \<noteq> [] \<Longrightarrow> good_path q"
    using good_path_prefix [OF good_path_segments [OF assms]] by (auto simp: strict_prefix_def)
qed

lemma fake_check_spec:
  assumes "site_ok site" "canonical_path path" "length c \<le> sr_cap ru"
  shows "fake_check_write_target site path overwrite = spec_upload ru (fake_items site) (segments_of path) overwrite c"
proof -
  let ?t = "segments_of path"
  note t = target_parts [OF assms(2)]
  have above: "file_above site (path_parent path) \<longleftrightarrow> (\<exists>q. strict_prefix q ?t \<and> (\<exists>c'. fake_items site q = Is_File c'))"
  proof -
    have "q \<noteq> [] \<and> prefix q (butlast ?t) \<and> map_of (fs_files site) (join_on slash q) \<noteq> None
        \<longleftrightarrow> strict_prefix q ?t \<and> (\<exists>c'. fake_items site q = Is_File c')" for q
      using t(3) t(4) [of q] item_at_simps(2) [OF assms(1), of "join_on slash q"]
      by (cases "q = []") (auto simp: fake_items_def prefix_butlast)
    then show ?thesis unfolding t(1) file_above_iff [OF t(2)] by blast
  qed
  have "\<not> (\<exists>q. strict_prefix q ?t \<and> (\<exists>c'. fake_items site q = Is_File c'))" if "item_at site path = Is_Folder"
    using items_above [OF assms(1), of ?t] that fake_items_path [OF assms(2), of site] by force
  then show ?thesis
    using assms(3) fake_items_path [OF assms(2), of site] item_at_simps [OF assms(1), of path]
    unfolding fake_check_write_target_def spec_upload_def above
    by (cases "item_at site path") auto
qed

text \<open>The dictionaries after a write.\<close>

lemma fake_write_maps:
  assumes "site_ok site" "canonical_path path" "fake_write fc now site path c = (res, site')"
  shows "map_of (fs_files site') p = (if p = path then Some \<lparr>ff_content = c, ff_modified_at = now\<rparr> else map_of (fs_files site) p)"
    and "map_of (fs_folders site') p \<noteq> None \<longleftrightarrow>
      map_of (fs_folders site) p \<noteq> None \<or> (\<exists>q. q \<noteq> [] \<and> strict_prefix q (segments_of path) \<and> p = join_on slash q)"
    and "distinct (map fst (fs_files site'))" "distinct (map fst (fs_folders site'))"
proof -
  let ?t = "segments_of path"
  note t = target_parts [OF assms(2)]
  show "map_of (fs_files site') p = (if p = path then Some \<lparr>ff_content = c, ff_modified_at = now\<rparr> else map_of (fs_files site) p)"
    "distinct (map fst (fs_files site'))" "distinct (map fst (fs_folders site'))"
    using assms(3) site_okD(1,2) [OF assms(1)]
    by (auto simp: fake_write_def add_folders_for_def Let_def update_conv' distinct_update add_folders_up_distinct)
  have "rooted (fs_folders site) (butlast ?t)"
    unfolding rooted_def
  proof (intro allI impI)
    fix q r assume q: "prefix q (butlast ?t)" "prefix r q" "r \<noteq> []" "map_of (fs_folders site) (join_on slash q) \<noteq> None"
    then have "strict_prefix q ?t" "q \<noteq> []" using t(3) prefix_butlast by auto
    from good_join(2) [OF t(4) [OF this]] site_okD(7) [OF assms(1), of "join_on slash q"] q
    show "map_of (fs_folders site) (join_on slash r) \<noteq> None"
      by (cases "r = q") (auto simp: parents_in_def strict_prefix_def)
  qed
  note keys = add_folders_up_keys [OF t(2) this, of now p, unfolded prefix_butlast [OF t(3)]]
  have "fs_folders site' = add_folders_up now (join_on slash (butlast ?t)) (fs_folders site)"
    using assms(3) by (auto simp: fake_write_def add_folders_for_def Let_def t(1))
  with keys show "map_of (fs_folders site') p \<noteq> None \<longleftrightarrow>
      map_of (fs_folders site) p \<noteq> None \<or> (\<exists>q. q \<noteq> [] \<and> strict_prefix q ?t \<and> p = join_on slash q)"
    by (simp only:)
qed

text \<open>What an accepted write finds: no folder at the target and no file above it.\<close>

lemma accepted_write:
  assumes "site_ok site" "canonical_path path" "spec_upload ru (fake_items site) (segments_of path) overwrite c = Inr replaced"
  shows "map_of (fs_folders site) path = None" "replaced \<longleftrightarrow> map_of (fs_files site) path \<noteq> None"
    and "strict_prefix q (segments_of path) \<Longrightarrow> q \<noteq> [] \<Longrightarrow> map_of (fs_files site) (join_on slash q) = None"
proof -
  show "map_of (fs_folders site) path = None" "replaced \<longleftrightarrow> map_of (fs_files site) path \<noteq> None"
    using assms(3) fake_items_path [OF assms(2), of site] item_at_simps [OF assms(1), of path]
    by (auto simp: spec_upload_def split: if_splits item.splits)
  assume q: "strict_prefix q (segments_of path)" "q \<noteq> []"
  show "map_of (fs_files site) (join_on slash q) = None"
  proof (rule ccontr)
    assume "map_of (fs_files site) (join_on slash q) \<noteq> None"
    then obtain c' where "fake_items site q = Is_File c'"
      using target_parts(4) [OF assms(2) q] q(2) item_at_simps(2) [OF assms(1)] by (auto simp: fake_items_def)
    then show False using assms(3) q(1) by (auto simp: spec_upload_def split: if_splits)
  qed
qed

lemma fake_write_items:
  assumes "site_ok site" "canonical_path path" "fake_write fc now site path c = (res, site')"
    "spec_upload ru (fake_items site) (segments_of path) overwrite c = Inr replaced"
  shows "fake_items site' = with_file (segments_of path) c (fake_items site)"
proof
  fix q
  let ?t = "segments_of path"
  note t = target_parts [OF assms(2)] and maps = fake_write_maps [OF assms(1-3)] and acc = accepted_write [OF assms(1,2,4)]
  show "fake_items site' q = with_file ?t c (fake_items site) q"
  proof (cases "q \<noteq> [] \<and> good_path q")
    case True
    have new: "(\<exists>r. r \<noteq> [] \<and> strict_prefix r ?t \<and> join_on slash q = join_on slash r) \<longleftrightarrow> strict_prefix q ?t"
      using True t(4) good_join(2) by metis
    have "item_at site' (join_on slash q) = with_file ?t c (fake_items site) q"
      using maps(1) [of "join_on slash q"] maps(2) [of "join_on slash q"] good_join_eq [of q path] True acc(3) [of q]
      unfolding new by (auto simp: item_at_def with_file_def fake_items_def split: option.split)
    then show ?thesis using True by (simp add: fake_items_def)
  next
    case False
    then show ?thesis
      using t(3) t(4) [of q] good_path_segments [OF assms(2)] by (auto simp: fake_items_def with_file_def)
  qed
qed

lemma fake_write_site_ok:
  assumes "site_ok site" "canonical_path path" "fake_write fc now site path c = (res, site')"
    "spec_upload ru (fake_items site) (segments_of path) overwrite c = Inr replaced"
  shows "site_ok site'"
proof -
  let ?t = "segments_of path"
  note t = target_parts [OF assms(2)] and maps = fake_write_maps [OF assms(1-3)] and acc = accepted_write [OF assms(1,2,4)]
  have parents: "parents_in site' p" if "parents_in site p \<or> (\<forall>q. strict_prefix q (segments_of p) \<longrightarrow> strict_prefix q ?t)" for p
    using that unfolding parents_in_def maps(2) by blast
  have folder: "canonical_path p \<and> parents_in site' p \<and> map_of (fs_files site') p = None"
    if "map_of (fs_folders site') p \<noteq> None" for p
  proof -
    from that consider "map_of (fs_folders site) p \<noteq> None" | q where "q \<noteq> []" "strict_prefix q ?t" "p = join_on slash q"
      unfolding maps(2) by blast
    then show ?thesis
    proof cases
      case 1
      then obtain s where s: "map_of (fs_folders site) p = Some s" by auto
      then have "map_of (fs_files site) p = None" using site_okD(4) [OF assms(1), of p] by (cases "map_of (fs_files site) p") auto
      with s acc(1) maps(1) [of p] parents [of p] site_okD(6,7) [OF assms(1) s] show ?thesis by auto
    next
      case 2
      note g = good_join [OF t(4) [OF 2(2,1)]]
      then have "p \<noteq> path" using 2 by auto
      with g 2 parents [of p] maps(1) [of p] acc(3) [OF 2(2,1)] show ?thesis
        by (auto intro: prefix_order.less_trans)
    qed
  qed
  have "canonical_path p \<and> map_of (fs_folders site') p = None \<and> parents_in site' p" if "map_of (fs_files site') p \<noteq> None" for p
  proof -
    have "canonical_path p \<and> parents_in site' p"
      using that maps(1) [of p] parents [of p] assms(2) site_okD(3,5) [OF assms(1), of p] by (auto split: if_splits)
    then show ?thesis using folder [of p] that by blast
  qed
  with folder maps(3,4) show ?thesis unfolding site_ok_def by blast
qed

lemma fake_write_result:
  assumes "fake_write fc now site path c = (res, site')"
  shows "res = \<lparr>ur_path = path, ur_bytes = length c, ur_sha256 = fc_sha256 fc c, ur_replaced = (map_of (fs_files site) path \<noteq> None)\<rparr>"
    and "fs_slug site' = fs_slug site" "fs_name site' = fs_name site"
  using assms by (auto simp: fake_write_def add_folders_for_def Let_def)

lemma fake_upload_ok:
  assumes "fake_ok fk" "\<not> ub_broken body" "fake_upload_file fc mo slug raw overwrite body fk = (r, fk')"
  shows "fake_ok fk' \<and> outlined r = fst (spec (fake_rules fc) (R_UploadFile slug raw overwrite header body) (fake_view fk))
    \<and> fake_view fk' = snd (spec (fake_rules fc) (R_UploadFile slug raw overwrite header body) (fake_view fk))"
proof (cases "spec_target (fake_view fk) slug raw")
  case (Inl e)
  then show ?thesis using assms by (auto simp: fake_upload_file_def fake_target)
next
  case (Inr t)
  obtain v path where t: "t = (v, path)" by fastforce
  from fake_target_ok [OF Inr [unfolded t] assms(1)] obtain site where site: "map_of (fk_sites fk) slug = Some site"
    "v = \<lparr>sv_name = fs_name site, sv_items = fake_items site\<rparr>" "canonical_path path" "fs_slug site = slug" "site_ok site" .
  let ?c = "concat (ub_chunks body)"
  let ?up = "spec_upload (fake_rules fc) (fake_items site) (segments_of path) overwrite ?c"
  have cap: "sr_cap (fake_rules fc) = fc_max_upload_bytes fc" by (simp add: fake_rules_def)
  obtain res site' where w: "fake_write fc (mo_now mo) site path ?c = (res, site')" by fastforce
  show ?thesis
  proof (cases "length ?c \<le> fc_max_upload_bytes fc")
    case small: True
    then have check: "fake_check_write_target site path overwrite = ?up"
      using fake_check_spec [OF site(5,3)] cap by simp
    show ?thesis
    proof (cases ?up)
      case (Inl e)
      then show ?thesis using assms check small Inr t site(1,2) by (auto simp: fake_upload_file_def fake_target Let_def)
    next
      case (Inr replaced)
      note w' = fake_write_result [OF w] and items = fake_write_items [OF site(5,3) w Inr] and ok = fake_write_site_ok [OF site(5,3) w Inr]
      have "fk' = put_site site' fk" "r = Inr (Uploaded (if replaced then 200 else 201) res)"
        using assms check small \<open>spec_target _ _ _ = _\<close> t site(1) w Inr by (auto simp: fake_upload_file_def fake_target Let_def)
      moreover have "res = \<lparr>ur_path = path, ur_bytes = length ?c, ur_sha256 = sr_sha256 (fake_rules fc) ?c, ur_replaced = replaced\<rparr>"
        using w'(1) accepted_write(2) [OF site(5,3) Inr] by (simp add: fake_rules_def)
      ultimately show ?thesis
        using put_site_ok [OF assms(1) ok] w'(2,3) items site(2,4) \<open>spec_target _ _ _ = _\<close> t Inr by (simp add: Let_def)
    qed
  next
    case False
    then show ?thesis using assms Inr t site(1,2) cap by (auto simp: fake_upload_file_def fake_target spec_upload_def Let_def)
  qed
qed

section \<open>Sites\<close>

lemma fake_create_site_ok:
  assumes "fake_ok fk" "fake_create_site fc mo name fk = (r, fk')"
  shows "fake_ok fk' \<and> outlined r = fst (spec (fake_rules fc) (R_CreateSite name) (fake_view fk))
    \<and> fake_view fk' = snd (spec (fake_rules fc) (R_CreateSite name) (fake_view fk))"
proof (cases "slug_from_name (fc_nfkd fc) name")
  case (Inl e)
  then show ?thesis using assms by (auto simp: fake_create_site_def fake_rules_def)
next
  case (Inr slug)
  let ?site = "\<lparr>fs_slug = slug, fs_name = strip is_space name, fs_created_at = mo_now mo, fs_files = [], fs_folders = []\<rparr>"
  have ok: "site_ok ?site" by (simp add: site_ok_def)
  have items: "fake_items ?site = no_items" by (auto simp: fun_eq_iff fake_items_def no_items_def item_at_def)
  show ?thesis
    using assms Inr put_site_ok [OF assms(1) ok] fake_site_answer [OF ok, of 201 fc] items
    by (cases "map_of (fk_sites fk) slug") (auto simp: fake_create_site_def fake_rules_def fake_view_None fake_view_def Let_def)
qed

lemma fake_delete_site_ok:
  assumes "fake_ok fk" "fake_delete_site slug confirm fk = (r, fk')"
  shows "fake_ok fk' \<and> outlined r = fst (spec ru (R_DeleteSite slug confirm) (fake_view fk))
    \<and> fake_view fk' = snd (spec ru (R_DeleteSite slug confirm) (fake_view fk))"
proof (cases "map_of (fk_sites fk) slug")
  case None
  then show ?thesis using assms by (auto simp: fake_delete_site_def fake_find_site_def fake_view_def)
next
  case (Some site)
  show ?thesis
  proof (cases "confirm = Some slug")
    case False
    then show ?thesis using assms Some fake_okD(1) [OF assms(1) Some]
      by (auto simp: fake_delete_site_def fake_find_site_def fake_view_def)
  next
    case True
    then have "r = Inr NoContent" "fk' = fk\<lparr>fk_sites := AList.delete slug (fk_sites fk)\<rparr>"
      using assms(2) Some fake_okD(1) [OF assms(1) Some] by (auto simp: fake_delete_site_def fake_find_site_def)
    moreover have "fake_ok (fk\<lparr>fk_sites := AList.delete slug (fk_sites fk)\<rparr>)"
      using assms(1) by (auto simp: fake_ok_def distinct_delete delete_conv' split: if_splits)
    moreover have "fake_view (fk\<lparr>fk_sites := AList.delete slug (fk_sites fk)\<rparr>) = (fake_view fk)(slug := None)"
      by (auto simp: fun_eq_iff fake_view_def delete_conv')
    ultimately show ?thesis using Some True by (simp add: fake_view_def)
  qed
qed

lemma fake_get_site_ok:
  assumes "fake_ok fk"
  shows "outlined (fake_get_site fc slug fk) = fst (spec (fake_rules fc) (R_GetSite slug) (fake_view fk))"
proof (cases "map_of (fk_sites fk) slug")
  case (Some site)
  then show ?thesis using fake_site_answer [OF fake_okD(2) [OF assms Some], of 200 fc] fake_okD(1) [OF assms Some]
    by (simp add: fake_get_site_def fake_find_site_def fake_view_def)
qed (simp add: fake_get_site_def fake_find_site_def fake_view_def)

section \<open>Downloads and removals\<close>

lemma fake_download_ok:
  assumes "fake_ok fk"
  shows "outlined (fake_download_file fc slug raw fk) = fst (spec (fake_rules fc) (R_DownloadFile slug raw) (fake_view fk))"
proof (cases "spec_target (fake_view fk) slug raw")
  case (Inl e)
  then show ?thesis by (auto simp: fake_download_file_def fake_target)
next
  case (Inr t)
  obtain v path where t: "t = (v, path)" by fastforce
  from fake_target_ok [OF Inr [unfolded t] assms] obtain site where site: "map_of (fk_sites fk) slug = Some site"
    "v = \<lparr>sv_name = fs_name site, sv_items = fake_items site\<rparr>" "canonical_path path" "fs_slug site = slug" "site_ok site" .
  show ?thesis
    using Inr t site(1,2) fake_items_path [OF site(3), of site] site_okD(4) [OF site(5), of path]
    by (cases "map_of (fs_files site) path")
      (auto simp: item_at_def fake_download_file_def fake_target fake_rules_def Let_def split: sum.split)
qed

text \<open>Keys removed from a site: what is left, when everything below a removed folder went too.\<close>

lemma fake_removed:
  assumes "site_ok site" "site_ok site'" "canonical_path path"
    "\<And>p. map_of (fs_files site') p = (if prefix (segments_of path) (segments_of p) then None else map_of (fs_files site) p)"
    "\<And>p. map_of (fs_folders site') p = (if prefix (segments_of path) (segments_of p) then None else map_of (fs_folders site) p)"
  shows "fake_items site' = without (segments_of path) (fake_items site)"
proof
  fix q
  show "fake_items site' q = without (segments_of path) (fake_items site) q"
  proof (cases "q \<noteq> [] \<and> good_path q")
    case True
    then show ?thesis using assms(4,5) [of "join_on slash q"] good_join(2) [of q]
      by (auto simp: fake_items_def without_def item_at_def)
  next
    case False
    then show ?thesis using segments_nonempty [OF assms(3)] by (auto simp: fake_items_def without_def)
  qed
qed

lemma fake_removed_ok:
  assumes "site_ok site" "distinct (map fst (fs_files site'))" "distinct (map fst (fs_folders site'))"
    "\<And>p. map_of (fs_files site') p = (if prefix t (segments_of p) then None else map_of (fs_files site) p)"
    "\<And>p. map_of (fs_folders site') p = (if prefix t (segments_of p) then None else map_of (fs_folders site) p)"
  shows "site_ok site'"
proof -
  have parents: "parents_in site' p" if "parents_in site p" "\<not> prefix t (segments_of p)" "canonical_path p" for p
    unfolding parents_in_def assms(5)
  proof (intro allI impI)
    fix q assume q: "q \<noteq> []" "strict_prefix q (segments_of p)"
    then have "segments_of (join_on slash q) = q" using target_parts(4) [OF that(3) q(2,1)] good_join(2) by blast
    moreover have "\<not> prefix t q" using that(2) q(2) by (auto dest: prefix_order.trans simp: strict_prefix_def)
    ultimately show "(if prefix t (segments_of (join_on slash q)) then None else map_of (fs_folders site) (join_on slash q)) \<noteq> None"
      using that(1) q by (simp add: parents_in_def)
  qed
  have "canonical_path p \<and> map_of (fs_folders site') p = None \<and> parents_in site' p" if "map_of (fs_files site') p \<noteq> None" for p
    using that parents [of p] assms(1) unfolding assms(4,5) by (auto simp: site_ok_def split: if_splits)
  moreover have "canonical_path p \<and> parents_in site' p" if "map_of (fs_folders site') p \<noteq> None" for p
    using that parents [of p] assms(1) unfolding assms(5) by (auto simp: site_ok_def split: if_splits)
  ultimately show ?thesis unfolding site_ok_def using assms(2,3) by blast
qed

text \<open>Below a file there is nothing.\<close>

lemma below_fake_file:
  assumes "site_ok site" "fake_items site t = Is_File c" "strict_prefix t q"
  shows "fake_items site q = Absent"
  using items_above [OF assms(1) _ assms(3)] assms(2) by auto

lemma fake_keys_below:
  assumes "site_ok site" "canonical_path path" "map_of (fs_files site) p \<noteq> None \<or> map_of (fs_folders site) p \<noteq> None"
  shows "fake_items site (segments_of p) \<noteq> Absent" "below path p \<longleftrightarrow> strict_prefix (segments_of path) (segments_of p)"
    "prefix (segments_of path) (segments_of p) \<longleftrightarrow> below path p \<or> p = path"
proof -
  have "canonical_path p" using assms(3) site_okD(3,6) [OF assms(1), of p] by blast
  then show "fake_items site (segments_of p) \<noteq> Absent"
    using fake_items_path item_at_simps(3) [OF assms(1), of p] assms(3) by simp
  show b: "below path p \<longleftrightarrow> strict_prefix (segments_of path) (segments_of p)"
    using below_iff canonical_nonempty [OF assms(2)] by blast
  show "prefix (segments_of path) (segments_of p) \<longleftrightarrow> below path p \<or> p = path"
    using segments_inj [of path p] unfolding b by (auto simp: strict_prefix_def)
qed

lemma fake_delete_file_ok:
  assumes "fake_ok fk" "fake_delete_file slug raw fk = (r, fk')"
  shows "fake_ok fk' \<and> outlined r = fst (spec ru (R_DeleteFile slug raw) (fake_view fk))
    \<and> fake_view fk' = snd (spec ru (R_DeleteFile slug raw) (fake_view fk))"
proof (cases "spec_target (fake_view fk) slug raw")
  case (Inl e)
  then show ?thesis using assms by (auto simp: fake_delete_file_def fake_target)
next
  case (Inr t)
  obtain v path where t: "t = (v, path)" by fastforce
  from fake_target_ok [OF Inr [unfolded t] assms(1)] obtain site where site: "map_of (fk_sites fk) slug = Some site"
    "v = \<lparr>sv_name = fs_name site, sv_items = fake_items site\<rparr>" "canonical_path path" "fs_slug site = slug" "site_ok site" .
  note at = item_at_simps [OF site(5), of path] and it = fake_items_path [OF site(3), of site]
  show ?thesis
  proof (cases "item_at site path")
    case (Is_File c)
    let ?site = "site\<lparr>fs_files := AList.delete path (fs_files site)\<rparr>"
    have r: "r = Inr NoContent" "fk' = put_site ?site fk"
      using assms(2) Inr t site(1) at Is_File by (auto simp: fake_delete_file_def fake_target)
    have none: "\<not> strict_prefix (segments_of path) (segments_of p)"
      if "map_of (fs_files site) p \<noteq> None \<or> map_of (fs_folders site) p \<noteq> None" for p
      using below_fake_file [OF site(5), of "segments_of path" c "segments_of p"] fake_keys_below(1) [OF site(5,3) that] Is_File it by auto
    have pre: "prefix (segments_of path) (segments_of p) \<longleftrightarrow> p = path"
      if "map_of (fs_files site) p \<noteq> None \<or> map_of (fs_folders site) p \<noteq> None" for p
      using none [OF that] segments_inj [of path p] by (auto simp: strict_prefix_def)
    have nofolder: "map_of (fs_folders site) path = None" using at Is_File by simp
    have maps: "map_of (fs_files ?site) p = (if prefix (segments_of path) (segments_of p) then None else map_of (fs_files site) p)"
      "map_of (fs_folders ?site) p = (if prefix (segments_of path) (segments_of p) then None else map_of (fs_folders site) p)" for p
      using pre [of p] nofolder
      by (cases "map_of (fs_files site) p"; cases "map_of (fs_folders site) p"; auto simp: delete_conv')+
    have ok: "site_ok ?site"
      by (rule fake_removed_ok [OF site(5) _ _ maps]) (simp_all add: distinct_delete site_okD(1,2) [OF site(5)])
    show ?thesis
      using r put_site_ok [OF assms(1) ok] fake_removed [OF site(5) ok site(3) maps] Inr t site(2,4) it Is_File by simp
  qed (use assms Inr t site(1,2) at it in \<open>auto simp: fake_delete_file_def fake_target\<close>)
qed

text \<open>What the recursive removal of a folder takes away.\<close>

lemma descendants_keys:
  assumes "descendants site folder = (ds, fs)"
  shows "p \<in> set fs \<longleftrightarrow> map_of (fs_files site) p \<noteq> None \<and> below folder p"
    "p \<in> set ds \<longleftrightarrow> map_of (fs_folders site) p \<noteq> None \<and> below folder p"
proof -
  have fs: "fs = filter (prefix (folder_prefix folder)) (map fst (fs_files site))"
    and ds: "ds = filter (prefix (folder_prefix folder)) (map fst (fs_folders site))"
    using assms by (simp_all add: descendants_def Let_def)
  show "p \<in> set fs \<longleftrightarrow> map_of (fs_files site) p \<noteq> None \<and> below folder p"
    "p \<in> set ds \<longleftrightarrow> map_of (fs_folders site) p \<noteq> None \<and> below folder p"
    unfolding fs ds set_filter set_map by (simp_all add: folder_prefix_below map_of_eq_None_iff conj_commute)
qed

lemma descendants_empty:
  assumes "site_ok site" "canonical_path path" "descendants site path = (ds, fs)"
  shows "ds \<noteq> [] \<or> fs \<noteq> [] \<longleftrightarrow> (\<exists>q. strict_prefix (segments_of path) q \<and> fake_items site q \<noteq> Absent)"
proof
  assume "ds \<noteq> [] \<or> fs \<noteq> []"
  then obtain p where "p \<in> set ds \<union> set fs" by (cases ds; cases fs) auto
  then have p: "map_of (fs_files site) p \<noteq> None \<or> map_of (fs_folders site) p \<noteq> None" "below path p"
    using descendants_keys [OF assms(3), of p] by blast+
  then show "\<exists>q. strict_prefix (segments_of path) q \<and> fake_items site q \<noteq> Absent"
    using fake_keys_below(1,2) [OF assms(1,2) p(1)] by blast
next
  assume "\<exists>q. strict_prefix (segments_of path) q \<and> fake_items site q \<noteq> Absent"
  then obtain q where q: "strict_prefix (segments_of path) q" "fake_items site q \<noteq> Absent" by blast
  then have ne: "q \<noteq> []" by auto
  then have good: "good_path q" using items_good q(2) by blast
  let ?p = "join_on slash q"
  have "item_at site ?p \<noteq> Absent" using q(2) ne good by (simp add: fake_items_def)
  then have p: "map_of (fs_files site) ?p \<noteq> None \<or> map_of (fs_folders site) ?p \<noteq> None"
    unfolding item_at_simps(3) [OF assms(1)] by (simp only: de_Morgan_conj)
  moreover have "below path ?p" using fake_keys_below(2) [OF assms(1,2) p] q(1) good_join(2) [OF good] by simp
  ultimately have "?p \<in> set ds \<union> set fs" using descendants_keys [OF assms(3), of ?p] by blast
  then show "ds \<noteq> [] \<or> fs \<noteq> []" by auto
qed

lemma removed_maps:
  assumes "site_ok site" "canonical_path path" "descendants site path = (ds, fs)" "map_of (fs_files site) path = None"
  shows "map_of (fold AList.delete fs (fs_files site)) p =
      (if prefix (segments_of path) (segments_of p) then None else map_of (fs_files site) p)"
    "map_of (AList.delete path (fold AList.delete ds (fs_folders site))) p =
      (if prefix (segments_of path) (segments_of p) then None else map_of (fs_folders site) p)"
proof -
  note key = descendants_keys [OF assms(3), of p] fake_keys_below(3) [OF assms(1,2), of p]
  show "map_of (fold AList.delete fs (fs_files site)) p =
      (if prefix (segments_of path) (segments_of p) then None else map_of (fs_files site) p)"
    "map_of (AList.delete path (fold AList.delete ds (fs_folders site))) p =
      (if prefix (segments_of path) (segments_of p) then None else map_of (fs_folders site) p)"
    using assms(4) key
    by (cases "map_of (fs_files site) p"; cases "map_of (fs_folders site) p"; auto simp: map_of_fold_delete delete_conv')+
qed

lemma fake_delete_folder_ok:
  assumes "fake_ok fk" "fake_delete_folder slug raw recursive fk = (r, fk')"
  shows "fake_ok fk' \<and> outlined r = fst (spec ru (R_DeleteFolder slug raw recursive) (fake_view fk))
    \<and> fake_view fk' = snd (spec ru (R_DeleteFolder slug raw recursive) (fake_view fk))"
proof (cases "spec_target (fake_view fk) slug raw")
  case (Inl e)
  then show ?thesis using assms by (auto simp: fake_delete_folder_def fake_target)
next
  case (Inr t)
  obtain v path where t: "t = (v, path)" by fastforce
  from fake_target_ok [OF Inr [unfolded t] assms(1)] obtain site where site: "map_of (fk_sites fk) slug = Some site"
    "v = \<lparr>sv_name = fs_name site, sv_items = fake_items site\<rparr>" "canonical_path path" "fs_slug site = slug" "site_ok site" .
  note at = item_at_simps [OF site(5), of path] and it = fake_items_path [OF site(3), of site]
  obtain ds fs where d: "descendants site path = (ds, fs)" by fastforce
  note empty = descendants_empty [OF site(5,3) d]
  show ?thesis
  proof (cases "item_at site path")
    case Is_Folder
    then have f: "map_of (fs_files site) path = None" "map_of (fs_folders site) path \<noteq> None"
      using at site_okD(4) [OF site(5), of path] by (auto simp: item_at_def split: option.splits)
    let ?site = "site\<lparr>fs_files := fold AList.delete fs (fs_files site),
                   fs_folders := AList.delete path (fold AList.delete ds (fs_folders site))\<rparr>"
    show ?thesis
    proof (cases "(ds \<noteq> [] \<or> fs \<noteq> []) \<and> \<not> recursive")
      case True
      then have "r = Inl (ApiError 409 FOLDER_NOT_EMPTY)" "fk' = fk"
        using assms(2) Inr t site(1) f d by (auto simp: fake_delete_folder_def fake_target)
      then show ?thesis using assms(1) True Inr t site(2) it Is_Folder unfolding empty by (simp add: Let_def)
    next
      case False
      then have r: "r = Inr NoContent" "fk' = put_site ?site fk"
        using assms(2) Inr t site(1) f d by (auto simp: fake_delete_folder_def fake_target)
      have maps: "map_of (fs_files ?site) p = (if prefix (segments_of path) (segments_of p) then None else map_of (fs_files site) p)"
        "map_of (fs_folders ?site) p = (if prefix (segments_of path) (segments_of p) then None else map_of (fs_folders site) p)" for p
        using removed_maps [OF site(5,3) d f(1), of p] by simp_all
      have ok: "site_ok ?site"
        by (rule fake_removed_ok [OF site(5) _ _ maps])
          (simp_all add: distinct_delete distinct_fold_delete site_okD(1,2) [OF site(5)])
      show ?thesis
        using r False put_site_ok [OF assms(1) ok] fake_removed [OF site(5) ok site(3) maps] Inr t site(2,4) it Is_Folder
        unfolding empty by (simp add: Let_def)
    qed
  next
    case (Is_File c)
    then have "r = Inl (ApiError 409 NOT_A_FOLDER)" "fk' = fk"
      using assms(2) Inr t site(1) at by (auto simp: fake_delete_folder_def fake_target)
    then show ?thesis using assms(1) Inr t site(2) it Is_File by (simp add: Let_def)
  next
    case Absent
    then have "r = Inl not_found" "fk' = fk"
      using assms(2) Inr t site(1) at by (auto simp: fake_delete_folder_def fake_target)
    then show ?thesis using assms(1) Inr t site(2) it Absent by (simp add: Let_def)
  qed
qed

end
