(* ===== verification/Fake_Listing.thy ===== *)
theory Fake_Listing
  imports Fake_Store Real_Listing
begin

text \<open>
  Listings of the fake backend (\<open>FakeSite.children\<close>, \<open>folder_bytes\<close>) against the contract, and its
  interpretation as a site store.
\<close>

lemma collect_map: "(\<And>x. x \<in> set xs \<Longrightarrow> f x = Inr (g x)) \<Longrightarrow> collect f xs = Inr (map g xs)"
  by (induction xs) simp_all

text \<open>Names in one folder sort as their paths do.\<close>

lemma append_le_append: "(a :: 'a::linorder list) @ b \<le> a @ c \<longleftrightarrow> b \<le> c"
  by (induction a) simp_all

lemma join_name_mono: "join_name folder a \<le> join_name folder b \<longleftrightarrow> a \<le> b"
  using append_le_append [of "folder @ [slash]"] by (simp add: join_name_def)

lemma sorted_children:
  assumes "distinct ks" "finite S" "join_name folder ` S = {p \<in> set ks. path_parent p = folder \<and> prefix (folder_prefix folder) p}"
  shows "filter (prefix (folder_prefix folder)) (sort (filter (\<lambda>p. path_parent p = folder) ks)) =
    map (join_name folder) (sorted_list_of_set S)"
proof (rule sorted_distinct_set_unique)
  have "sorted (map (join_name folder) xs)" if "sorted xs" for xs :: "ustring list"
    using that by (simp add: sorted_map sorted_wrt_map join_name_mono)
  then show "sorted (map (join_name folder) (sorted_list_of_set S))" by simp
  show "distinct (map (join_name folder) (sorted_list_of_set S))"
    by (simp add: distinct_map inj_on_def join_name_inj)
  show "set (filter (prefix (folder_prefix folder)) (sort (filter (\<lambda>p. path_parent p = folder) ks))) =
      set (map (join_name folder) (sorted_list_of_set S))"
    using assms(2,3) by auto
qed (simp_all add: assms(1) sorted_filter [of "\<lambda>x. x", simplified])

lemma child_path:
  assumes "folder = [] \<or> canonical_path folder" "good_path (segments_of folder @ [n])"
  shows "join_on slash (segments_of folder @ [n]) = join_name folder n" "path_parent (join_name folder n) = folder"
    "path_name (join_name folder n) = n" "prefix (folder_prefix folder) (join_name folder n)"
proof -
  have good: "list_all good_segment (segments_of folder @ [n])"
    using assms(2) canonical_segments by (metis good_path_def)
  then show j: "join_on slash (segments_of folder @ [n]) = join_name folder n"
    using join_name_on [of "segments_of folder" n] by (simp add: join_segments_of)
  show "path_parent (join_name folder n) = folder" "path_name (join_name folder n) = n"
    using path_parent_name_join [OF good] unfolding j by (simp_all add: join_segments_of)
  show "prefix (folder_prefix folder) (join_name folder n)" by (simp add: folder_prefix_def join_name_def)
qed

lemma child_keys:
  assumes "site_ok site" "folder = [] \<or> canonical_path folder"
    "\<And>p. p \<in> set ks \<longleftrightarrow> canonical_path p \<and> P (item_at site p)" "\<not> P Absent"
  shows "join_name folder ` {n. P (fake_items site (segments_of folder @ [n]))} =
    {p \<in> set ks. path_parent p = folder \<and> prefix (folder_prefix folder) p}"
proof (intro set_eqI iffI)
  fix p assume "p \<in> join_name folder ` {n. P (fake_items site (segments_of folder @ [n]))}"
  then obtain n where n: "p = join_name folder n" "P (fake_items site (segments_of folder @ [n]))" by blast
  with assms(4) have good: "good_path (segments_of folder @ [n])" using items_good [of site "segments_of folder @ [n]"] by (metis snoc_eq_iff_butlast)
  note c = child_path [OF assms(2) good]
  have "P (item_at site p)" using n good c(1) by (simp add: fake_items_def)
  moreover have "canonical_path p" using good_join(1) [OF good] c(1) n(1) by simp
  ultimately show "p \<in> {p \<in> set ks. path_parent p = folder \<and> prefix (folder_prefix folder) p}"
    using assms(3) c(2,4) n(1) by blast
next
  fix p assume "p \<in> {p \<in> set ks. path_parent p = folder \<and> prefix (folder_prefix folder) p}"
  then have p: "canonical_path p" "P (item_at site p)" "path_parent p = folder" using assms(3) by auto
  then have j: "p = join_name folder (path_name p)"
    using path_parent_name [OF p(1)] by (auto simp: join_name_def split: if_splits)
  have "slash \<notin> set (path_name p)" "path_name p \<noteq> []"
    using path_parent_name [OF p(1)] by (auto simp: good_segment_def)
  then have "segments_of p = segments_of folder @ [path_name p]" using join_name_segments j by metis
  then have "P (fake_items site (segments_of folder @ [path_name p]))" using p(2) fake_items_path [OF p(1)] by metis
  then show "p \<in> join_name folder ` {n. P (fake_items site (segments_of folder @ [n]))}" using j by blast
qed

lemma sorted_entries:
  assumes "site_ok site" "folder = [] \<or> canonical_path folder" "distinct ks"
    "\<And>p. p \<in> set ks \<longleftrightarrow> canonical_path p \<and> P (item_at site p)" "\<not> P Absent"
    "\<And>n. join_name folder n \<in> set ks \<Longrightarrow> good_path (segments_of folder @ [n]) \<Longrightarrow>
       \<exists>e. entry (join_name folder n) = Inr e \<and> entry_line e = h n"
  obtains es where "collect entry (filter (prefix (folder_prefix folder)) (sort (filter (\<lambda>p. path_parent p = folder) ks))) = Inr es"
    "map entry_line es = map h (sorted_list_of_set {n. P (fake_items site (segments_of folder @ [n]))})"
proof -
  let ?S = "{n. P (fake_items site (segments_of folder @ [n]))}"
  note keys = child_keys [OF assms(1,2,4,5)]
  have "finite (join_name folder ` ?S)" unfolding keys by simp
  then have fin: "finite ?S" by (rule finite_imageD) (simp add: inj_on_def join_name_inj)
  define g where "g = (\<lambda>p. case entry p of Inr e \<Rightarrow> e | Inl _ \<Rightarrow> undefined)"
  have entry: "entry (join_name folder n) = Inr (g (join_name folder n)) \<and> entry_line (g (join_name folder n)) = h n"
    if "n \<in> ?S" for n
  proof -
    have "good_path (segments_of folder @ [n])"
      using that assms(5) items_good [of site "segments_of folder @ [n]"] by (metis mem_Collect_eq snoc_eq_iff_butlast)
    moreover have "join_name folder n \<in> set ks" using that keys by blast
    ultimately show ?thesis using assms(6) [of n] by (auto simp: g_def)
  qed
  let ?ns = "map (join_name folder) (sorted_list_of_set ?S)"
  have "collect entry ?ns = Inr (map g ?ns)" using entry fin by (intro collect_map) auto
  moreover have "map entry_line (map g ?ns) = map h (sorted_list_of_set ?S)" using entry fin by simp
  ultimately show ?thesis using that unfolding sorted_children [OF assms(3) fin keys] by blast
qed

lemma fake_listing:
  assumes "site_ok site" "folder = [] \<or> canonical_path folder"
  obtains ds fs es1 es2 where "children site folder = (ds, fs)"
    "collect (fake_folder_entry site) ds = Inr es1" "collect (fake_file_entry fc site) fs = Inr es2"
    "map entry_line (es1 @ es2) = spec_listing (fake_rules fc) (fake_items site) (segments_of folder)"
proof -
  let ?pick = "\<lambda>ks. filter (prefix (folder_prefix folder)) (sort (filter (\<lambda>p. path_parent p = folder) ks))"
  let ?file = "\<lambda>n. case fake_items site (segments_of folder @ [n]) of
      Is_File c \<Rightarrow> (n, FILE, length c, Some (sr_sha256 (fake_rules fc) c)) | _ \<Rightarrow> (n, FILE, 0, None)"
  note ok = site_okD [OF assms(1)]
  have canon: "p \<in> fst ` set (fs_folders site) \<Longrightarrow> canonical_path p" "p \<in> fst ` set (fs_files site) \<Longrightarrow> canonical_path p" for p
    using ok(6) [of p] ok(3) [of p] by (metis map_of_eq_None_iff not_None_eq)+
  have child: "path_name (join_name folder n) = n" "segments_of (join_name folder n) = segments_of folder @ [n]"
    "fake_items site (segments_of folder @ [n]) = item_at site (join_name folder n)"
    if "good_path (segments_of folder @ [n])" for n
    using child_path [OF assms(2) that] good_join(2) [OF that] that by (simp_all add: fake_items_def)
  obtain es1 where 1: "collect (fake_folder_entry site) (?pick (map fst (fs_folders site))) = Inr es1"
    "map entry_line es1 = map (\<lambda>n. (n, FOLDER, total_below (fake_items site) (segments_of folder @ [n]), None))
       (sorted_list_of_set {n. fake_items site (segments_of folder @ [n]) = Is_Folder})"
  proof (rule sorted_entries [OF assms(1,2) ok(2)])
    show "p \<in> set (map fst (fs_folders site)) \<longleftrightarrow> canonical_path p \<and> item_at site p = Is_Folder" for p
      using canon(1) [of p] item_at_simps(1) [OF assms(1), of p] by (auto simp: map_of_eq_None_iff)
  next
    fix n assume n: "join_name folder n \<in> set (map fst (fs_folders site))" "good_path (segments_of folder @ [n])"
    then obtain t where "folder_modified_at site (join_name folder n) = Some t"
      by (cases "map_of (fs_folders site) (join_name folder n)") (auto simp: folder_modified_at_def map_of_eq_None_iff)
    then show "\<exists>e. fake_folder_entry site (join_name folder n) = Inr e \<and>
        entry_line e = (n, FOLDER, total_below (fake_items site) (segments_of folder @ [n]), None)"
      using fake_folder_totals(2) [OF assms(1), of "join_name folder n"] canon(1) [of "join_name folder n"] n(1) child(1,2) [OF n(2)]
      by (simp add: fake_folder_entry_def entry_line_def)
  qed simp
  obtain es2 where 2: "collect (fake_file_entry fc site) (?pick (map fst (fs_files site))) = Inr es2"
    "map entry_line es2 = map ?file (sorted_list_of_set {n. \<exists>c. fake_items site (segments_of folder @ [n]) = Is_File c})"
  proof (rule sorted_entries [OF assms(1,2) ok(1)])
    show "p \<in> set (map fst (fs_files site)) \<longleftrightarrow> canonical_path p \<and> (\<exists>c. item_at site p = Is_File c)" for p
      using canon(2) [of p] item_at_simps(2) [OF assms(1), of p] unfolding set_map dom_map_of_conv_image_fst [symmetric] by auto
  next
    fix n assume n: "join_name folder n \<in> set (map fst (fs_files site))" "good_path (segments_of folder @ [n])"
    then obtain f where "map_of (fs_files site) (join_name folder n) = Some f" by (metis map_of_eq_None_iff not_None_eq set_map)
    then show "\<exists>e. fake_file_entry fc site (join_name folder n) = Inr e \<and> entry_line e = ?file n"
      using child [OF n(2)] by (simp add: fake_file_entry_def entry_line_def item_at_def fake_rules_def)
  qed simp
  show ?thesis using that [of "?pick (map fst (fs_folders site))" "?pick (map fst (fs_files site))" es1 es2] 1 2
    by (simp add: children_def spec_listing_def Let_def)
qed

section \<open>The two routes\<close>

lemma fake_list_files_ok:
  assumes "fake_ok fk"
  shows "outlined (fake_list_files fc slug raw fk) = fst (spec (fake_rules fc) (R_ListFiles slug raw) (fake_view fk))"
proof (cases "map_of (fk_sites fk) slug")
  case None
  then show ?thesis by (simp add: fake_list_files_def fake_site_and_path_def fake_find_site_def fake_view_def)
next
  case (Some site)
  note ok = fake_okD [OF assms Some]
  have v: "fake_view fk slug = Some \<lparr>sv_name = fs_name site, sv_items = fake_items site\<rparr>" by (simp add: fake_view_def Some)
  show ?thesis
  proof (cases "valid_path raw True")
    case (Inl e)
    then show ?thesis using Some v by (simp add: fake_list_files_def fake_site_and_path_def fake_find_site_def)
  next
    case (Inr folder)
    have f: "folder = [] \<or> canonical_path folder" by (rule valid_folder [OF Inr])
    have root: "map_of (fs_files site) [] = None" using site_okD(3) [OF ok(2), of "[]"] by (cases "map_of (fs_files site) []") (auto simp: canonical_path_def)
    have at: "fake_items site (segments_of folder) = (if folder = [] then Is_Folder else item_at site folder)"
      using f fake_items_path [of folder site] by (auto simp: fake_items_def segments_of_def)
    obtain ds fs es1 es2 where l: "children site folder = (ds, fs)"
      "collect (fake_folder_entry site) ds = Inr es1" "collect (fake_file_entry fc site) fs = Inr es2"
      "map entry_line (es1 @ es2) = spec_listing (fake_rules fc) (fake_items site) (segments_of folder)"
      using fake_listing [OF ok(2) f] .
    show ?thesis
      using Some v Inr l root item_at_simps [OF ok(2), of folder] at
      by (cases "item_at site folder")
        (auto simp: fake_list_files_def fake_site_and_path_def fake_find_site_def has_folder_def)
  qed
qed

lemma fake_list_sites_ok:
  assumes "fake_ok fk"
  shows "outlined (fake_list_sites fc fk) = fst (spec (fake_rules fc) R_ListSites (fake_view fk))"
proof -
  let ?g = "\<lambda>x. site_line (fake_public_site fc (snd x))"
  have d: "distinct (map fst (fk_sites fk))" using assms by (simp add: fake_ok_def)
  have "?g x = spec_site_line (fake_rules fc) (fake_view fk) (fst x)" if "x \<in> set (fk_sites fk)" for x
  proof -
    have m: "map_of (fk_sites fk) (fst x) = Some (snd x)" using that d by simp
    show ?thesis
      using fake_site_answer [OF fake_okD(2) [OF assms m], of 200 fc] fake_okD(1) [OF assms m] m
      by (simp add: site_line_def spec_site_line_def site_outline_def fake_view_def)
  qed
  moreover have "fst ` set (fk_sites fk) = dom (fake_view fk)"
    unfolding dom_map_of_conv_image_fst [symmetric] by (auto simp: dom_def fake_view_def)
  ultimately have "map ?g (sort_key fst (fk_sites fk)) =
      map (spec_site_line (fake_rules fc) (fake_view fk)) (sorted_list_of_set (dom (fake_view fk)))"
    using map_sort_key [OF d, of ?g "spec_site_line (fake_rules fc) (fake_view fk)"] by simp
  then show ?thesis by (simp add: fake_list_sites_def comp_def)
qed
section \<open>The interpretation\<close>

lemma fake_store_step:
  assumes "fake_ok fk" "site_request rq" "undisturbed mo rq" "fake_route fc mo who rq fk = (r, fk')"
  shows "fake_ok fk' \<and> outlined r = fst (spec (fake_rules fc) rq (fake_view fk))
    \<and> fake_view fk' = snd (spec (fake_rules fc) rq (fake_view fk))"
proof (cases rq)
  case (R_CreateSite name)
  show ?thesis using fake_create_site_ok [OF assms(1)] assms(4) unfolding R_CreateSite by simp
next
  case (R_GetSite slug)
  then show ?thesis using assms fake_get_site_ok [OF assms(1), of fc slug] by auto
next
  case R_ListSites
  then show ?thesis using assms fake_list_sites_ok [OF assms(1), of fc] by auto
next
  case (R_ListFiles slug raw)
  then show ?thesis using assms fake_list_files_ok [OF assms(1), of fc slug raw] by auto
next
  case (R_DeleteSite slug confirm)
  show ?thesis using fake_delete_site_ok [OF assms(1)] assms(4) unfolding R_DeleteSite by simp
next
  case (R_UploadFile slug raw overwrite header body)
  show ?thesis using fake_upload_ok [OF assms(1), of body fc mo slug raw overwrite r fk' header] assms(3,4)
    unfolding R_UploadFile undisturbed.simps fake_route.simps by blast
next
  case (R_DownloadFile slug raw)
  then show ?thesis using assms fake_download_ok [OF assms(1), of fc slug raw] by auto
next
  case (R_DeleteFile slug raw)
  show ?thesis using fake_delete_file_ok [OF assms(1)] assms(4) unfolding R_DeleteFile by simp
next
  case (R_DeleteFolder slug raw recursive)
  show ?thesis using fake_delete_folder_ok [OF assms(1)] assms(4) unfolding R_DeleteFolder by simp
qed (use assms(2) in simp_all)

lemma fake_located:
  "fake_view fk slug = Some v \<Longrightarrow> q \<noteq> [] \<Longrightarrow> sv_items v q \<noteq> Absent \<Longrightarrow> good_path q"
  using items_good by (auto simp: fake_view_Some)

interpretation fake: site_store "fake_rules fc" fake_ok fake_view "\<lambda>mo. fake_route fc mo who"
  for fc :: fake_config and who :: fake_token
  using fake_store_step fake_located by unfold_locales blast+

end
