(* ===== verification/Equivalence.thy ===== *)
theory Equivalence
  imports Fake_Listing Request_Instances
begin

text \<open>
  The two backends side by side: what the interpretations of \<open>site_store\<close> and \<open>two_stores\<close> say
  of the routes of \<open>backend/routes.py\<close> and of \<open>common/fake_backend.py\<close>, stated over their
  models, with a concrete run of each.
\<close>

text \<open>The fake configured like a backend.\<close>

definition fake_like :: "backend \<Rightarrow> time \<Rightarrow> fake_config" where
  "fake_like bk session_length =
     \<lparr>fc_public_sites_url = bk_public_sites_url bk, fc_max_upload_bytes = sg_max_upload_bytes (bk_storage bk),
      fc_session_length = session_length, fc_sha256 = sg_sha256 (bk_storage bk), fc_nfkd = bk_nfkd bk, fc_mime = bk_mime bk\<rparr>"

lemma fake_like_rules: "fake_rules (fake_like bk l) = rules_of bk"
  by (simp add: fake_rules_def fake_like_def rules_of_def)

lemma fake_like_iff: "fake_rules fc = rules_of bk \<longleftrightarrow> fc = fake_like bk (fc_session_length fc)"
  by (cases fc) (auto simp: fake_rules_def fake_like_def rules_of_def)

interpretation backends: two_stores "rules_of bk" "volume_ok (bk_storage bk)" backend_view
    "\<lambda>mo. run_route bk mo actor" fake_ok fake_view "\<lambda>mo. fake_route (fake_like bk l) mo who"
  for bk :: backend and actor :: actor and l :: time and who :: fake_token
  using fake_store_step [of _ _ _ "fake_like bk l" who] fake_located unfolding fake_like_rules by unfold_locales blast+

text \<open>
  C2. The real backend refines the contract: whatever sequence of site and file requests it is sent,
  in a quiet environment, its answers and the sites it then shows are those of the abstract
  specification, and the invariant that ties rows, tree and index together holds at the end.
\<close>

theorem backend_refines_contract:
  assumes "volume_ok (bk_storage bk) st" "\<forall>(mo, rq)\<in>set rqs. site_request rq \<and> undisturbed mo rq"
  shows "fst (run_all (\<lambda>mo. run_route bk mo actor) rqs st) = fst (spec_run (rules_of bk) (map snd rqs) (backend_view st))
    \<and> backend_view (snd (run_all (\<lambda>mo. run_route bk mo actor) rqs st)) = snd (spec_run (rules_of bk) (map snd rqs) (backend_view st))
    \<and> volume_ok (bk_storage bk) (snd (run_all (\<lambda>mo. run_route bk mo actor) rqs st))"
  using assms by (rule real.run_all_spec)

text \<open>
  The fake backend is equivalent to the real one on sites and files, whatever the times and the draws of
  each: from states that show the same sites, any run of the same requests gets the same answers (times apart) from both and leaves
  the same sites behind, so a test against the fake is a test against the backend.
\<close>

theorem fake_equals_backend:
  assumes "fake_rules fc = rules_of bk" "volume_ok (bk_storage bk) st" "fake_ok fk" "backend_view st = fake_view fk"
    "map snd rqs = map snd rqs'"
    "\<forall>(mo, rq)\<in>set rqs. site_request rq \<and> undisturbed mo rq" "\<forall>(mo, rq)\<in>set rqs'. site_request rq \<and> undisturbed mo rq"
  shows "fst (run_all (\<lambda>mo. run_route bk mo actor) rqs st) = fst (run_all (\<lambda>mo. fake_route fc mo who) rqs' fk)
    \<and> backend_view (snd (run_all (\<lambda>mo. run_route bk mo actor) rqs st)) = fake_view (snd (run_all (\<lambda>mo. fake_route fc mo who) rqs' fk))"
  using backends.indistinguishable [OF assms(2-7)] assms(1) unfolding fake_like_iff by metis

text \<open>
  What was uploaded is what is downloaded: right after an answered upload, a download of the
  same path (spelt the same way) is answered with exactly the uploaded bytes.
\<close>

theorem upload_download:
  assumes "volume_ok (bk_storage bk) st" "undisturbed mo (R_UploadFile slug raw overwrite header body)" "calm (mo_env mo')"
    "run_route bk mo actor (R_UploadFile slug raw overwrite header body) st = (Inr (Uploaded status r), st')"
    "run_route bk mo' actor (R_DownloadFile slug raw) st' = (a, st'')"
  shows "\<exists>t d. outlined a = O_Content (concat (ub_chunks body)) t d"
  using assms by (rule real.upload_then_download)

text \<open>
  C17. A listing tells the truth: every file it shows is answered, when it is downloaded under its
  folder and name next, with bytes of exactly the length and the digest shown, and every folder it shows
  can be listed.
\<close>

theorem listing_is_true:
  assumes "volume_ok (bk_storage bk) st" "calm (mo_env mo)" "calm (mo_env mo')"
    "run_route bk mo actor (R_ListFiles slug raw) st = (Inr (Listing l), st')" "e \<in> set (fl_entries l)"
  shows "(fe_type e = FILE \<longrightarrow> (\<forall>a st''. run_route bk mo' actor (R_DownloadFile slug (join_name (fl_path l) (fe_name e))) st' = (a, st'') \<longrightarrow>
        (\<exists>c t d. outlined a = O_Content c t d \<and> fe_bytes e = length c \<and> fe_sha256 e = Some (sg_sha256 (bk_storage bk) c))))
    \<and> (fe_type e = FOLDER \<longrightarrow> (\<forall>a st''. run_route bk mo' actor (R_ListFiles slug (join_name (fl_path l) (fe_name e))) st' = (a, st'') \<longrightarrow>
        (\<exists>lines. outlined a = O_Entries slug (join_name (fl_path l) (fe_name e)) lines)))"
  using real.listed_is_there [OF assms] by (simp add: rules_of_def)

text \<open>C21. A request about one site changes nothing of another.\<close>

theorem request_leaves_other_sites:
  assumes "volume_ok (bk_storage bk) st" "undisturbed mo rq" "run_route bk mo actor rq st = (a, st')"
    "rq \<in> {R_GetSite slug, R_ListFiles slug raw, R_DeleteSite slug confirm, R_UploadFile slug raw overwrite header body,
       R_DownloadFile slug raw, R_DeleteFile slug raw, R_DeleteFolder slug raw recursive}" "slug' \<noteq> slug"
  shows "backend_view st' slug' = backend_view st slug'"
  using assms by (rule real.other_sites_untouched)

section \<open>A run of both\<close>

definition fresh_state :: state where
  "fresh_state = \<lparr>st_db = \<lparr>db_users = [sample_user], db_tokens = [], db_sites = [], db_files = []\<rparr>,
     st_sites = Folder [] 0, st_staging = Folder [] 0\<rparr>"

definition fresh_fake :: fake_state where
  "fresh_fake = \<lparr>fk_users = [], fk_tokens = [], fk_secrets = [], fk_sites = [], fk_requests = []\<rparr>"

definition sample_config :: fake_config where
  "sample_config = \<lparr>fc_public_sites_url = lit ''http://h'', fc_max_upload_bytes = 10, fc_session_length = 100,
     fc_sha256 = (\<lambda>b. b), fc_nfkd = (\<lambda>s. s), fc_mime = (\<lambda>_. None)\<rparr>"

definition sample_actor :: actor where
  "sample_actor = \<lparr>a_token = sample_session, a_user = sample_user\<rparr>"

definition sample_caller_token :: fake_token where
  "sample_caller_token = \<lparr>ft_id = lit ''tok_1'', ft_name = lit ''session'', ft_type = SESSION, ft_scope = SESSION_SCOPE,
     ft_user_id = lit ''usr_0'', ft_created_at = 1, ft_last_used_at = None, ft_expires_at = None, ft_revoked = False\<rparr>"

definition sample_requests :: "request list" where
  "sample_requests =
     [R_CreateSite (lit ''Docs''),
      R_UploadFile (lit ''docs'') (lit ''/a/b'') False None sample_body,
      R_UploadFile (lit ''docs'') (lit ''a/b'') False None sample_body,
      R_DownloadFile (lit ''docs'') (lit ''a/b''),
      R_DeleteFolder (lit ''docs'') (lit ''a'') False,
      R_GetSite (lit ''docs''),
      R_ListSites,
      R_ListFiles (lit ''docs'') [],
      R_ListFiles (lit ''docs'') (lit ''a/''),
      R_DeleteFolder (lit ''docs'') (lit ''a'') True,
      R_DeleteFile (lit ''docs'') (lit ''a/b'')]"

definition sample_answers :: "outline list" where
  "sample_answers =
     [O_Site 201 (lit ''docs'') (lit ''Docs'') (lit ''http://h/docs/'') 0 0,
      O_Uploaded 201 \<lparr>ur_path = lit ''a/b'', ur_bytes = 3, ur_sha256 = [7, 8, 9], ur_replaced = False\<rparr>,
      O_Error (ApiError 409 FILE_EXISTS),
      O_Content [7, 8, 9] (lit ''application/octet-stream'') (lit ''attachment; filename='' @ [34, 98, 34] @ lit ''; filename*=UTF-8'' @ [39, 39, 98]),
      O_Error (ApiError 409 FOLDER_NOT_EMPTY),
      O_Site 200 (lit ''docs'') (lit ''Docs'') (lit ''http://h/docs/'') 1 3,
      O_Sites [(lit ''docs'', lit ''Docs'', lit ''http://h/docs/'', 1, 3)],
      O_Entries (lit ''docs'') [] [(lit ''a'', FOLDER, 3, None)],
      O_Entries (lit ''docs'') (lit ''a'') [(lit ''b'', FILE, 3, Some [7, 8, 9])],
      O_Done,
      O_Error not_found]"

abbreviation sample_trace :: "(moment \<times> request) list" where
  "sample_trace \<equiv> map (Pair sample_moment) sample_requests"

lemma fresh_ok: "volume_ok sample_storage fresh_state" "fake_ok fresh_fake" "backend_view fresh_state = fake_view fresh_fake"
  by (auto simp: volume_ok_def fresh_state_def db_ok_def what_at_Cons fake_ok_def fresh_fake_def fun_eq_iff
      backend_view_def fake_view_def site_by_slug_def file_row_at_def row_with_def index_row_def)

lemma sample_rules: "fake_rules sample_config = rules_of sample_backend" "bk_storage sample_backend = sample_storage"
  by (simp_all add: fake_rules_def rules_of_def sample_config_def sample_backend_def sample_storage_def)

lemma sample_trace_quiet: "\<forall>(mo, rq)\<in>set sample_trace. site_request rq \<and> undisturbed mo rq"
  by (simp add: sample_requests_def sample_moment_def sample_env_def calm_def sample_body_def declared_length_def)

lemma sample_run_answers: "fst (run_all (\<lambda>mo. run_route sample_backend mo sample_actor) sample_trace fresh_state) = sample_answers"
  by code_simp

theorem backend_refines_contract_witness:
  "fst (spec_run (rules_of sample_backend) sample_requests (backend_view fresh_state)) = sample_answers
   \<and> volume_ok sample_storage (snd (run_all (\<lambda>mo. run_route sample_backend mo sample_actor) sample_trace fresh_state))"
  using backend_refines_contract [of sample_backend fresh_state sample_trace sample_actor] fresh_ok(1) sample_trace_quiet
    sample_run_answers
  by (simp add: sample_rules(2) comp_def)

theorem fake_equals_backend_witness:
  "fst (run_all (\<lambda>mo. fake_route sample_config mo sample_caller_token) sample_trace fresh_fake) = sample_answers"
  using fake_equals_backend [OF sample_rules(1) _ fresh_ok(2,3) refl sample_trace_quiet sample_trace_quiet, of sample_actor sample_caller_token]
    fresh_ok(1) sample_run_answers
  by (simp add: sample_rules(2))

text \<open>Two sites, as two requests leave them.\<close>

definition two_sites :: state where
  "two_sites = \<lparr>st_db = \<lparr>db_users = [sample_user], db_tokens = [],
       db_sites = [\<lparr>s_slug = lit ''docs'', s_name = lit ''Docs'', s_created_at = 51\<rparr>,
                   \<lparr>s_slug = lit ''blog'', s_name = lit ''Blog'', s_created_at = 51\<rparr>], db_files = []\<rparr>,
     st_sites = Folder [(lit ''docs'', Folder [] 5), (lit ''blog'', Folder [] 5)] 5, st_staging = Folder [] 0\<rparr>"

lemma two_sites_made:
  "two_sites = snd (run_all (\<lambda>mo. run_route sample_backend mo sample_actor)
     [(sample_moment, R_CreateSite (lit ''Docs'')), (sample_moment, R_CreateSite (lit ''Blog''))] fresh_state)"
  by code_simp

lemma two_sites_ok: "volume_ok (bk_storage sample_backend) two_sites"
proof -
  let ?rqs = "[(sample_moment, R_CreateSite (lit ''Docs'')), (sample_moment, R_CreateSite (lit ''Blog''))]"
  have quiet: "\<forall>(mo, rq)\<in>set ?rqs. site_request rq \<and> undisturbed mo rq"
    by (simp add: sample_moment_def sample_env_def calm_def)
  have "volume_ok (bk_storage sample_backend) fresh_state" using fresh_ok(1) by (simp only: sample_rules(2))
  from real.run_all_spec [OF this quiet, of sample_actor] show ?thesis unfolding two_sites_made by blast
qed

abbreviation sample_put :: request where
  "sample_put \<equiv> R_UploadFile (lit ''docs'') (lit ''a/b'') False None sample_body"

lemma sample_put_quiet: "undisturbed sample_moment sample_put" "calm (mo_env sample_moment)"
  by (simp_all add: sample_moment_def sample_env_def calm_def sample_body_def declared_length_def)

lemma sample_put_answer:
  "run_route sample_backend sample_moment sample_actor sample_put two_sites =
     (Inr (Uploaded 201 \<lparr>ur_path = lit ''a/b'', ur_bytes = 3, ur_sha256 = [7, 8, 9], ur_replaced = False\<rparr>),
      snd (run_route sample_backend sample_moment sample_actor sample_put two_sites))"
proof -
  have "fst (run_route sample_backend sample_moment sample_actor sample_put two_sites) =
      Inr (Uploaded 201 \<lparr>ur_path = lit ''a/b'', ur_bytes = 3, ur_sha256 = [7, 8, 9], ur_replaced = False\<rparr>)"
    by code_simp
  then show ?thesis by (metis prod.collapse)
qed

theorem upload_download_witness:
  "\<exists>a s t d. run_route sample_backend sample_moment sample_actor (R_DownloadFile (lit ''docs'') (lit ''a/b''))
       (snd (run_route sample_backend sample_moment sample_actor sample_put two_sites)) = (a, s)
     \<and> outlined a = O_Content [7, 8, 9] t d"
proof -
  let ?down = "run_route sample_backend sample_moment sample_actor (R_DownloadFile (lit ''docs'') (lit ''a/b''))
       (snd (run_route sample_backend sample_moment sample_actor sample_put two_sites))"
  note f = upload_download [OF two_sites_ok sample_put_quiet sample_put_answer prod.collapse [symmetric]]
  then have "\<exists>t d. outlined (fst ?down) = O_Content [7, 8, 9] t d" by (simp add: sample_body_def)
  then show ?thesis by (metis prod.collapse)
qed

theorem request_leaves_other_sites_witness:
  "backend_view (snd (run_route sample_backend sample_moment sample_actor sample_put two_sites)) (lit ''blog'') =
     Some \<lparr>sv_name = lit ''Blog'', sv_items = no_items\<rparr>"
proof -
  from request_leaves_other_sites [OF two_sites_ok sample_put_quiet(1) sample_put_answer, where slug = "lit ''docs''" and slug' = "lit ''blog''"]
  have "backend_view (snd (run_route sample_backend sample_moment sample_actor sample_put two_sites)) (lit ''blog'') =
      backend_view two_sites (lit ''blog'')" by auto
  moreover have "backend_view two_sites (lit ''blog'') = Some \<lparr>sv_name = lit ''Blog'', sv_items = no_items\<rparr>"
    by (auto simp: backend_view_def two_sites_def site_by_slug_def row_with_def no_items_def fun_eq_iff neq_Nil_conv what_at_Cons)
  ultimately show ?thesis by (rule trans)
qed

theorem listing_is_true_witness:
  "let up = run_route sample_backend sample_moment sample_actor sample_put two_sites;
       ls = run_route sample_backend sample_moment sample_actor (R_ListFiles (lit ''docs'') (lit ''a'')) (snd up) in
     outlined (fst ls) = O_Entries (lit ''docs'') (lit ''a'') [(lit ''b'', FILE, 3, Some [7, 8, 9])]
     \<and> (\<exists>c t d. outlined (fst (run_route sample_backend sample_moment sample_actor (R_DownloadFile (lit ''docs'') (lit ''a/b'')) (snd ls))) =
          O_Content c t d \<and> length c = 3)"
proof -
  let ?up = "run_route sample_backend sample_moment sample_actor sample_put two_sites"
  let ?ls = "run_route sample_backend sample_moment sample_actor (R_ListFiles (lit ''docs'') (lit ''a'')) (snd ?up)"
  let ?e = "\<lparr>fe_name = lit ''b'', fe_type = FILE, fe_bytes = 3, fe_modified_at = sg_mtime sample_storage 5, fe_sha256 = Some [7, 8, 9]\<rparr>"
  let ?l = "\<lparr>fl_site = lit ''docs'', fl_path = lit ''a'', fl_entries = [?e]\<rparr>"
  have ok: "volume_ok (bk_storage sample_backend) (snd ?up)"
    using real_store_step [OF two_sites_ok _ sample_put_quiet(1) sample_put_answer] by simp
  have shown: "fst ?ls = Inr (Listing ?l)" by code_simp
  then have ls: "?ls = (Inr (Listing ?l), snd ?ls)" by (metis prod.collapse)
  have e: "?e \<in> set (fl_entries ?l)" by simp
  have there: "join_name (lit ''a'') (lit ''b'') = lit ''a/b''" by code_simp
  have "outlined (fst ?ls) = O_Entries (lit ''docs'') (lit ''a'') [(lit ''b'', FILE, 3, Some [7, 8, 9])]"
    by (simp only: shown) (simp add: entry_line_def)
  moreover have "\<exists>c t d. outlined (fst (run_route sample_backend sample_moment sample_actor
        (R_DownloadFile (lit ''docs'') (lit ''a/b'')) (snd ?ls))) = O_Content c t d \<and> length c = 3"
    using listing_is_true [OF ok sample_put_quiet(2) sample_put_quiet(2) ls e, unfolded file_listing.simps file_entry.simps there]
    by (metis prod.collapse)
  ultimately show ?thesis unfolding Let_def by (rule conjI)
qed

end
