(* ===== verification/Frontend.thy ===== *)
theory Frontend
  imports Client
begin

text \<open>
  The frontend's own paths and who is signed in: \<open>src/paper_boxing/frontend/paths.py\<close>,
  \<open>src/paper_boxing/frontend/auth.py\<close> and the session handling of \<open>src/paper_boxing/frontend/layout.py\<close>
  and \<open>src/paper_boxing/frontend/pages/login.py\<close>.  The browser's store is its three entries; what a
  handler shows is a list of events, without the words.  \<open>urllib.parse.urlsplit\<close>'s checks of a host it has
  found are the argument \<open>host_ok\<close>.
\<close>

section \<open>Paths\<close>

definition LOGIN_PATH :: ustring where "LOGIN_PATH = lit ''/login''"
definition DOWNLOAD_PREFIX :: ustring where "DOWNLOAD_PREFIX = lit ''/download''"
definition PUBLIC_PATHS :: "ustring list" where
  "PUBLIC_PATHS = [LOGIN_PATH, lit ''/health'', lit ''/admin/version'', lit ''/favicon.ico'']"
definition PUBLIC_PREFIXES :: "ustring list" where
  "PUBLIC_PREFIXES = [lit ''/_nicegui'', lit ''/socket.io'']"
definition FETCH_PREFIXES :: "ustring list" where "FETCH_PREFIXES = [DOWNLOAD_PREFIX]"

definition is_public :: "ustring \<Rightarrow> bool" where
  "is_public path \<longleftrightarrow> path \<in> set PUBLIC_PATHS \<or> list_ex (\<lambda>p. prefix p path) PUBLIC_PREFIXES"

definition is_fetch :: "ustring \<Rightarrow> bool" where
  "is_fetch path \<longleftrightarrow> list_ex (\<lambda>p. prefix p path) FETCH_PREFIXES"

definition download_url :: "ustring \<Rightarrow> ustring \<Rightarrow> ustring option" where
  "download_url slug path =
     (case quote [] slug of None \<Rightarrow> None
      | Some s \<Rightarrow> (case quote [slash] path of None \<Rightarrow> None
        | Some p \<Rightarrow> Some (DOWNLOAD_PREFIX @ slash # s @ slash # p)))"

section \<open>Return paths\<close>

definition login_url :: "ustring option \<Rightarrow> ustring option" where
  "login_url next_path =
     (case next_path of None \<Rightarrow> Some LOGIN_PATH
      | Some n \<Rightarrow>
          if n = [] \<or> n = [slash] then Some LOGIN_PATH
          else map_option (\<lambda>q. LOGIN_PATH @ lit ''?next='' @ q) (quote [] n))"

text \<open>
  \<open>urlsplit\<close> of a text that starts with a slash: there is no scheme, tabs and line breaks are removed,
  and what follows two slashes up to the next delimiter is the host; \<open>None\<close> where it raises.
\<close>

definition removed_char :: "nat \<Rightarrow> bool" where
  "removed_char c \<longleftrightarrow> c = 9 \<or> c = 10 \<or> c = 13"

definition split_host :: "(ustring \<Rightarrow> bool) \<Rightarrow> ustring \<Rightarrow> ustring option" where
  "split_host host_ok candidate =
     (let url = filter (\<lambda>c. \<not> removed_char c) candidate in
      if take 2 url \<noteq> [slash, slash] then Some []
      else let host = takeWhile (\<lambda>c. c \<noteq> slash \<and> c \<noteq> 63 \<and> c \<noteq> 35) (drop 2 url) in
        if host \<noteq> [] \<and> \<not> host_ok host then None else Some host)"

definition safe_next :: "(ustring \<Rightarrow> bool) \<Rightarrow> ustring option \<Rightarrow> ustring option" where
  "safe_next host_ok candidate =
     (case candidate of None \<Rightarrow> Some [slash]
      | Some c \<Rightarrow>
          if c = [] \<or> hd c \<noteq> slash then Some [slash]
          else if 1 < length c \<and> (c ! 1 = slash \<or> c ! 1 = 92) then Some [slash]
          else (case split_host host_ok c of None \<Rightarrow> None
            | Some host \<Rightarrow> if host \<noteq> [] then Some [slash] else Some c))"

text \<open>
  What a browser does with a reference that starts with a slash: it drops tabs and line breaks, and two
  characters that are slashes or backslashes announce a host.
\<close>

definition names_host :: "ustring \<Rightarrow> bool" where
  "names_host r =
     (case filter (\<lambda>c. \<not> removed_char c) r of
        a # b # _ \<Rightarrow> (a = slash \<or> a = 92) \<and> (b = slash \<or> b = 92)
      | _ \<Rightarrow> False)"

text \<open>With a tab between the slash and the backslash the check passes a path that names a host.\<close>

lemma safe_next_tab:
  "safe_next host_ok (Some (slash # 9 # 92 # rest)) = Some (slash # 9 # 92 # rest)"
  "names_host (slash # 9 # 92 # rest)"
  by (simp_all add: safe_next_def split_host_def names_host_def removed_char_def)

text \<open>
  C33. The sign-in returns only to this site: for every \<open>next\<close> without tabs and line breaks the
  return path starts with a slash and is none a browser takes for a host, whatever \<open>urlsplit\<close> thinks of
  hosts; it is the \<open>next\<close> that was given, or the start page.  The condition is needed: with a tab
  between a slash and a backslash every text is let through, and names a host to a browser.
\<close>

theorem safe_next_stays_here:
  assumes "safe_next host_ok (Some c) = Some r" "\<forall>x\<in>set c. \<not> removed_char x"
  shows "prefix [slash] r \<and> \<not> names_host r \<and> (r = c \<or> r = [slash])
    \<and> (\<forall>rest. let tabbed = slash # 9 # 92 # rest in
         safe_next host_ok (Some tabbed) = Some tabbed \<and> names_host tabbed)"
proof -
  have f: "filter (\<lambda>c. \<not> removed_char c) c = c" using assms(2) by simp
  have s: "filter (\<lambda>c. \<not> removed_char c) [slash] = [slash]" by (simp add: removed_char_def)
  consider "r = [slash]" | "r = c" "c \<noteq> []" "hd c = slash" "\<not> (1 < length c \<and> (c ! 1 = slash \<or> c ! 1 = 92))"
    using assms(1) by (auto simp: safe_next_def split: if_splits option.splits)
  then show ?thesis
  proof cases
    case 1
    then show ?thesis using safe_next_tab by (simp add: names_host_def s)
  next
    case 2
    then obtain rest where rest: "c = slash # rest" by (cases c) auto
    then have "\<not> names_host c" using 2 f by (cases rest) (auto simp: names_host_def)
    then show ?thesis using 2 rest safe_next_tab by simp
  qed
qed

theorem safe_next_stays_here_witness:
  "\<not> names_host (lit ''/sites/x?path=docs'') \<and> safe_next (\<lambda>_. True) (Some (lit ''//evil.test/'')) = Some [slash]"
proof -
  have "safe_next (\<lambda>_. True) (Some (lit ''/sites/x?path=docs'')) = Some (lit ''/sites/x?path=docs'')" by code_simp
  from safe_next_stays_here [OF this] have "\<not> names_host (lit ''/sites/x?path=docs'')"
    by (simp add: removed_char_def del: safe_next_tab)
  moreover have "safe_next (\<lambda>_. True) (Some (lit ''//evil.test/'')) = Some [slash]" by code_simp
  ultimately show ?thesis by blast
qed

section \<open>The signed-in person\<close>

record browser =
  br_token :: "ustring option"
  br_username :: "ustring option"
  br_user_id :: "ustring option"

definition browser_token :: "browser \<Rightarrow> ustring option" where
  "browser_token br = (case br_token br of None \<Rightarrow> None | Some t \<Rightarrow> if t = [] then None else Some t)"

definition browser_user_id :: "browser \<Rightarrow> ustring" where
  "browser_user_id br = (case br_user_id br of None \<Rightarrow> [] | Some i \<Rightarrow> i)"

definition sign_in :: "ustring \<Rightarrow> ustring \<Rightarrow> ustring \<Rightarrow> browser \<Rightarrow> browser" where
  "sign_in session user_name uid br =
     br\<lparr>br_token := Some session, br_username := Some user_name, br_user_id := Some uid\<rparr>"

definition sign_out :: "browser \<Rightarrow> browser" where
  "sign_out br = br\<lparr>br_token := None, br_username := None, br_user_id := None\<rparr>"

section \<open>The middleware\<close>

datatype page_answer = Served | Refused nat error_code | Redirected ustring | Failed_Page

definition wanted_path :: "ustring \<Rightarrow> ustring \<Rightarrow> ustring" where
  "wanted_path path query = (if query = [] then path else path @ 63 # query)"

definition auth_dispatch :: "browser \<Rightarrow> ustring \<Rightarrow> ustring \<Rightarrow> page_answer" where
  "auth_dispatch br path query =
     (if is_public path \<or> browser_token br \<noteq> None then Served
      else if is_fetch path then Refused 401 UNAUTHORIZED
      else (case login_url (Some (wanted_path path query)) of None \<Rightarrow> Failed_Page | Some url \<Rightarrow> Redirected url))"

section \<open>Events\<close>

text \<open>
  What a handler does to the page: a warning of its own, an error as \<open>report_error\<close> shows it, a success,
  a navigation, or an exception that leaves the handler.
\<close>

datatype event =
    Warned
  | Problem client_error
  | Succeeded response
  | Navigated ustring
  | Raised client_error

definition error_status :: "client_error \<Rightarrow> nat option" where
  "error_status e = (case e of BackendError status _ \<Rightarrow> Some status | BackendUnreachable \<Rightarrow> Some 503 | _ \<Rightarrow> None)"

definition is_backend_error :: "client_error \<Rightarrow> bool" where
  "is_backend_error e \<longleftrightarrow> error_status e \<noteq> None"

definition report_error :: "ustring \<Rightarrow> client_error \<Rightarrow> browser \<Rightarrow> event list \<times> browser" where
  "report_error wanted e br =
     (if error_status e = Some 401 then
        (Warned # (case login_url (Some wanted) of None \<Rightarrow> [Raised Unexpected] | Some url \<Rightarrow> [Navigated url]), sign_out br)
      else ([Problem e], br))"

text \<open>\<open>layout.sign_out\<close>: forget the session here, end it at the backend when it can be, go to the sign-in page.\<close>

definition frontend_sign_out :: "'s exchange \<Rightarrow> browser \<Rightarrow> 's \<Rightarrow> event list \<times> browser \<times> 's" where
  "frontend_sign_out exchange br s =
     (case browser_token br of None \<Rightarrow> ([Navigated LOGIN_PATH], sign_out br, s)
      | Some token \<Rightarrow>
          (case client_call exchange None (Some token) R_Logout s of
             (Inl e, s') \<Rightarrow> (if is_backend_error e then [Navigated LOGIN_PATH] else [Raised e], sign_out br, s')
           | (Inr _, s') \<Rightarrow> ([Navigated LOGIN_PATH], sign_out br, s')))"

text \<open>The sign-in page: where it leads when someone is signed in already, and its submit.\<close>

definition login_target :: "(ustring \<Rightarrow> bool) \<Rightarrow> browser \<Rightarrow> ustring \<Rightarrow> page_answer" where
  "login_target host_ok br next_path =
     (case safe_next host_ok (Some next_path) of None \<Rightarrow> Failed_Page
      | Some target \<Rightarrow> if browser_token br \<noteq> None then Redirected target else Served)"

definition login_submit ::
  "'s exchange \<Rightarrow> ustring \<Rightarrow> ustring \<Rightarrow> ustring \<Rightarrow> browser \<Rightarrow> 's \<Rightarrow> event list \<times> browser \<times> 's" where
  "login_submit exchange target username password br s =
     (let name = strip is_space username in
      if name = [] \<or> password = [] then ([Warned], br, s)
      else case client_call exchange None None (R_Login name password) s of
        (Inl e, s') \<Rightarrow> ([if is_backend_error e then Problem e else Raised e], br, s')
      | (Inr (LoginResponse token expires_at user), s') \<Rightarrow>
          ([Navigated target], sign_in token (uo_username user) (uo_id user) br, s')
      | (Inr _, s') \<Rightarrow> ([Raised Invalid], br, s'))"

end
