(* ===== verification/Frontend_Sessions.thy ===== *)
theory Frontend_Sessions
  imports Frontend
begin

text \<open>
  The frontend's sign-in and sign-out (\<open>Frontend\<close>) with the backend at the other end: what the store
  of the browser holds is a session at the backend, and signing out ends it there too.
\<close>

text \<open>A live token of the right kind gets through the dependency of a route.\<close>

lemma requires_live:
  assumes "accounts_ok db" "parse_bearer h = Some secret" "stored_token (bk_accounts bk) db secret = Some t"
    and "live_token now t" "access_allows acc (Some (t_type t)) (Some (t_scope t))"
  obtains actor db' where "requires bk now h acc db = (Inr actor, db')" "t_id (a_token actor) = t_id t"
    "t_type (a_token actor) = t_type t" "t_scope (a_token actor) = t_scope t" "t_user_id (a_token actor) = t_user_id t"
proof -
  let ?e = "if t_type t = SESSION then Some (now + ac_session_length (bk_accounts bk)) else None"
  obtain u where "resolve_bearer (bk_accounts bk) now h db =
      (Inr (Some \<lparr>a_token = t\<lparr>t_last_used_at := Some now, t_expires_at := ?e\<rparr>, a_user = u\<rparr>), touch_token db (t_id t) now ?e)"
    using resolve_bearer_live [OF assms(1-4)] unfolding Let_def by blast
  with assms(5) that show ?thesis by (simp add: requires_def)
qed

lemma stored_token_caller:
  assumes "parse_bearer h = Some secret" "stored_token ac db secret = Some t" "live_token now t"
  shows "caller ac now h db = Some (grant_of t)"
  using assms by (auto simp: caller_def stored_token_def grants_def split: sum.splits)

text \<open>What the sign-in leaves behind.\<close>

lemma login_submit_ok:
  assumes "login_submit (rest_exchange bk mo) target un pw br st = ([Navigated t], br1, st1)"
  obtains user session secret db' where
    "login (bk_accounts bk) (mo_now mo) (mo_draws mo) (strip is_space un) pw (st_db st) = (Inr (Some (user, session, secret)), db')"
    "st1 = st\<lparr>st_db := db'\<rparr>" "br1 = sign_in secret (u_username user) (u_id user) br"
proof -
  let ?rq = "R_Login (strip is_space un) pw"
  obtain tok e u where c: "client_call (rest_exchange bk mo) None None ?rq st = (Inr (LoginResponse tok e u), st1)"
    "br1 = sign_in tok (uo_username u) (uo_id u) br"
    using assms by (auto simp: login_submit_def Let_def split: if_splits prod.splits sum.splits response.splits)
  obtain r st2 where h: "handle bk mo None ?rq st = (r, st2)" by (metis prod.collapse)
  have v: "valid_request ?rq" "hc_path (client_http ?rq) \<noteq> None"
    using c by (auto simp: client_call_def split: if_splits)
  have "handle bk mo (map_option bearer_header None) ?rq st = (r, st2)" using h by simp
  from client_call_backend [OF v this, of None] c have r: "st2 = st1" "r = Inr (LoginResponse tok e u)"
    by (auto split: sum.splits if_splits)
  then have "login_route bk mo (strip is_space un) pw st = (Inr (LoginResponse tok e u), st1)"
    using h v by (simp add: handle_def)
  then show ?thesis
    using c(2) that
    by (auto simp: login_route_def public_user_def split: prod.splits sum.splits option.splits)
qed

lemma logout_ends:
  assumes "accounts_ok (st_db st)" "parse_bearer (Some (bearer_header secret)) = Some secret"
    and "stored_token (bk_accounts bk) (st_db st) secret = Some t" "live_token (mo_auth_now mo) t" "t_type t = SESSION"
  obtains st1 where "client_call (rest_exchange bk mo) None (Some secret) R_Logout st = (Inr NoContent, st1)"
    "\<And>now. caller (bk_accounts bk) now (Some (bearer_header secret)) (st_db st1) = None"
proof -
  let ?h = "Some (bearer_header secret)"
  have acc: "access_allows (access_of R_Logout) (Some (t_type t)) (Some (t_scope t))"
    using assms(5) by (simp add: access_allows_token)
  obtain actor db' where a: "requires bk (mo_auth_now mo) ?h (access_of R_Logout) (st_db st) = (Inr actor, db')"
      "t_id (a_token actor) = t_id t"
    using requires_live [OF assms(1-4) acc] by metis
  define st1 where "st1 = st\<lparr>st_db := logout (mo_now mo) (a_token actor) db'\<rparr>"
  have "handle bk mo ?h R_Logout st = (Inr NoContent, st1)"
    unfolding handle_def using a(1) by (simp add: logout_route_def st1_def)
  then have h: "handle bk mo (map_option bearer_header (Some secret)) R_Logout st = (Inr NoContent, st1)" by simp
  have p: "valid_request R_Logout" "hc_path (client_http R_Logout) \<noteq> None" by (simp_all add: url_simps)
  obtain d where d: "secret_digest (bk_accounts bk) secret = Inr d" "token_by_secret (st_db st) d = Some t"
    using assms(3) by (auto simp: stored_token_def split: sum.splits)
  from resolve_found [OF assms(1) requires_ok(1) [OF a(1)]] assms(2) d(1)
  have "token_by_secret db' d = Some (a_token actor)" by auto
  then have "grants now (st_db st1) d = None" for now by (simp add: st1_def logout_def grants_revoke)
  then have "caller (bk_accounts bk) now ?h (st_db st1) = None" for now
    using assms(2) d(1) by (simp add: caller_def)
  then show ?thesis using that client_call_backend [OF p h, of None] by simp
qed


end
