(* ===== verification/Frontend_Pages.thy ===== *)
theory Frontend_Pages
  imports Frontend Config
begin

text \<open>
  What the pages of the frontend do at the backend: the handlers of
  \<open>src/paper_boxing/frontend/pages/\<close> (\<open>site.py\<close>, \<open>sites.py\<close>, \<open>tokens.py\<close>, \<open>users.py\<close>, \<open>account.py\<close>) and the
  download route of \<open>src/paper_boxing/frontend/app.py\<close>.  A handler gets what the person typed or chose, the
  session token the page was built with and the path the browser shows, and yields the events, the
  browser's store and the other end's state.  Layout, wording and the refreshing of lists are not modelled.
\<close>

section \<open>One request of a handler\<close>

text \<open>\<open>try: ... except BackendError as e: layout.report_error(e)\<close>.\<close>

record page_context =
  pc_token :: ustring
  pc_wanted :: ustring

definition reported :: "page_context \<Rightarrow> client_error \<Rightarrow> browser \<Rightarrow> event list \<times> browser" where
  "reported pc e br = (if is_backend_error e then report_error (pc_wanted pc) e br else ([Raised e], br))"

definition page_request :: "'s exchange \<Rightarrow> page_context \<Rightarrow> request \<Rightarrow> browser \<Rightarrow> 's \<Rightarrow> event list \<times> browser \<times> 's" where
  "page_request exchange pc rq br s =
     (case client_call exchange None (Some (pc_token pc)) rq s of
        (Inl e, s') \<Rightarrow> (case reported pc e br of (events, br') \<Rightarrow> (events, br', s'))
      | (Inr r, s') \<Rightarrow> ([Succeeded r], br, s'))"

section \<open>Forms\<close>

definition create_site_form :: "'s exchange \<Rightarrow> page_context \<Rightarrow> ustring \<Rightarrow> browser \<Rightarrow> 's \<Rightarrow> event list \<times> browser \<times> 's" where
  "create_site_form exchange pc name br s =
     (if strip is_space name = [] then ([Warned], br, s)
      else page_request exchange pc (R_CreateSite (strip is_space name)) br s)"

text \<open>A dialog that was cancelled gives \<open>None\<close>.\<close>

definition delete_site_form ::
  "'s exchange \<Rightarrow> page_context \<Rightarrow> ustring \<Rightarrow> ustring option \<Rightarrow> browser \<Rightarrow> 's \<Rightarrow> event list \<times> browser \<times> 's" where
  "delete_site_form exchange pc slug typed br s =
     (case typed of None \<Rightarrow> ([], br, s)
      | Some confirm \<Rightarrow> page_request exchange pc (R_DeleteSite slug (Some (strip is_space confirm))) br s)"

definition create_token_form ::
  "'s exchange \<Rightarrow> page_context \<Rightarrow> ustring \<Rightarrow> scope \<Rightarrow> browser \<Rightarrow> 's \<Rightarrow> event list \<times> browser \<times> 's" where
  "create_token_form exchange pc name scope br s =
     (if strip is_space name = [] then ([Warned], br, s)
      else page_request exchange pc (R_CreateToken (strip is_space name) scope) br s)"

definition revoke_token_form ::
  "'s exchange \<Rightarrow> page_context \<Rightarrow> ustring \<Rightarrow> bool \<Rightarrow> browser \<Rightarrow> 's \<Rightarrow> event list \<times> browser \<times> 's" where
  "revoke_token_form exchange pc token_id confirmed br s =
     (if \<not> confirmed then ([], br, s) else page_request exchange pc (R_RevokeToken token_id) br s)"

definition add_user_form ::
  "'s exchange \<Rightarrow> page_context \<Rightarrow> ustring \<Rightarrow> ustring \<Rightarrow> browser \<Rightarrow> 's \<Rightarrow> event list \<times> browser \<times> 's" where
  "add_user_form exchange pc username password br s =
     (if strip is_space username = [] \<or> password = [] then ([Warned], br, s)
      else page_request exchange pc (R_CreateUser (strip is_space username) password) br s)"

definition remove_user_form ::
  "'s exchange \<Rightarrow> page_context \<Rightarrow> ustring \<Rightarrow> bool \<Rightarrow> browser \<Rightarrow> 's \<Rightarrow> event list \<times> browser \<times> 's" where
  "remove_user_form exchange pc user_id confirmed br s =
     (if \<not> confirmed then ([], br, s)
      else case page_request exchange pc (R_DeleteUser user_id) br s of
        ([Succeeded r], br', s') \<Rightarrow>
          (if user_id = browser_user_id br then ([Navigated LOGIN_PATH], sign_out br', s') else ([Succeeded r], br', s'))
      | other \<Rightarrow> other)"

definition MIN_PASSWORD_LENGTH :: nat where "MIN_PASSWORD_LENGTH = 8"

definition change_password_form ::
  "'s exchange \<Rightarrow> page_context \<Rightarrow> ustring \<Rightarrow> ustring \<Rightarrow> ustring \<Rightarrow> browser \<Rightarrow> 's \<Rightarrow> event list \<times> browser \<times> 's" where
  "change_password_form exchange pc old fresh repeat br s =
     (if old = [] then ([Warned], br, s)
      else if length fresh < MIN_PASSWORD_LENGTH then ([Warned], br, s)
      else if fresh \<noteq> repeat then ([Warned], br, s)
      else page_request exchange pc (R_ChangePassword old fresh) br s)"

section \<open>Files\<close>

definition full_path :: "ustring \<Rightarrow> ustring \<Rightarrow> ustring" where
  "full_path folder name = (if folder = [] then name else folder @ slash # name)"

definition delete_file_form ::
  "'s exchange \<Rightarrow> page_context \<Rightarrow> ustring \<Rightarrow> ustring \<Rightarrow> bool \<Rightarrow> browser \<Rightarrow> 's \<Rightarrow> event list \<times> browser \<times> 's" where
  "delete_file_form exchange pc slug full confirmed br s =
     (if \<not> confirmed then ([], br, s) else page_request exchange pc (R_DeleteFile slug full) br s)"

text \<open>
  The dialog of a folder stays open while the folder is not empty and recursive is not chosen; the answers
  of the person are the list \<open>choices\<close>, a cancel \<open>None\<close>.  Another code than \<open>folder_not_empty\<close> ends it.
\<close>

fun delete_folder_form ::
  "'s exchange \<Rightarrow> page_context \<Rightarrow> ustring \<Rightarrow> ustring \<Rightarrow> bool option list \<Rightarrow> browser \<Rightarrow> 's \<Rightarrow> event list \<times> browser \<times> 's" where
  "delete_folder_form exchange pc slug full [] br s = ([], br, s)"
| "delete_folder_form exchange pc slug full (None # choices) br s = ([], br, s)"
| "delete_folder_form exchange pc slug full (Some recursive # choices) br s =
     (case client_call exchange None (Some (pc_token pc)) (R_DeleteFolder slug full recursive) s of
        (Inl (BackendError status FOLDER_NOT_EMPTY), s') \<Rightarrow>
          (case delete_folder_form exchange pc slug full choices br s' of
             (events, rest) \<Rightarrow> (Problem (BackendError status FOLDER_NOT_EMPTY) # events, rest))
      | (Inl e, s') \<Rightarrow> (case reported pc e br of (events, br') \<Rightarrow> (events, br', s'))
      | (Inr r, s') \<Rightarrow> ([Succeeded r], br, s'))"

text \<open>A file the person picked: its name, its bytes as they are read, and the size the browser declared.\<close>

record picked =
  pk_name :: ustring
  pk_chunks :: "octets list"
  pk_size :: nat

definition upload_request :: "ustring \<Rightarrow> ustring \<Rightarrow> bool \<Rightarrow> picked \<Rightarrow> request" where
  "upload_request slug target overwrite f =
     R_UploadFile slug target overwrite (Some (nat_text (pk_size f))) \<lparr>ub_chunks = pk_chunks f, ub_broken = False\<rparr>"

text \<open>One result per file; the line shown for it says what became of it.\<close>

datatype upload_fate = Stored upload_result | Failed client_error | NotSent

record upload_note =
  un_path :: ustring
  un_note :: upload_fate

fun on_uploads ::
  "'s exchange \<Rightarrow> page_context \<Rightarrow> ustring \<Rightarrow> ustring \<Rightarrow> bool \<Rightarrow> picked list \<Rightarrow> browser \<Rightarrow> 's
     \<Rightarrow> upload_note list \<times> event list \<times> browser \<times> 's" where
  "on_uploads exchange pc slug folder overwrite [] br s = ([], [], br, s)"
| "on_uploads exchange pc slug folder overwrite (f # files) br s =
     (let target = full_path folder (pk_name f) in
      case client_call exchange None (Some (pc_token pc)) (upload_request slug target overwrite f) s of
        (Inl e, s') \<Rightarrow>
          if error_status e = Some 401 then
            (map (\<lambda>left. \<lparr>un_path = full_path folder (pk_name left), un_note = NotSent\<rparr>) (f # files),
             (case report_error (pc_wanted pc) e br of (events, br') \<Rightarrow> (events, br', s')))
          else if is_backend_error e then
            (case on_uploads exchange pc slug folder overwrite files br s' of
               (notes, rest) \<Rightarrow> (\<lparr>un_path = target, un_note = Failed e\<rparr> # notes, rest))
          else ([], [Raised e], br, s')
      | (Inr (Uploaded _ r), s') \<Rightarrow>
          (case on_uploads exchange pc slug folder overwrite files br s' of
             (notes, rest) \<Rightarrow> (\<lparr>un_path = ur_path r, un_note = Stored r\<rparr> # notes, rest))
      | (Inr _, s') \<Rightarrow> ([], [Raised Invalid], br, s'))"

definition replace_file_form ::
  "'s exchange \<Rightarrow> page_context \<Rightarrow> ustring \<Rightarrow> ustring \<Rightarrow> picked \<Rightarrow> browser \<Rightarrow> 's \<Rightarrow> event list \<times> browser \<times> 's" where
  "replace_file_form exchange pc slug full f br s =
     (case client_call exchange None (Some (pc_token pc)) (upload_request slug full True f) s of
        (Inl e, s') \<Rightarrow>
          (if error_status e = Some 401 then (case report_error (pc_wanted pc) e br of (events, br') \<Rightarrow> (events, br', s'))
           else if is_backend_error e then ([Problem e], br, s') else ([Raised e], br, s'))
      | (Inr r, s') \<Rightarrow> ([Succeeded r], br, s'))"

section \<open>Downloads\<close>

text \<open>The button asks who the session is before it sends the browser to the download route.\<close>

definition download_button ::
  "'s exchange \<Rightarrow> page_context \<Rightarrow> ustring \<Rightarrow> ustring \<Rightarrow> browser \<Rightarrow> 's \<Rightarrow> event list \<times> browser \<times> 's" where
  "download_button exchange pc slug full br s =
     (case client_call exchange None (Some (pc_token pc)) R_TokenSelf s of
        (Inl e, s') \<Rightarrow> (case reported pc e br of (events, br') \<Rightarrow> (events, br', s'))
      | (Inr _, s') \<Rightarrow> ([case download_url slug full of None \<Rightarrow> Raised Unexpected | Some url \<Rightarrow> Navigated url], br, s'))"

text \<open>
  The route: the backend's answer with the person's session, as an attachment.  The code of a backend
  error is one of the contract's; the response of a lifted stream error is its status and code.
\<close>

datatype download_answer =
    Attachment octets ustring ustring
  | DownloadError nat error_code
  | DownloadRaised client_error

definition download_route_answer :: "'s exchange \<Rightarrow> browser \<Rightarrow> ustring \<Rightarrow> ustring \<Rightarrow> 's \<Rightarrow> download_answer \<times> 's" where
  "download_route_answer exchange br slug path s =
     (case browser_token br of None \<Rightarrow> (DownloadError 401 UNAUTHORIZED, s)
      | Some token \<Rightarrow>
          (case client_call exchange None (Some token) (R_DownloadFile slug path) s of
             (Inl BackendUnreachable, s') \<Rightarrow> (DownloadError 503 BACKEND_UNREACHABLE, s')
           | (Inl (BackendError status code), s') \<Rightarrow> (DownloadError status code, s')
           | (Inl e, s') \<Rightarrow> (DownloadRaised e, s')
           | (Inr (Content content content_type _), s') \<Rightarrow>
               (case attachment (path_name path) of
                  Inl e \<Rightarrow> DownloadRaised Unexpected
                | Inr disposition \<Rightarrow> Attachment content content_type disposition, s')
           | (Inr _, s') \<Rightarrow> (DownloadRaised Invalid, s')))"

end
