(* ===== verification/Frontend_Uploads.thy ===== *)
theory Frontend_Uploads
  imports Frontend_Pages
begin

text \<open>
  The upload loop of the site page (\<open>on_uploads\<close>) with the backend at the other end: the results it shows
  account for every file, and what they say is what the volume holds.
\<close>

section \<open>One file\<close>

lemma upload_request_access: "access_of (upload_request slug target overwrite f) = NEEDS_READ_WRITE"
  by (simp add: upload_request_def)

text \<open>Without overwriting, no file that is there is changed by an upload, whatever becomes of it.\<close>

lemma upload_route_keeps:
  assumes "upload_file_route bk mo slug raw False header body st = (r, st')" "what_at (st_sites st) q = A_File c m"
  shows "what_at (st_sites st') q = A_File c m"
proof (cases "site_and_path st slug raw False")
  case (Inr sp)
  obtain site path where sp: "sp = (site, path)" by fastforce
  have canon: "canonical_path path" using site_and_path_ok(3) path_not_root Inr sp by blast
  obtain x where "write_file (bk_storage bk) (mo_env mo) site path body False (declared_length header) st = (x, st')"
    using assms(1) Inr sp by (auto simp: upload_file_route_def split: prod.splits sum.splits)
  from write_file_at [OF this canon, of q] assms(2) show ?thesis by auto
qed (use assms in \<open>simp add: upload_file_route_def\<close>)

lemma upload_route_stored:
  assumes "upload_file_route bk mo slug raw overwrite header body st = (Inr (Uploaded status u), st')"
    and "what_at (st_staging st) [] = A_Folder"
  shows "validate_site_path raw False = Inr (ur_path u)
    \<and> ur_bytes u = length (concat (ub_chunks body)) \<and> ur_sha256 u = sg_sha256 (bk_storage bk) (concat (ub_chunks body))
    \<and> what_at (st_sites st') (slug # segments_of (ur_path u)) = A_File (concat (ub_chunks body)) (ev_now (mo_env mo))"
proof -
  obtain site path where sp: "site_and_path st slug raw False = Inr (site, path)"
    "write_file (bk_storage bk) (mo_env mo) site path body overwrite (declared_length header) st = (Inr u, st')"
    using assms(1) by (auto simp: upload_file_route_def split: prod.splits sum.splits)
  have canon: "canonical_path path" using site_and_path_ok(3) [OF sp(1)] by (rule path_not_root)
  from write_file_effect [OF canon assms(2) sp(2)] site_and_path_ok(1,3) [OF sp(1)] show ?thesis
    by (simp add: Let_def)
qed

lemma write_file_staging:
  assumes "write_file sg ev slug path body overwrite declared st = (r, st')" "what_at (st_staging st) [] = A_Folder"
  shows "what_at (st_staging st') [] = A_Folder"
proof -
  obtain r1 st1 where b: "begin_write sg ev slug path body declared st = (r1, st1)" by fastforce
  then have 1: "what_at (st_staging st1) [] = A_Folder"
    using assms(2)
    by (auto simp: begin_write_def stage_def Let_def root_kept simp del: what_at_Nil split: sum.splits if_splits)
  have "what_at (st_staging st2) [] = A_Folder"
    if "land_locked sg ev slug path overwrite sd st1 = (r2, st2)" for sd r2 st2
    using that 1
    by (auto simp: land_locked_def Let_def root_kept simp del: what_at_Nil
        split: sum.splits if_splits option.splits prod.splits node.splits)
  then show ?thesis
    using b 1 assms(1)
    by (auto simp: write_file_def land_def root_kept simp del: what_at_Nil split: sum.splits prod.splits)
qed

lemma upload_route_staging:
  assumes "upload_file_route bk mo slug raw overwrite header body st = (r, st')" "what_at (st_staging st) [] = A_Folder"
  shows "what_at (st_staging st') [] = A_Folder"
  using assms write_file_staging by (auto simp: upload_file_route_def split: sum.splits prod.splits)

section \<open>One request of the loop\<close>

lemma upload_step:
  assumes "client_call (wire bk mos) via (Some token) (upload_request slug target False f) st = (r, st')"
    and "what_at (st_staging st) [] = A_Folder"
  shows "what_at (st_staging st') [] = A_Folder"
    and "what_at (st_sites st) q = A_File c m \<Longrightarrow> what_at (st_sites st') q = A_File c m"
proof -
  let ?rq = "upload_request slug target False f"
  have nl: "\<forall>u p. ?rq \<noteq> R_Login u p" by (simp add: upload_request_def)
  have "what_at (st_staging st') [] = A_Folder
    \<and> (what_at (st_sites st) q = A_File c m \<longrightarrow> what_at (st_sites st') q = A_File c m)"
    using wire_state [OF assms(1)]
  proof (elim disjE exE)
    fix x assume "handle bk (mos ?rq) (Some (bearer_header token)) ?rq st = (x, st')"
    from this nl show ?thesis
    proof (cases rule: handle_cases)
      case (route actor db')
      then show ?thesis
        using upload_route_staging upload_route_keeps assms(2) by (simp add: upload_request_def)
    qed (use assms(2) in simp_all)
  qed (use assms(2) in simp)
  then show "what_at (st_staging st') [] = A_Folder"
    "what_at (st_sites st) q = A_File c m \<Longrightarrow> what_at (st_sites st') q = A_File c m" by blast+
qed

lemma upload_answer:
  assumes "client_call (wire bk mos) via (Some token) (upload_request slug target False f) st = (Inr (Uploaded status u), st')"
    and "what_at (st_staging st) [] = A_Folder"
  shows "validate_site_path target False = Inr (ur_path u)" "ur_bytes u = length (concat (pk_chunks f))"
    "ur_sha256 u = sg_sha256 (bk_storage bk) (concat (pk_chunks f))"
    "\<exists>m. what_at (st_sites st') (slug # segments_of (ur_path u)) = A_File (concat (pk_chunks f)) m"
proof -
  let ?rq = "upload_request slug target False f"
  have nl: "\<forall>u p. ?rq \<noteq> R_Login u p" by (simp add: upload_request_def)
  have v: "valid_request ?rq" "hc_path (client_http ?rq) \<noteq> None"
    using assms(1) by (auto simp: client_call_def split: if_splits)
  obtain x s1 where h: "handle bk (mos ?rq) (map_option bearer_header (Some token)) ?rq st = (x, s1)"
    by (metis prod.collapse)
  have "x = Inr (Uploaded status u)" "s1 = st'"
    using assms(1) client_call_backend [OF v h, of via]
    by (auto simp: wire_client upload_request_def split: sum.splits)
  with h have "handle bk (mos ?rq) (Some (bearer_header token)) ?rq st = (Inr (Uploaded status u), st')" by simp
  from this nl have "validate_site_path target False = Inr (ur_path u) \<and> ur_bytes u = length (concat (pk_chunks f))
    \<and> ur_sha256 u = sg_sha256 (bk_storage bk) (concat (pk_chunks f))
    \<and> (\<exists>m. what_at (st_sites st') (slug # segments_of (ur_path u)) = A_File (concat (pk_chunks f)) m)"
  proof (cases rule: handle_cases)
    case (route actor db')
    then show ?thesis
      using upload_route_stored [of bk "mos ?rq" slug target False _ "\<lparr>ub_chunks = pk_chunks f, ub_broken = False\<rparr>"
          "st\<lparr>st_db := db'\<rparr>" status u st'] assms(2)
      by (auto simp: upload_request_def)
  qed auto
  then show "validate_site_path target False = Inr (ur_path u)" "ur_bytes u = length (concat (pk_chunks f))"
    "ur_sha256 u = sg_sha256 (bk_storage bk) (concat (pk_chunks f))"
    "\<exists>m. what_at (st_sites st') (slug # segments_of (ur_path u)) = A_File (concat (pk_chunks f)) m" by blast+
qed

section \<open>The whole selection\<close>

text \<open>
  What a line of the results says is so: a file that was stored is there under the path the backend made
  of its name, with its bytes; a line about any other names the path it was meant for.
\<close>

definition note_true :: "storage \<Rightarrow> state \<Rightarrow> ustring \<Rightarrow> ustring \<Rightarrow> picked \<Rightarrow> upload_note \<Rightarrow> bool" where
  "note_true sg st slug folder f n =
     (let content = concat (pk_chunks f); target = full_path folder (pk_name f) in
      case un_note n of
        Stored u \<Rightarrow> validate_site_path target False = Inr (un_path n) \<and> ur_path u = un_path n
          \<and> ur_bytes u = length content \<and> ur_sha256 u = sg_sha256 sg content
          \<and> (\<exists>m. what_at (st_sites st) (slug # segments_of (un_path n)) = A_File content m)
      | _ \<Rightarrow> un_path n = target)"

lemma note_true_refused [simp]:
  "note_true sg st slug folder f \<lparr>un_path = full_path folder (pk_name f), un_note = NotSent\<rparr>"
  "note_true sg st slug folder f \<lparr>un_path = full_path folder (pk_name f), un_note = Failed e\<rparr>"
  by (simp_all add: note_true_def)

fun not_sent :: "upload_note \<Rightarrow> bool" where "not_sent n \<longleftrightarrow> un_note n = NotSent"

lemma uploads_keep:
  assumes "on_uploads (wire bk mos) pc slug folder False files br st = (ns, events, br', st')"
    and "what_at (st_staging st) [] = A_Folder" "what_at (st_sites st) q = A_File c m"
  shows "what_at (st_sites st') q = A_File c m"
  using assms
proof (induction files arbitrary: st ns events br' st')
  case (Cons f files)
  obtain r st1 where c: "client_call (wire bk mos) None (Some (pc_token pc))
      (upload_request slug (full_path folder (pk_name f)) False f) st = (r, st1)" by (metis prod.collapse)
  note s = upload_step(1) [OF c Cons.prems(2)] upload_step(2) [OF c Cons.prems(2,3)]
  from Cons.prems(1) c s Cons.IH [OF _ s] show ?case
    by (auto simp: Let_def split: sum.splits if_splits response.splits prod.splits)
qed simp

lemma list_all2_map_same: "(\<And>x. x \<in> set xs \<Longrightarrow> P x (f x)) \<Longrightarrow> list_all2 P xs (map f xs)"
  by (induction xs) simp_all

lemma uploads_true:
  assumes "on_uploads (wire bk mos) pc slug folder False files br st = (ns, events, br', st')"
    and "what_at (st_staging st) [] = A_Folder"
  shows "list_all2 (note_true (bk_storage bk) st' slug folder) (take (length ns) files) ns"
  using assms
proof (induction files arbitrary: st ns events br' st')
  case (Cons f files)
  let ?target = "full_path folder (pk_name f)"
  obtain r st1 where c: "client_call (wire bk mos) None (Some (pc_token pc))
      (upload_request slug ?target False f) st = (r, st1)" by (metis prod.collapse)
  note root = upload_step(1) [OF c Cons.prems(2)]
  obtain ns1 events1 br1 st2 where rest:
    "on_uploads (wire bk mos) pc slug folder False files br st1 = (ns1, events1, br1, st2)" by (metis prod.collapse)
  note ih = Cons.IH [OF rest root]
  show ?case
  proof (cases "\<exists>status u. r = Inr (Uploaded status u)")
    case True
    then obtain status u where r: "r = Inr (Uploaded status u)" by blast
    note a = upload_answer [OF c [unfolded r] Cons.prems(2)]
    then obtain m where "what_at (st_sites st1) (slug # segments_of (ur_path u)) = A_File (concat (pk_chunks f)) m" by blast
    from uploads_keep [OF rest root this] a
    have "note_true (bk_storage bk) st2 slug folder f \<lparr>un_path = ur_path u, un_note = Stored u\<rparr>"
      by (auto simp: note_true_def)
    then show ?thesis using Cons.prems(1) c r rest ih by (auto simp: Let_def)
  next
    case False
    have left: "list_all2 (note_true sg st slug folder) gs
        (map (\<lambda>g. \<lparr>un_path = full_path folder (pk_name g), un_note = NotSent\<rparr>) gs)" for sg st gs
      by (rule list_all2_map_same) simp
    from False Cons.prems(1) c rest ih left show ?thesis
      by (auto simp: Let_def split: sum.splits if_splits response.splits prod.splits)
  qed
qed simp

text \<open>Whatever the other end is: one line per file unless an exception goes past the handler, and once a line says
  that a file was not sent, every later one does and the browser is signed out.\<close>

lemma uploads_shape:
  assumes "on_uploads exchange pc slug folder overwrite files br s = (ns, events, br', s')"
  shows "length ns = length files \<or> (\<exists>e. Raised e \<in> set events \<and> \<not> is_backend_error e)"
    and "list_all not_sent (dropWhile (Not \<circ> not_sent) ns)"
    and "list_ex not_sent ns \<Longrightarrow> browser_token br' = None"
proof -
  have out: "browser_token br1 = None" if "error_status e = Some 401" "report_error w e br = (evs, br1)" for w e evs br1
    using that by (auto simp: report_error_def browser_token_def sign_out_def)
  have all: "list_all (\<lambda>n. un_note n = NotSent) (map (\<lambda>g. \<lparr>un_path = t g, un_note = NotSent\<rparr>) gs)" for t and gs :: "picked list"
    by (simp add: list_all_iff)
  have "(length ns = length files \<or> (\<exists>e. Raised e \<in> set events \<and> \<not> is_backend_error e))
    \<and> list_all not_sent (dropWhile (Not \<circ> not_sent) ns) \<and> (list_ex not_sent ns \<longrightarrow> browser_token br' = None)"
    using assms
  proof (induction files arbitrary: s ns events br' s')
    case (Cons f files)
    obtain r s1 where c: "client_call exchange None (Some (pc_token pc))
        (upload_request slug (full_path folder (pk_name f)) overwrite f) s = (r, s1)" by (metis prod.collapse)
    obtain ns1 events1 br1 s2 where rest:
      "on_uploads exchange pc slug folder overwrite files br s1 = (ns1, events1, br1, s2)" by (metis prod.collapse)
    from Cons.IH [OF rest] Cons.prems c rest show ?case
      by (auto simp: Let_def all out is_backend_error_def error_status_def
          split: sum.splits if_splits response.splits prod.splits)
  qed simp
  then show "length ns = length files \<or> (\<exists>e. Raised e \<in> set events \<and> \<not> is_backend_error e)"
    "list_all not_sent (dropWhile (Not \<circ> not_sent) ns)"
    "list_ex not_sent ns \<Longrightarrow> browser_token br' = None" by blast+
qed


end
