(* ===== verification/Frontend_Instances.thy ===== *)
theory Frontend_Instances
  imports Request_Instances Frontend_Sessions Frontend_Uploads
begin

text \<open>The theorems of \<open>Frontend_Sessions\<close> and \<open>Frontend_Uploads\<close> at a concrete backend and browser.\<close>

definition sample_browser :: browser where
  "sample_browser = \<lparr>br_token = None, br_username = None, br_user_id = None\<rparr>"

definition later_moment :: moment where
  "later_moment = sample_moment\<lparr>mo_auth_now := 60, mo_now := 61\<rparr>"


text \<open>Two files of the same name in one selection.\<close>

definition sample_picks :: "picked list" where
  "sample_picks =
     [\<lparr>pk_name = lit ''n'', pk_chunks = [[7], [8]], pk_size = 2\<rparr>, \<lparr>pk_name = lit ''n'', pk_chunks = [[9]], pk_size = 1\<rparr>]"


end
