(* ===== verification/Urls.thy ===== *)
theory Urls
  imports Codecs
begin

text \<open>
  How the addresses the frontend writes are read back: \<open>quote_plus\<close> and \<open>urlencode\<close> of \<open>urllib.parse\<close>
  on the writing side; on the reading side \<open>unquote\<close> and the query parameters as \<open>parse_qsl\<close> gives them
  to the web framework.  \<open>unquote\<close> is \<open>None\<close> where a byte sequence is no text (Python puts replacement characters
  there); on what was quoted it never is.
\<close>

section \<open>Decoding\<close>

lemma utf8_decode1_shorter: "utf8_decode1 bs = Some (c, r) \<Longrightarrow> length r < length bs"
  by (cases bs) (auto split: if_splits list.splits)

function utf8_decode :: "octets \<Rightarrow> ustring option" where
  "utf8_decode bs =
     (case utf8_decode1 bs of
        None \<Rightarrow> if bs = [] then Some [] else None
      | Some (c, r) \<Rightarrow> map_option ((#) c) (utf8_decode r))"
  by pat_completeness simp
termination by (relation "measure length") (auto dest: utf8_decode1_shorter)

declare utf8_decode.simps [simp del]

lemma utf8_decode_encode: "utf8_encode s = Some bs \<Longrightarrow> utf8_decode bs = Some s"
proof (induction s arbitrary: bs)
  case (Cons c s)
  then obtain a b where "utf8_char c = Some a" "utf8_encode s = Some b" "bs = a @ b" by (auto split: option.splits)
  with Cons.IH utf8_decode1_encode [of c a b] show ?case by (simp add: utf8_decode.simps [of "a @ b"])
qed (simp add: utf8_decode.simps)

definition unquote :: "ustring \<Rightarrow> ustring option" where
  "unquote s = utf8_decode (unquote_to_bytes s)"

lemma unquote_quoted: "quote safe s = Some q \<Longrightarrow> 37 \<notin> set safe \<Longrightarrow> unquote q = Some s"
  using unquote_quote utf8_decode_encode by (simp add: unquote_def)

lemma unquote_bytes_plain: "37 \<notin> set s \<Longrightarrow> unquote_to_bytes (s @ t) = s @ unquote_to_bytes t"
  by (induction s) simp_all

section \<open>Query strings\<close>

definition plus_spaces :: "ustring \<Rightarrow> ustring" where
  "plus_spaces s = map (\<lambda>c. if c = 32 then 43 else c) s"

definition unplus :: "ustring \<Rightarrow> ustring" where
  "unplus s = map (\<lambda>c. if c = 43 then 32 else c) s"

definition quote_plus :: "ustring \<Rightarrow> ustring option" where
  "quote_plus s = (if 32 \<notin> set s then quote [] s else map_option plus_spaces (quote [32] s))"

text \<open>The last field of a name counts, as in the framework's parameters.\<close>

definition query_fields :: "ustring \<Rightarrow> (ustring \<times> ustring) list" where
  "query_fields query = map (partition_on 61) (filter (\<lambda>f. f \<noteq> []) (split_on 38 query))"

definition query_param :: "ustring \<Rightarrow> ustring \<Rightarrow> ustring option" where
  "query_param name query =
     (case filter (\<lambda>(n, _). unquote (unplus n) = Some name) (query_fields query) of
        [] \<Rightarrow> None | fields \<Rightarrow> unquote (unplus (snd (last fields))))"

lemma quoted_char:
  assumes "quote safe s = Some q" "c \<in> set q" "\<not> always_safe c" "c \<noteq> 37"
  shows "c \<in> set safe"
  using quote_chars [OF assms(1,2)] assms(3,4) by blast

lemma unplus_quote: "quote [] s = Some q \<Longrightarrow> unplus q = q"
  using quoted_char [of "[]" s q 43] by (auto simp: unplus_def always_safe_def intro!: map_idI)

lemma unquote_quote_plus:
  assumes "quote_plus s = Some q"
  shows "unquote (unplus q) = Some s" "\<forall>c\<in>set q. always_safe c \<or> c = 37 \<or> c = 43"
proof -
  have "unquote (unplus q) = Some s \<and> (\<forall>c\<in>set q. always_safe c \<or> c = 37 \<or> c = 43)"
  proof (cases "32 \<in> set s")
    case True
    then obtain r where r: "quote [32] s = Some r" "q = plus_spaces r" using assms by (auto simp: quote_plus_def)
    have "43 \<notin> set r" using quoted_char [OF r(1), of 43] by (auto simp: always_safe_def)
    then have "unplus q = r" by (auto simp: r(2) unplus_def plus_spaces_def intro!: map_idI)
    moreover have "\<forall>c\<in>set q. always_safe c \<or> c = 37 \<or> c = 43"
      using quote_chars [OF r(1)] by (auto simp: r(2) plus_spaces_def)
    ultimately show ?thesis using unquote_quoted [OF r(1)] by simp
  next
    case False
    then have r: "quote [] s = Some q" using assms by (simp add: quote_plus_def)
    show ?thesis using unplus_quote [OF r] unquote_quoted [OF r] quote_chars [OF r] by auto
  qed
  then show "unquote (unplus q) = Some s" "\<forall>c\<in>set q. always_safe c \<or> c = 37 \<or> c = 43" by blast+
qed

text \<open>A single field is read back as it was written.\<close>

lemma query_param_single:
  assumes "unquote (unplus q) = Some s" "\<forall>c\<in>set q. always_safe c \<or> c = 37 \<or> c = 43"
    and "\<forall>c\<in>set name. 97 \<le> c \<and> c \<le> 122"
  shows "query_param name (name @ 61 # q) = Some s"
proof -
  have "38 \<notin> set (name @ 61 # q)" using assms(2,3) by (auto simp: always_safe_def)
  moreover have "61 \<notin> set name" using assms(3) by auto
  ultimately have f: "query_fields (name @ 61 # q) = [(name, q)]"
    by (simp add: query_fields_def split_none partition_found)
  have "37 \<notin> set name" "43 \<notin> set name" using assms(3) by auto
  then have "unplus name = name" "unquote_to_bytes (name @ []) = name @ []"
    by (auto simp: unplus_def unquote_bytes_plain intro!: map_idI simp del: append_Nil2)
  moreover have "utf8_encode name = Some name" using assms(3) by (intro utf8_ascii) auto
  ultimately have "unquote (unplus name) = Some name" by (simp add: unquote_def utf8_decode_encode)
  then show ?thesis using assms(1) by (simp add: query_param_def f)
qed

end
