(* ===== verification/Frontend_Views.thy ===== *)
theory Frontend_Views
  imports Frontend_Pages Urls
begin

text \<open>
  What the pages of the frontend show when they are opened: the builders of
  \<open>src/paper_boxing/frontend/pages/\<close> (\<open>site.py\<close>, \<open>sites.py\<close>, \<open>tokens.py\<close>, \<open>users.py\<close>) as views, with the
  links a page offers (\<open>folder_url\<close>, the breadcrumbs, the rows of a listing) and the addresses read back as
  the framework's routes read them.  Words, styles and the placement of elements are not modelled.
\<close>

section \<open>The session behind a page\<close>

text \<open>\<open>session_token\<close> raises without one, \<open>None\<close>; a page keeps the token it was built with.\<close>

definition session_token :: "browser \<Rightarrow> ustring option" where
  "session_token br = browser_token br"

definition opened :: "browser \<Rightarrow> ustring \<Rightarrow> page_context option" where
  "opened br wanted = map_option (\<lambda>t. \<lparr>pc_token = t, pc_wanted = wanted\<rparr>) (session_token br)"

section \<open>Lists\<close>

text \<open>A list page: the rows, or the error as \<open>report_error\<close> shows it.\<close>

datatype 'r list_view = Rows "'r list" | Not_Loaded "event list"

definition load :: "'s exchange \<Rightarrow> page_context \<Rightarrow> request \<Rightarrow> (response \<Rightarrow> 'r list option) \<Rightarrow> browser \<Rightarrow> 's \<Rightarrow> 'r list_view \<times> browser \<times> 's" where
  "load exchange pc rq rows br s =
     (case client_call exchange None (Some (pc_token pc)) rq s of
        (Inl e, s') \<Rightarrow> (case reported pc e br of (events, br') \<Rightarrow> (Not_Loaded events, br', s'))
      | (Inr r, s') \<Rightarrow> (case rows r of Some l \<Rightarrow> (Rows l, br, s') | None \<Rightarrow> (Not_Loaded [Raised Invalid], br, s')))"

record site_row_view =
  sw_slug :: ustring
  sw_name :: ustring
  sw_url :: ustring
  sw_manage :: ustring
  sw_files :: nat
  sw_bytes :: nat

definition site_row :: "ustring \<Rightarrow> site_out \<Rightarrow> site_row_view" where
  "site_row public s =
     \<lparr>sw_slug = so_slug s, sw_name = so_name s, sw_url = site_url public (so_slug s),
      sw_manage = lit ''/sites/'' @ so_slug s, sw_files = so_file_count s, sw_bytes = so_bytes s\<rparr>"

definition site_list :: "'s exchange \<Rightarrow> ustring \<Rightarrow> page_context \<Rightarrow> browser \<Rightarrow> 's \<Rightarrow> site_row_view list_view \<times> browser \<times> 's" where
  "site_list exchange public pc =
     load exchange pc R_ListSites (\<lambda>r. case r of SiteList sites \<Rightarrow> Some (map (site_row public) sites) | _ \<Rightarrow> None)"

text \<open>\<open>show_preview\<close>: the slug a name would get, nothing for a blank name, \<open>None\<close> for a name without one.\<close>

definition show_preview :: "(ustring \<Rightarrow> ustring) \<Rightarrow> ustring \<Rightarrow> ustring option" where
  "show_preview nfkd name =
     (let text = strip is_space name in
      if text = [] then Some []
      else case slug_from_name nfkd text of Inl e \<Rightarrow> None | Inr slug \<Rightarrow> Some (slash # slug @ [slash]))"

record token_row_view =
  tw_id :: ustring
  tw_name :: ustring
  tw_scope :: ustring
  tw_owner :: ustring
  tw_created_at :: time
  tw_last_used_at :: "time option"

definition token_row_shown :: "token_out \<Rightarrow> token_row_view" where
  "token_row_shown t =
     \<lparr>tw_id = to_id t, tw_name = to_name t, tw_scope = scope_value (to_scope t), tw_owner = to_username t,
      tw_created_at = to_created_at t, tw_last_used_at = to_last_used_at t\<rparr>"

definition token_list :: "'s exchange \<Rightarrow> page_context \<Rightarrow> browser \<Rightarrow> 's \<Rightarrow> token_row_view list_view \<times> browser \<times> 's" where
  "token_list exchange pc =
     load exchange pc R_ListTokens (\<lambda>r. case r of TokenList tokens \<Rightarrow> Some (map token_row_shown tokens) | _ \<Rightarrow> None)"

record user_row_view =
  uw_id :: ustring
  uw_username :: ustring
  uw_mine :: bool
  uw_created_at :: time

definition user_row_shown :: "browser \<Rightarrow> user_out \<Rightarrow> user_row_view" where
  "user_row_shown br u =
     \<lparr>uw_id = uo_id u, uw_username = uo_username u, uw_mine = (uo_id u = browser_user_id br), uw_created_at = uo_created_at u\<rparr>"

definition user_list :: "'s exchange \<Rightarrow> page_context \<Rightarrow> browser \<Rightarrow> 's \<Rightarrow> user_row_view list_view \<times> browser \<times> 's" where
  "user_list exchange pc br =
     load exchange pc R_ListUsers (\<lambda>r. case r of UserList users \<Rightarrow> Some (map (user_row_shown br) users) | _ \<Rightarrow> None) br"

section \<open>The page of a site\<close>

definition folder_url :: "ustring \<Rightarrow> ustring \<Rightarrow> ustring option" where
  "folder_url slug folder =
     (if folder = [] then Some (lit ''/sites/'' @ slug)
      else map_option (\<lambda>q. lit ''/sites/'' @ slug @ lit ''?path='' @ q) (quote_plus folder))"

text \<open>The trail of links to the folders above.\<close>

fun crumbs :: "ustring \<Rightarrow> ustring \<Rightarrow> ustring list \<Rightarrow> (ustring \<times> ustring option) list" where
  "crumbs slug trail [] = []"
| "crumbs slug trail (segment # rest) =
     (let trail' = (if trail = [] then segment else trail @ slash # segment) in
      (segment, folder_url slug trail') # crumbs slug trail' rest)"

definition breadcrumbs :: "ustring \<Rightarrow> ustring \<Rightarrow> (ustring \<times> ustring option) list" where
  "breadcrumbs slug folder =
     (lit ''root'', folder_url slug []) # (if folder = [] then [] else crumbs slug [] (split_on slash folder))"

record entry_row_view =
  ew_name :: ustring
  ew_full :: ustring
  ew_link :: "ustring option"
  ew_is_folder :: bool
  ew_bytes :: nat
  ew_modified_at :: time
  ew_digest :: "ustring option"

definition entry_row :: "ustring \<Rightarrow> ustring \<Rightarrow> file_entry \<Rightarrow> entry_row_view" where
  "entry_row slug folder e =
     (let full = full_path folder (fe_name e) in
      \<lparr>ew_name = fe_name e, ew_full = full,
       ew_link = (if fe_type e = FOLDER then folder_url slug full else None), ew_is_folder = (fe_type e = FOLDER),
       ew_bytes = fe_bytes e, ew_modified_at = fe_modified_at e,
       ew_digest = (case fe_sha256 e of None \<Rightarrow> None | Some h \<Rightarrow> if h = [] then None else Some (take 12 h))\<rparr>)"

datatype listing_view = Entries "entry_row_view list" | No_Folder ustring | Listing_Failed "event list"

definition listing_part :: "'s exchange \<Rightarrow> page_context \<Rightarrow> ustring \<Rightarrow> ustring \<Rightarrow> browser \<Rightarrow> 's \<Rightarrow> listing_view \<times> browser \<times> 's" where
  "listing_part exchange pc slug folder br s =
     (case client_call exchange None (Some (pc_token pc)) (R_ListFiles slug folder) s of
        (Inl e, s') \<Rightarrow>
          (if error_status e = Some 404 \<and> folder \<noteq> [] then (No_Folder (lit ''/sites/'' @ slug), br, s')
           else case reported pc e br of (events, br') \<Rightarrow> (Listing_Failed events, br', s'))
      | (Inr (Listing l), s') \<Rightarrow> (Entries (map (entry_row slug folder) (fl_entries l)), br, s')
      | (Inr _, s') \<Rightarrow> (Listing_Failed [Raised Invalid], br, s'))"

datatype site_page_view =
    Bad_Folder ustring
  | No_Site
  | Site_Failed "event list"
  | Site_Shown ustring ustring ustring nat nat "(ustring \<times> ustring option) list" listing_view

text \<open>An invalid folder path is answered before the backend is asked.\<close>

definition site_page :: "'s exchange \<Rightarrow> ustring \<Rightarrow> page_context \<Rightarrow> ustring \<Rightarrow> ustring \<Rightarrow> browser \<Rightarrow> 's \<Rightarrow> site_page_view \<times> browser \<times> 's" where
  "site_page exchange public pc slug path br s =
     (case validate_site_path path True of
        Inl e \<Rightarrow> (Bad_Folder (lit ''/sites/'' @ slug), br, s)
      | Inr folder \<Rightarrow>
          (case client_call exchange None (Some (pc_token pc)) (R_GetSite slug) s of
             (Inl e, s') \<Rightarrow>
               (if error_status e = Some 404 then (No_Site, br, s')
                else case reported pc e br of (events, br') \<Rightarrow> (Site_Failed events, br', s'))
           | (Inr (SiteResponse status site), s') \<Rightarrow>
               (case listing_part exchange pc (so_slug site) folder br s' of
                  (listing, br', s'') \<Rightarrow>
                    (Site_Shown (so_slug site) (so_name site) (site_url public (so_slug site)) (so_file_count site)
                       (so_bytes site) (breadcrumbs (so_slug site) folder) listing, br', s''))
           | (Inr _, s') \<Rightarrow> (Site_Failed [Raised Invalid], br, s')))"

section \<open>Addresses read back\<close>

text \<open>
  What a browser requests for a reference: tabs and line breaks go, the path and the query are told apart at the
  first question mark.  The routes \<open>/sites/{slug}\<close>, with the parameter \<open>path\<close>, and
  \<open>/download/{slug}/{path:path}\<close> match the decoded path.
\<close>

definition requested :: "ustring \<Rightarrow> ustring \<times> ustring" where
  "requested url = partition_on 63 (filter (\<lambda>c. \<not> removed_char c) url)"

definition site_route :: "ustring \<Rightarrow> (ustring \<times> ustring) option" where
  "site_route url =
     (case requested url of (p, query) \<Rightarrow>
        (case unquote p of None \<Rightarrow> None
         | Some path \<Rightarrow>
             let slug = drop 7 path in
             if take 7 path = lit ''/sites/'' \<and> slug \<noteq> [] \<and> slash \<notin> set slug
             then Some (slug, case query_param (lit ''path'') query of None \<Rightarrow> [] | Some v \<Rightarrow> v) else None))"

definition download_route :: "ustring \<Rightarrow> (ustring \<times> ustring) option" where
  "download_route url =
     (case requested url of (p, query) \<Rightarrow>
        (case unquote p of None \<Rightarrow> None
         | Some path \<Rightarrow>
             if take 10 path = lit ''/download/'' then
               (case partition_on slash (drop 10 path) of (slug, rest) \<Rightarrow>
                  if slug \<noteq> [] \<and> slash \<in> set (drop 10 path) then Some (slug, rest) else None)
             else None))"

text \<open>The return path a sign-in page was given.\<close>

definition login_route :: "ustring \<Rightarrow> ustring option option" where
  "login_route url =
     (case requested url of (p, query) \<Rightarrow> if p = LOGIN_PATH then Some (query_param (lit ''next'') query) else None)"

end
