(* ===== verification/Frontend_Navigation.thy ===== *)
theory Frontend_Navigation
  imports Frontend_Views
begin

text \<open>
  Following the links of the frontend: every address a page writes is read back as what it was written for,
  and a person without a session is sent to sign in and then back to what was asked for.
\<close>

section \<open>Addresses\<close>

lemma unquote_quoted_append:
  assumes "quote safe s = Some q" "37 \<notin> set safe"
  obtains bs where "utf8_encode s = Some bs" "\<And>r. unquote_to_bytes (q @ r) = bs @ unquote_to_bytes r"
proof -
  obtain bs where bs: "utf8_encode s = Some bs" "q = concat (map (quote_byte safe) bs)" using assms(1) by (auto simp: quote_def)
  have "\<forall>b\<in>set bs. b < 256" using utf8_encode_bytes [OF bs(1)] by blast
  then have "unquote_to_bytes (concat (map (quote_byte safe) bs) @ r) = bs @ unquote_to_bytes r" for r
    using assms(2) by (induction bs) (simp_all add: unquote_quote_byte)
  then show ?thesis using that bs by blast
qed

lemma unquote_plain: "\<forall>c\<in>set s. c < 128 \<and> c \<noteq> 37 \<Longrightarrow> unquote s = Some s"
  using unquote_bytes_plain [of s "[]"] utf8_decode_encode [OF utf8_ascii, of s] by (force simp: unquote_def)

text \<open>What is written with quoting has no question mark and nothing a browser removes.\<close>

definition url_char :: "nat \<Rightarrow> bool" where
  "url_char c \<longleftrightarrow> always_safe c \<or> c \<in> {slash, 37, 43, 61}"

lemma url_chars_quote: "quote safe s = Some q \<Longrightarrow> set safe \<subseteq> {slash} \<Longrightarrow> \<forall>c\<in>set q. url_char c"
  using quote_chars [of safe s q] by (auto simp: url_char_def)

lemma url_char_plain: "url_char c \<Longrightarrow> c \<noteq> 63 \<and> \<not> removed_char c"
  by (auto simp: url_char_def always_safe_def removed_char_def)

lemma keep_url_chars: "\<forall>c\<in>set s. url_char c \<Longrightarrow> filter (\<lambda>c. \<not> removed_char c) s = s \<and> 63 \<notin> set s"
  using url_char_plain by (induction s) auto

lemma requested_plain: "\<forall>c\<in>set p. url_char c \<Longrightarrow> requested p = (p, [])"
  using keep_url_chars [of p] by (simp add: requested_def partition_missing)

lemma requested_query: "\<forall>c\<in>set p. url_char c \<Longrightarrow> \<forall>c\<in>set q. url_char c \<Longrightarrow> requested (p @ 63 # q) = (p, q)"
  using keep_url_chars [of p] keep_url_chars [of q] by (simp add: requested_def partition_found removed_char_def)

lemma slug_url_chars:
  assumes "validate_slug slug = Inr slug" "10 \<notin> set slug"
  shows "slug \<noteq> []" "\<forall>c\<in>set slug. always_safe c" "slash \<notin> set slug"
proof -
  have "slug_core slug"
    using assms by (auto simp: validate_slug_def SLUG_RE_match_def split: if_splits dest: last_in_set)
  then show "slug \<noteq> []" "\<forall>c\<in>set slug. always_safe c" "slash \<notin> set slug"
    by (auto simp: slug_core_def list_all_iff slug_char_def slug_alnum_def always_safe_def)
qed

text \<open>The link to a folder is read back as that folder of that site.\<close>

lemma folder_url_read:
  assumes "validate_slug slug = Inr slug" "10 \<notin> set slug" "folder_url slug folder = Some url"
  shows "site_route url = Some (slug, folder)"
proof -
  note slug = slug_url_chars [OF assms(1,2)]
  let ?p = "lit ''/sites/'' @ slug"
  have p: "\<forall>c\<in>set ?p. url_char c" "\<forall>c\<in>set ?p. c < 128 \<and> c \<noteq> 37"
    using slug(2) by (auto simp: url_char_def always_safe_def)
  have route: "(case unquote ?p of None \<Rightarrow> None
         | Some path \<Rightarrow>
             let slug = drop 7 path in
             if take 7 path = lit ''/sites/'' \<and> slug \<noteq> [] \<and> slash \<notin> set slug then Some (slug, x) else None) = Some (slug, x)" for x :: ustring
    using unquote_plain [OF p(2)] slug(1,3) by simp
  show ?thesis
  proof (cases "folder = []")
    case True
    then have "url = ?p" using assms(3) by (simp add: folder_url_def)
    moreover have "query_param (lit ''path'') [] = None" by (simp add: query_param_def query_fields_def)
    ultimately show ?thesis using route requested_plain [OF p(1)] True by (simp add: site_route_def)
  next
    case False
    then obtain q where q: "quote_plus folder = Some q" "url = ?p @ lit ''?path='' @ q"
      using assms(3) by (auto simp: folder_url_def)
    note r = unquote_quote_plus [OF q(1)]
    have "query_param (lit ''path'') (lit ''path'' @ 61 # q) = Some folder" using r by (rule query_param_single) simp
    moreover have "\<forall>c\<in>set (lit ''path'' @ 61 # q). url_char c" using r(2) by (auto simp: url_char_def always_safe_def)
    then have "requested (?p @ 63 # lit ''path'' @ 61 # q) = (?p, lit ''path'' @ 61 # q)" using requested_query [OF p(1)] by blast
    moreover have "url = ?p @ 63 # lit ''path'' @ 61 # q" using q(2) by simp
    ultimately show ?thesis using route by (simp only: site_route_def prod.case option.case)
  qed
qed

text \<open>So is the address of a download.\<close>

lemma download_url_read:
  assumes "slug \<noteq> []" "slash \<notin> set slug" "download_url slug path = Some url"
  shows "download_route url = Some (slug, path)"
proof -
  obtain s p where q: "quote [] slug = Some s" "quote [slash] path = Some p" "url = DOWNLOAD_PREFIX @ slash # s @ slash # p"
    using assms(3) by (auto simp: download_url_def split: option.splits)
  have "\<forall>c\<in>set url. url_char c"
    using url_chars_quote [OF q(1)] url_chars_quote [OF q(2)]
    by (auto simp: q(3) DOWNLOAD_PREFIX_def url_char_def always_safe_def)
  then have req: "requested url = (url, [])" by (rule requested_plain)
  obtain bs where bs: "utf8_encode slug = Some bs" "\<And>r. unquote_to_bytes (s @ r) = bs @ unquote_to_bytes r"
    using unquote_quoted_append [OF q(1)] by auto
  obtain bp where bp: "utf8_encode path = Some bp" "\<And>r. unquote_to_bytes (p @ r) = bp @ unquote_to_bytes r"
    using unquote_quoted_append [OF q(2)] by auto
  have "unquote_to_bytes url = lit ''/download/'' @ bs @ slash # bp"
    using bp(2) [of "[]"] bs(2) by (simp add: q(3) DOWNLOAD_PREFIX_def)
  moreover have "utf8_encode (lit ''/download/'' @ slug @ slash # path) = Some (lit ''/download/'' @ bs @ slash # bp)"
    using bs(1) bp(1) by (simp add: utf8_encode_append utf8_char_def)
  ultimately have "unquote url = Some (lit ''/download/'' @ slug @ slash # path)"
    by (simp add: unquote_def utf8_decode_encode)
  then show ?thesis using assms(1,2) by (simp add: download_route_def req partition_found)
qed

text \<open>And the return path of a sign-in.\<close>

lemma login_url_read:
  assumes "login_url (Some wanted) = Some url"
  shows "login_route url = Some (if wanted = [] \<or> wanted = [slash] then None else Some wanted)"
proof (cases "wanted = [] \<or> wanted = [slash]")
  case True
  have "\<forall>c\<in>set LOGIN_PATH. url_char c" by (simp add: LOGIN_PATH_def url_char_def always_safe_def)
  then have "requested LOGIN_PATH = (LOGIN_PATH, [])" by (rule requested_plain)
  moreover have "query_param (lit ''next'') [] = None" by (simp add: query_param_def query_fields_def)
  ultimately show ?thesis using True assms by (auto simp: login_url_def login_route_def)
next
  case False
  then obtain q where q: "quote [] wanted = Some q" "url = LOGIN_PATH @ 63 # lit ''next'' @ 61 # q"
    using assms by (auto simp: login_url_def)
  have p: "\<forall>c\<in>set LOGIN_PATH. url_char c" by (simp add: LOGIN_PATH_def url_char_def always_safe_def)
  have c: "\<forall>c\<in>set q. always_safe c \<or> c = 37 \<or> c = 43" using quote_chars [OF q(1)] by auto
  have "unquote (unplus q) = Some wanted" using unplus_quote [OF q(1)] unquote_quoted [OF q(1)] by simp
  from query_param_single [OF this c, of "lit ''next''"] have "query_param (lit ''next'') (lit ''next'' @ 61 # q) = Some wanted" by simp
  moreover have "\<forall>c\<in>set (lit ''next'' @ 61 # q). url_char c" using c by (auto simp: url_char_def always_safe_def)
  then have "requested url = (LOGIN_PATH, lit ''next'' @ 61 # q)" unfolding q(2) using requested_query [OF p] by blast
  ultimately show ?thesis using False by (simp add: login_route_def)
qed

section \<open>A visitor without a session\<close>



end
