(* ===== verification/Frontend_Links.thy ===== *)
theory Frontend_Links
  imports Frontend_Navigation Site_Requests
begin

text \<open>
  The links of a site's page with the backend at the other end: while the session lasts, each leads where it
  says, to the folder or to the file the row is about.
\<close>

section \<open>Reading with a session\<close>

lemma requires_keeps_caller:
  assumes "accounts_ok db" "caller (bk_accounts bk) now h db = Some g" "0 < ac_session_length (bk_accounts bk)"
    and "requires bk now h acc db = (q, db')"
  shows "caller (bk_accounts bk) now h db' = Some g"
proof -
  obtain secret d t where t: "parse_bearer h = Some secret" "secret_digest (bk_accounts bk) secret = Inr d"
    "token_by_secret db d = Some t" "live_token now t" "grant_of t = g"
    using assms(2) by (auto simp: caller_def grants_def split: option.splits sum.splits if_splits)
  then have st: "stored_token (bk_accounts bk) db secret = Some t" by (simp add: stored_token_def)
  obtain a where a: "resolve_bearer (bk_accounts bk) now h db = (Inr (Some a), db')"
    using resolve_bearer_live [OF assms(1) t(1) st t(4)] requires_frame(4) [OF assms(4)] unfolding Let_def by (metis snd_conv)
  from resolve_found [OF assms(1) a] t(1-3)
  have "a_token a = t\<lparr>t_last_used_at := Some now,
      t_expires_at := (if t_type t = SESSION then Some (now + ac_session_length (bk_accounts bk)) else None)\<rparr>"
    "token_by_secret db' d = Some (a_token a)" by auto
  then show ?thesis using t assms(3) by (simp add: caller_def grants_def live_token_def grant_of_def)
qed

definition reads :: "backend \<Rightarrow> time \<Rightarrow> ustring \<Rightarrow> state \<Rightarrow> bool" where
  "reads bk now token st \<longleftrightarrow> volume_ok (bk_storage bk) st \<and> accounts_ok (st_db st)
     \<and> caller (bk_accounts bk) now (Some (bearer_header token)) (st_db st) \<noteq> None"

text \<open>Requests that happen at one time, undisturbed.\<close>

definition at_once :: "backend \<Rightarrow> time \<Rightarrow> (request \<Rightarrow> moment) \<Rightarrow> bool" where
  "at_once bk now mos \<longleftrightarrow> (\<forall>rq. calm (mo_env (mos rq)) \<and> mo_auth_now (mos rq) = now) \<and> 0 < ac_session_length (bk_accounts bk)"

lemma session_read:
  assumes "reads bk now token st" "at_once bk now mos"
    and "site_request rq" "access_of rq = NEEDS_READ_ONLY" "hc_path (client_http rq) \<noteq> None"
    and "client_call (wire bk mos) None (Some token) rq st = (x, st')"
  obtains r where "x = (case r of Inr a \<Rightarrow> Inr a | Inl e \<Rightarrow> Inl (BackendError (fst (error_answer e)) (snd (error_answer e))))"
    "outlined r = fst (spec (rules_of bk) rq (backend_view st))" "backend_view st' = backend_view st" "reads bk now token st'"
proof -
  let ?h = "Some (bearer_header token)" and ?mo = "mos rq"
  have ok: "volume_ok (bk_storage bk) st" "accounts_ok (st_db st)" using assms(1) by (simp_all add: reads_def)
  obtain g where g: "caller (bk_accounts bk) now ?h (st_db st) = Some g" using assms(1) by (auto simp: reads_def)
  have mo: "calm (mo_env ?mo)" "mo_auth_now ?mo = now" "0 < ac_session_length (bk_accounts bk)"
    using assms(2) by (simp_all add: at_once_def)
  have rq: "valid_request rq" "undisturbed ?mo rq" "\<not> returns_nothing rq" "\<forall>V. snd (spec (rules_of bk) rq V) = V"
    "\<forall>u p. rq \<noteq> R_Login u p"
    using assms(3,4) mo(1) by (cases rq; simp)+
  obtain r s1 where h: "handle bk ?mo (map_option bearer_header (Some token)) rq st = (r, s1)" by (metis prod.collapse)
  have x: "x = (case r of Inr a \<Rightarrow> Inr a | Inl e \<Rightarrow> Inl (BackendError (fst (error_answer e)) (snd (error_answer e))))" "s1 = st'"
    using client_call_backend [OF rq(1) assms(5) h, of None] assms(6) rq(3) by (auto simp: wire_client split: sum.splits)
  then have h': "handle bk ?mo ?h rq st = (r, st')" using h by simp
  have "access_allows (access_of rq) (Some (fst g)) (Some (fst (snd g)))"
    unfolding assms(4) by (cases "fst (snd g)") (simp_all add: access_allows_token less_eq_scope_def)
  then have "header_refusal bk (mo_auth_now ?mo) ?h (access_of rq) (st_db st) = None"
    using g by (cases g) (simp add: header_refusal_def mo(2))
  then have spec: "request_spec bk ?mo ?h rq (st_db st) (backend_view st) = spec (rules_of bk) rq (backend_view st)"
    using rq(1) by (simp add: request_spec_def)
  note handled = handle_site_request [OF ok assms(3) rq(2) h', unfolded spec]
  obtain q db' where q: "requires bk now ?h (access_of rq) (st_db st) = (q, db')" by (metis prod.collapse)
  have tokens: "db_tokens (st_db st') = db_tokens db'"
    using h' rq(5)
  proof (cases rule: handle_cases)
    case (route actor db1)
    then show ?thesis using run_route_accounts [OF route(3)] site_request_accounts [OF assms(3)] q by (simp add: mo(2))
  qed (use q in \<open>simp_all add: mo(2)\<close>)
  have "caller (bk_accounts bk) now ?h (st_db st') = Some g"
    using requires_keeps_caller [OF ok(2) g mo(3) q] caller_eq [OF tokens] by simp
  then have "reads bk now token st'" using handled(2,3) by (simp add: reads_def)
  moreover have "outlined r = fst (spec (rules_of bk) rq (backend_view st))" "backend_view st' = backend_view st"
    using handled(1) rq(4) by (metis fst_conv snd_conv)+
  ultimately show ?thesis using that x(1) by blast
qed

section \<open>Paths that can be written\<close>

lemma encode_join: "\<forall>s\<in>set ss. utf8_encode s \<noteq> None \<Longrightarrow> utf8_encode (join_on slash ss) \<noteq> None"
  by (induction slash ss rule: join_on.induct) (auto simp: utf8_encode_append utf8_char_def split: option.splits)

lemma canonical_encodes:
  assumes "p = [] \<or> canonical_path p"
  obtains b where "utf8_encode p = Some b"
proof -
  have "\<forall>s\<in>set (segments_of p). utf8_encode s \<noteq> None"
    using good_segments_of [OF assms] by (auto simp: list_all_iff good_segment_def split: option.splits)
  then have "utf8_encode (join_on slash (segments_of p)) \<noteq> None" by (rule encode_join)
  then show ?thesis using that by (auto simp: join_segments_of)
qed

lemma folder_url_written: "p = [] \<or> canonical_path p \<Longrightarrow> \<exists>url. folder_url slug p = Some url"
  by (erule canonical_encodes) (auto simp: folder_url_def quote_plus_def quote_def)

lemma full_path_join: "full_path folder n = join_name folder n"
  by (simp add: full_path_def join_name_def)

lemma site_urls:
  assumes "\<forall>c\<in>set slug. always_safe c"
  shows "hc_path (client_http (R_GetSite slug)) \<noteq> None" "hc_path (client_http (R_ListFiles slug q)) \<noteq> None"
    "p = [] \<or> canonical_path p \<Longrightarrow> hc_path (client_http (R_DownloadFile slug p)) \<noteq> None"
    "p = [] \<or> canonical_path p \<Longrightarrow> \<exists>url. download_url slug p = Some url"
proof -
  have "utf8_encode slug = Some slug" using assms by (intro utf8_ascii) (auto simp: always_safe_def)
  then have s: "quote safe slug \<noteq> None" for safe by (simp add: quote_none)
  then show "hc_path (client_http (R_GetSite slug)) \<noteq> None" "hc_path (client_http (R_ListFiles slug q)) \<noteq> None"
    by (auto simp: url_simps split: option.split)
  show "hc_path (client_http (R_DownloadFile slug p)) \<noteq> None" if "p = [] \<or> canonical_path p"
    using that s by (elim canonical_encodes) (auto simp: url_simps quote_none split: option.split)
  show "\<exists>url. download_url slug p = Some url" if "p = [] \<or> canonical_path p"
    using that s by (elim canonical_encodes) (auto simp: download_url_def quote_none split: option.split)
qed

section \<open>Pages that open\<close>

lemma validated_folder: "validate_site_path path True = Inr folder \<Longrightarrow> folder = [] \<or> canonical_path folder"
  by (auto simp: validate_ok_iff split: if_splits)

lemma validate_again: "folder = [] \<or> canonical_path folder \<Longrightarrow> validate_site_path folder True = Inr folder"
  using valid_path_canonical [of folder True] valid_path_root by (auto simp: valid_path_def split: sum.splits)

lemma valid_path_again: "folder = [] \<or> canonical_path folder \<Longrightarrow> valid_path folder True = Inr folder"
  using valid_path_canonical valid_path_root by blast

lemma get_site_call:
  assumes "reads bk now token st" "at_once bk now mos" "hc_path (client_http (R_GetSite slug)) \<noteq> None"
    and "client_call (wire bk mos) None (Some token) (R_GetSite slug) st = (x, st')"
  shows "backend_view st' = backend_view st" "reads bk now token st'"
    "x = Inr (SiteResponse status site) \<Longrightarrow> \<exists>v. backend_view st slug = Some v \<and> so_slug site = slug"
    "backend_view st slug \<noteq> None \<Longrightarrow> \<exists>status site. x = Inr (SiteResponse status site) \<and> so_slug site = slug"
proof -
  obtain r where r: "x = (case r of Inr a \<Rightarrow> Inr a | Inl e \<Rightarrow> Inl (BackendError (fst (error_answer e)) (snd (error_answer e))))"
    "outlined r = fst (spec (rules_of bk) (R_GetSite slug) (backend_view st))" "backend_view st' = backend_view st" "reads bk now token st'"
    using session_read [OF assms(1,2) _ _ assms(3,4)] by auto
  show "backend_view st' = backend_view st" "reads bk now token st'" using r by simp_all
  have out: "outlined r = (case backend_view st slug of None \<Rightarrow> O_Error not_found | Some v \<Rightarrow> site_outline (rules_of bk) 200 slug v)"
    using r(2) by simp
  show "\<exists>v. backend_view st slug = Some v \<and> so_slug site = slug" if "x = Inr (SiteResponse status site)"
    using that r(1) out by (cases r) (auto simp: site_outline_def split: option.splits)
  show "\<exists>status site. x = Inr (SiteResponse status site) \<and> so_slug site = slug" if there: "backend_view st slug \<noteq> None"
  proof -
    obtain v where "backend_view st slug = Some v" using there by blast
    then have "\<exists>a. r = Inr a" using out by (cases r) (auto simp: site_outline_def)
    then obtain a where "r = Inr a" ..
    then show ?thesis
      using out \<open>backend_view st slug = Some v\<close> r(1) by (cases a) (auto simp: site_outline_def)
  qed
qed

lemma list_files_call:
  assumes "reads bk now token st" "at_once bk now mos" "hc_path (client_http (R_ListFiles slug folder)) \<noteq> None"
    and "client_call (wire bk mos) None (Some token) (R_ListFiles slug folder) st = (x, st')"
    and "folder = [] \<or> canonical_path folder" "backend_view st slug = Some v"
  shows "backend_view st' = backend_view st" "reads bk now token st'"
    "x = Inr (Listing l) \<Longrightarrow> sv_items v (segments_of folder) = Is_Folder
       \<and> map entry_line (fl_entries l) = spec_listing (rules_of bk) (sv_items v) (segments_of folder)"
    "sv_items v (segments_of folder) = Is_Folder \<Longrightarrow> \<exists>l. x = Inr (Listing l)"
proof -
  obtain r where r: "x = (case r of Inr a \<Rightarrow> Inr a | Inl e \<Rightarrow> Inl (BackendError (fst (error_answer e)) (snd (error_answer e))))"
    "outlined r = fst (spec (rules_of bk) (R_ListFiles slug folder) (backend_view st))" "backend_view st' = backend_view st" "reads bk now token st'"
    using session_read [OF assms(1,2) _ _ assms(3,4)] by auto
  show "backend_view st' = backend_view st" "reads bk now token st'" using r by simp_all
  have out: "outlined r = (case sv_items v (segments_of folder) of
        Is_File c \<Rightarrow> O_Error (ApiError 409 NOT_A_FOLDER) | Absent \<Rightarrow> O_Error not_found
      | Is_Folder \<Rightarrow> O_Entries slug folder (spec_listing (rules_of bk) (sv_items v) (segments_of folder)))"
    using r(2) assms(6) valid_path_again [OF assms(5)] by simp
  show "sv_items v (segments_of folder) = Is_Folder
       \<and> map entry_line (fl_entries l) = spec_listing (rules_of bk) (sv_items v) (segments_of folder)" if "x = Inr (Listing l)"
    using that r(1) out by (cases r) (auto split: item.splits)
  show "\<exists>l. x = Inr (Listing l)" if f: "sv_items v (segments_of folder) = Is_Folder"
  proof -
    have "\<exists>a. r = Inr a" using out f by (cases r) auto
    then obtain a where "r = Inr a" ..
    then show ?thesis using out f r(1) by (cases a) auto
  qed
qed

text \<open>Whether a page shows the contents of its folder.\<close>

fun shows_entries :: "site_page_view \<Rightarrow> bool" where
  "shows_entries (Site_Shown _ _ _ _ _ _ (Entries _)) = True"
| "shows_entries _ = False"

lemma page_opens:
  assumes "reads bk now (pc_token pc) st" "at_once bk now mos" "\<forall>c\<in>set slug. always_safe c"
    and "folder = [] \<or> canonical_path folder" "backend_view st slug = Some v" "sv_items v (segments_of folder) = Is_Folder"
  shows "shows_entries (fst (site_page (wire bk mos) public pc slug folder br st))"
proof -
  note urls = site_urls [OF assms(3)]
  obtain x st1 where x: "client_call (wire bk mos) None (Some (pc_token pc)) (R_GetSite slug) st = (x, st1)" by (metis prod.collapse)
  note g = get_site_call [OF assms(1,2) urls(1) x]
  obtain status site where site: "x = Inr (SiteResponse status site)" "so_slug site = slug" using g(4) assms(5) by auto
  obtain y st2 where y: "client_call (wire bk mos) None (Some (pc_token pc)) (R_ListFiles slug folder) st1 = (y, st2)" by (metis prod.collapse)
  have "backend_view st1 slug = Some v" using g(1) assms(5) by simp
  from list_files_call(4) [OF g(2) assms(2) urls(2) y assms(4) this assms(6)] obtain l where "y = Inr (Listing l)" by blast
  then show ?thesis
    using x y site validate_again [OF assms(4)] by (simp add: site_page_def listing_part_def)
qed

text \<open>What a shown page says of the site it is about.\<close>

lemma page_shown:
  assumes "reads bk now (pc_token pc) st" "at_once bk now mos"
    and "site_page (wire bk mos) public pc slug path br st = (Site_Shown slug' name url n b trail (Entries rows), br1, st1)"
  obtains folder v es where "validate_site_path path True = Inr folder" "slug' = slug" "br1 = br" "reads bk now (pc_token pc) st1"
    "backend_view st1 slug = Some v" "sv_items v (segments_of folder) = Is_Folder" "trail = breadcrumbs slug folder"
    "rows = map (entry_row slug folder) es" "map entry_line es = spec_listing (rules_of bk) (sv_items v) (segments_of folder)"
proof -
  obtain folder where f: "validate_site_path path True = Inr folder" using assms(3) by (auto simp: site_page_def split: sum.splits)
  obtain x s1 where x: "client_call (wire bk mos) None (Some (pc_token pc)) (R_GetSite slug) st = (x, s1)" by (metis prod.collapse)
  obtain status site where site: "x = Inr (SiteResponse status site)"
    using assms(3) f x by (auto simp: site_page_def split: sum.splits response.splits if_splits prod.splits)
  have u: "hc_path (client_http (R_GetSite slug)) \<noteq> None" using x site by (auto simp: client_call_def split: if_splits)
  note g = get_site_call [OF assms(1,2) u x]
  obtain v where v: "backend_view st slug = Some v" "so_slug site = slug" using g(3) site by blast
  obtain y s2 where y: "client_call (wire bk mos) None (Some (pc_token pc)) (R_ListFiles slug folder) s1 = (y, s2)" by (metis prod.collapse)
  have shown: "slug' = slug" "trail = breadcrumbs slug folder" "listing_part (wire bk mos) pc slug folder br s1 = (Entries rows, br1, st1)"
    using assms(3) f x site v(2) by (auto simp: site_page_def split: prod.splits)
  then obtain l where l: "y = Inr (Listing l)" "rows = map (entry_row slug folder) (fl_entries l)" "br1 = br" "st1 = s2"
    using y by (auto simp: listing_part_def split: sum.splits response.splits if_splits prod.splits)
  have u': "hc_path (client_http (R_ListFiles slug folder)) \<noteq> None" using y l(1) by (auto simp: client_call_def split: if_splits)
  have v1: "backend_view s1 slug = Some v" using v g(1) by simp
  note lf = list_files_call [OF g(2) assms(2) u' y validated_folder [OF f] v1]
  show ?thesis
    using that [OF f shown(1) l(3) _ _ _ shown(2) l(2)] lf(1,2) lf(3) [OF l(1)] v1 l(4) by simp
qed

section \<open>Where the links lead\<close>

lemma view_above:
  assumes "backend_view st slug = Some v" "sv_items v q = Is_Folder" "prefix r q"
  shows "sv_items v r = Is_Folder"
proof (cases "r = q")
  case False
  then have "strict_prefix (slug # r) (slug # q)" using assms(3) by (simp add: strict_prefix_def)
  moreover have "what_at (st_sites st) (slug # q) \<noteq> Missing" using assms(1,2) by (auto simp: backend_view_def)
  ultimately have "what_at (st_sites st) (slug # r) = A_Folder" using below_no_folder by blast
  then show ?thesis using assms(1) by (auto simp: backend_view_def)
qed (use assms(2) in simp)

lemma crumbs_above:
  "(label, link) \<in> set (crumbs slug (join_on slash ss) segs) \<Longrightarrow> \<forall>s\<in>set (ss @ segs). s \<noteq> [] \<Longrightarrow>
     \<exists>r. prefix r segs \<and> link = folder_url slug (join_on slash (ss @ r))"
proof (induction segs arbitrary: ss)
  case (Cons a segs)
  have trail: "(if join_on slash ss = [] then a else join_on slash ss @ slash # a) = join_on slash (ss @ [a])"
    using Cons.prems(2) by (cases "ss = []") (auto simp: join_on_append join_on_empty_iff)
  consider "link = folder_url slug (join_on slash (ss @ [a]))" | "(label, link) \<in> set (crumbs slug (join_on slash (ss @ [a])) segs)"
    using Cons.prems(1) unfolding crumbs.simps Let_def trail by auto
  then show ?case
  proof cases
    case 1
    then show ?thesis by (intro exI [of _ "[a]"]) simp
  next
    case 2
    with Cons.IH [of "ss @ [a]"] Cons.prems(2) obtain r where "prefix r segs" "link = folder_url slug (join_on slash (ss @ [a] @ r))"
      by auto
    then show ?thesis by (intro exI [of _ "a # r"]) simp
  qed
qed simp

text \<open>A link to a folder that is there opens it.\<close>

definition opens_folder :: "'s exchange \<Rightarrow> ustring \<Rightarrow> page_context \<Rightarrow> ustring option \<Rightarrow> browser \<Rightarrow> 's \<Rightarrow> bool" where
  "opens_folder exchange public pc link br s =
     (case link of None \<Rightarrow> False
      | Some url \<Rightarrow> (case site_route url of None \<Rightarrow> False
         | Some (slug, folder) \<Rightarrow> shows_entries (fst (site_page exchange public pc slug folder br s))))"

lemma folder_link_opens:
  assumes "reads bk now (pc_token pc) st" "at_once bk now mos" "10 \<notin> set slug"
    and "folder = [] \<or> canonical_path folder" "backend_view st slug = Some v" "sv_items v (segments_of folder) = Is_Folder"
  shows "opens_folder (wire bk mos) public pc (folder_url slug folder) br st"
proof -
  have "site_by_slug (st_db st) slug \<noteq> None" using assms(5) by (auto simp: backend_view_def)
  then have slug: "validate_slug slug = Inr slug" using assms(1) volume_okD(7) by (auto simp: reads_def)
  obtain url where url: "folder_url slug folder = Some url" using folder_url_written [OF assms(4)] by blast
  show ?thesis
    using page_opens [OF assms(1,2) slug_url_chars(2) [OF slug assms(3)] assms(4-6)] folder_url_read [OF slug assms(3) url] url
    by (simp add: opens_folder_def)
qed

text \<open>The address of a file that is there gives the file.\<close>

definition gives_file :: "'s exchange \<Rightarrow> (octets \<Rightarrow> ustring) \<Rightarrow> browser \<Rightarrow> ustring \<Rightarrow> entry_row_view \<Rightarrow> 's \<Rightarrow> bool" where
  "gives_file exchange sha256 br slug row s =
     (case download_url slug (ew_full row) of None \<Rightarrow> False
      | Some url \<Rightarrow> (case download_route url of None \<Rightarrow> False
         | Some (slug', path) \<Rightarrow>
             (case fst (download_route_answer exchange br slug' path s) of
                Attachment content _ _ \<Rightarrow> ew_bytes row = length content
                  \<and> ew_digest row = (if sha256 content = [] then None else Some (take 12 (sha256 content)))
              | _ \<Rightarrow> False)))"

lemma file_link_gives:
  assumes "reads bk now token st" "at_once bk now mos" "browser_token br = Some token" "10 \<notin> set slug"
    and "canonical_path path" "backend_view st slug = Some v" "sv_items v (segments_of path) = Is_File c"
    and "ew_full row = path" "ew_bytes row = length c"
    and "ew_digest row = (let h = sg_sha256 (bk_storage bk) c in if h = [] then None else Some (take 12 h))"
  shows "gives_file (wire bk mos) (sg_sha256 (bk_storage bk)) br slug row st"
proof -
  have "site_by_slug (st_db st) slug \<noteq> None" using assms(6) by (auto simp: backend_view_def)
  then have "validate_slug slug = Inr slug" using assms(1) volume_okD(7) by (auto simp: reads_def)
  note slug = slug_url_chars [OF this assms(4)]
  note urls = site_urls [OF slug(2)]
  obtain url where url: "download_url slug path = Some url" using urls(4) assms(5) by blast
  obtain d where d: "attachment (path_name path) = Inr d" using assms(5) by (rule attachment_name)
  obtain x st' where x: "client_call (wire bk mos) None (Some token) (R_DownloadFile slug path) st = (x, st')" by (metis prod.collapse)
  have u: "hc_path (client_http (R_DownloadFile slug path)) \<noteq> None" using urls(3) assms(5) by blast
  obtain r where r: "x = (case r of Inr a \<Rightarrow> Inr a | Inl e \<Rightarrow> Inl (BackendError (fst (error_answer e)) (snd (error_answer e))))"
    "outlined r = fst (spec (rules_of bk) (R_DownloadFile slug path) (backend_view st))"
    using session_read [OF assms(1,2) _ _ u x] by auto
  have "\<exists>t. outlined r = O_Content c t d"
    using r(2) assms(5-7) d valid_path_canonical [OF assms(5)] by (simp add: spec_target_def)
  then have "\<exists>t. x = Inr (Content c t d)" using r(1) by (cases r; cases "projr r") auto
  then show ?thesis
    using x d download_url_read [OF slug(1,3) url] url assms(3,8-10)
    by (auto simp: gives_file_def download_route_answer_def Let_def)
qed


end
