(* ===== verification/Roundtrip_Instances.thy ===== *)
theory Roundtrip_Instances
  imports Mcp_Roundtrip Mcp_Instances Equivalence Frontend_Instances Frontend_Links
begin

text \<open>The theorems of \<open>Site_Requests\<close>, \<open>Mcp_Roundtrip\<close> and \<open>Frontend_Links\<close> at a concrete backend with two sites.\<close>

definition agent_db :: database where
  "agent_db = (st_db two_sites)\<lparr>db_users := db_users (st_db sample_mcp_world), db_tokens := db_tokens (st_db sample_mcp_world)\<rparr>"

definition agent_world :: state where
  "agent_world = two_sites\<lparr>st_db := agent_db\<rparr>"

lemma agent_world_ok: "volume_ok (bk_storage sample_backend) agent_world" "accounts_ok (st_db agent_world)"
proof -
  have "db_ok agent_db" by code_simp
  moreover have "db_sites agent_db = db_sites (st_db two_sites)" "db_files agent_db = db_files (st_db two_sites)"
    by (simp_all add: agent_db_def)
  ultimately show "volume_ok (bk_storage sample_backend) agent_world"
    unfolding agent_world_def by (rule volume_ok_accounts(1) [OF two_sites_ok])
  show "accounts_ok (st_db agent_world)" by code_simp
qed

lemma agent_world_caller:
  "caller (bk_accounts sample_backend) 50 (Some (bearer_header (tc_bearer sample_context))) (st_db agent_world) =
     Some (AGENT, REMOVE_DESTRUCTIVE, lit ''usr_0'')"
  by code_simp

theorem request_refines_contract_witness:
  "outlined (fst (handle sample_backend sample_moment agent_header (R_DeleteSite (lit ''docs'') (Some (lit ''docs''))) agent_world)) = O_Done
   \<and> backend_view (snd (handle sample_backend sample_moment agent_header (R_DeleteSite (lit ''docs'') (Some (lit ''docs''))) agent_world)) (lit ''docs'') = None"
proof -
  let ?rq = "R_DeleteSite (lit ''docs'') (Some (lit ''docs''))"
  let ?h = "handle sample_backend sample_moment agent_header ?rq agent_world"
  have quiet: "undisturbed sample_moment ?rq" using sample_put_quiet(2) by simp
  have "?h = (fst ?h, snd ?h)" by simp
  from request_refines_contract [OF agent_world_ok _ quiet this]
  have r: "(outlined (fst ?h), backend_view (snd ?h)) =
      request_spec sample_backend sample_moment agent_header ?rq (st_db agent_world) (backend_view agent_world)" by simp
  have n: "header_refusal sample_backend (mo_auth_now sample_moment) agent_header (access_of ?rq) (st_db agent_world) = None"
    unfolding header_refusal_def caller_def agent_parse by code_simp
  have v: "backend_view agent_world (lit ''docs'') \<noteq> None"
    unfolding backend_view_None by code_simp
  from r n v show ?thesis by (auto simp: request_spec_def)
qed

theorem mcp_round_trip_witness:
  "\<exists>d st2. dispatch (wire sample_backend (\<lambda>_. later_moment)) tool_specs (lit ''download_file'') (download_args (lit ''docs'') (lit ''a/b''))
       sample_context READ_ONLY
       (snd (dispatch (wire sample_backend (\<lambda>_. sample_moment)) tool_specs (lit ''upload_file'')
          (upload_args (lit ''docs'') (lit ''a/b'') (lit ''BwgJ'') False) sample_context READ_WRITE agent_world)) = (Inr (O_Download d), st2)
     \<and> decode_content (do_content_base64 d) = Inr [7, 8, 9] \<and> do_path d = lit ''a/b''"
proof -
  let ?up = "dispatch (wire sample_backend (\<lambda>_. sample_moment)) tool_specs (lit ''upload_file'')
          (upload_args (lit ''docs'') (lit ''a/b'') (lit ''BwgJ'') False) sample_context READ_WRITE agent_world"
  let ?u = "\<lparr>ur_path = lit ''a/b'', ur_bytes = 3, ur_sha256 = [7, 8, 9], ur_replaced = False\<rparr>"
  have "fst ?up = Inr (O_Upload ?u)" by code_simp
  then have up: "?up = (Inr (O_Upload ?u), snd ?up)" by (metis prod.collapse)
  have b: "decode_content (lit ''BwgJ'') = Inr [7, 8, 9]" by code_simp
  have cap: "tc_max_file_bytes sample_context < 10 ^ Suc 0" by (simp add: sample_context_def)
  have calm: "\<forall>rq::request. calm (mo_env ((\<lambda>_. sample_moment) rq))" "\<forall>rq::request. calm (mo_env ((\<lambda>_. later_moment) rq))"
    using sample_put_quiet(2) by (simp_all add: later_moment_def)
  from mcp_round_trip [OF agent_world_ok calm agent_world_caller cap _ up, of READ_ONLY] b show ?thesis by auto
qed

section \<open>A person's session\<close>

definition session_db :: database where
  "session_db = (st_db two_sites)\<lparr>db_users := db_users (st_db sample_world), db_tokens := db_tokens (st_db sample_world)\<rparr>"

definition session_world :: state where
  "session_world = snd (handle sample_backend sample_moment session_header sample_put (two_sites\<lparr>st_db := session_db\<rparr>))"

lemma session_world_reads: "reads sample_backend 50 (lit ''pb_B'') session_world"
proof -
  have "db_ok session_db" by code_simp
  moreover have "db_sites session_db = db_sites (st_db two_sites)" "db_files session_db = db_files (st_db two_sites)"
    by (simp_all add: session_db_def)
  ultimately have "volume_ok (bk_storage sample_backend) (two_sites\<lparr>st_db := session_db\<rparr>)"
    by (rule volume_ok_accounts(1) [OF two_sites_ok])
  moreover have "accounts_ok (st_db (two_sites\<lparr>st_db := session_db\<rparr>))" by code_simp
  moreover have "site_request sample_put" by simp
  ultimately have "volume_ok (bk_storage sample_backend) session_world" "accounts_ok (st_db session_world)"
    unfolding session_world_def using handle_site_request(2,3) [OF _ _ _ sample_put_quiet(1) prod.collapse [symmetric]] by blast+
  moreover have "caller (bk_accounts sample_backend) 50 (Some (bearer_header (lit ''pb_B''))) (st_db session_world) =
      Some (SESSION, SESSION_SCOPE, lit ''usr_0'')" by code_simp
  ultimately show ?thesis by (simp add: reads_def)
qed

abbreviation session_page :: page_context where
  "session_page \<equiv> \<lparr>pc_token = lit ''pb_B'', pc_wanted = [slash]\<rparr>"

definition signed_in :: browser where
  "signed_in = sample_browser\<lparr>br_token := Some (lit ''pb_B'')\<rparr>"


end
