(* ===== verification/Index_Healing.thy ===== *)
theory Index_Healing
  imports Real_Listing Request_Instances
begin

text \<open>
  A listing reconciles the index of its folder with the disk (\<open>Storage.list_folder\<close>): files that were put there,
  changed or removed by hand are picked up.  Nothing is assumed here of how the tree came about; a name the
  operating system can give has no slash and is not empty.
\<close>

text \<open>The row a listing leaves for a path, from the row there was and the entry there is.\<close>

definition fresh_row :: "storage \<Rightarrow> ustring \<Rightarrow> ustring \<Rightarrow> octets \<Rightarrow> time \<Rightarrow> file_row" where
  "fresh_row sg slug path c m =
     \<lparr>f_site = slug, f_path = path, f_bytes = length c, f_mtime_ns = m, f_sha256 = sg_sha256 sg c\<rparr>"

definition in_step :: "octets \<Rightarrow> time \<Rightarrow> file_row option \<Rightarrow> bool" where
  "in_step c m old \<longleftrightarrow> (case old of None \<Rightarrow> False | Some r \<Rightarrow> f_bytes r = length c \<and> f_mtime_ns r = m)"

definition healed_row :: "storage \<Rightarrow> ustring \<Rightarrow> ustring \<Rightarrow> file_row option \<Rightarrow> node option \<Rightarrow> file_row option" where
  "healed_row sg slug path old entry =
     (case entry of Some (Reg c m) \<Rightarrow> if in_step c m old then old else Some (fresh_row sg slug path c m) | _ \<Rightarrow> None)"

lemma list_entries_Reg:
  "list_entries sg slug folder indexed ((name, Reg c m) # es) db =
     (let rel = join_name folder name; old = row_with f_path rel indexed;
          row = (if in_step c m old then the old else fresh_row sg slug rel c m) in
      (case (if in_step c m old then Inr db else upsert_file db row) of Inl e \<Rightarrow> Inl e
       | Inr db1 \<Rightarrow> (case list_entries sg slug folder indexed es db1 of Inl e \<Rightarrow> Inl e
         | Inr (folders, files, seen, db') \<Rightarrow> Inr (folders, row_entry sg name row # files, rel # seen, db'))))"
  unfolding fresh_row_def in_step_def by (simp add: Let_def split: option.split)

abbreviation reg_paths :: "ustring \<Rightarrow> (ustring \<times> node) list \<Rightarrow> ustring list" where
  "reg_paths folder es \<equiv> map (\<lambda>e. join_name folder (fst e)) (filter is_reg es)"

lemma list_entries_rows:
  assumes "list_entries sg slug folder indexed es db = Inr (folders, files, seen, db')" "distinct (map fst es)" "db_ok db"
  shows "db_ok db' \<and> seen = reg_paths folder es
    \<and> (\<forall>s p. s \<noteq> slug \<or> p \<notin> set (reg_paths folder es) \<longrightarrow> file_row_at db' s p = file_row_at db s p)
    \<and> (\<forall>name c m. (name, Reg c m) \<in> set es \<longrightarrow> (let rel = join_name folder name in
         file_row_at db' slug rel = (if in_step c m (row_with f_path rel indexed) then file_row_at db slug rel
           else Some (fresh_row sg slug rel c m))))"
  using assms
proof (induction es arbitrary: folders files seen db)
  case (Cons e es)
  obtain name n where e: "e = (name, n)" by fastforce
  have d: "distinct (map fst es)" "name \<notin> fst ` set es" using Cons.prems(2) e by auto
  show ?case
  proof (cases "is_reg e")
    case False
    obtain fo where r: "list_entries sg slug folder indexed es db = Inr (fo, files, seen, db')"
      using Cons.prems(1) False by (cases n) (auto simp: e split: sum.splits)
    from Cons.IH [OF r d(1) Cons.prems(3)] show ?thesis using False e by auto
  next
    case True
    then obtain c m where n: "n = Reg c m" by (cases n) (auto simp: e)
    let ?rel = "join_name folder name"
    let ?old = "row_with f_path ?rel indexed" and ?fresh = "fresh_row sg slug ?rel c m"
    obtain db1 fo fi se where r: "(if in_step c m ?old then Inr db else upsert_file db ?fresh) = Inr db1"
      "list_entries sg slug folder indexed es db1 = Inr (fo, fi, se, db')" "seen = ?rel # se"
      using Cons.prems(1) by (auto simp: e n list_entries_Reg Let_def simp del: list_entries.simps split: sum.splits if_splits)
    have ok: "db_ok db1" using r(1) Cons.prems(3) upsert_file_ok by (auto split: if_splits)
    have row: "file_row_at db1 s p = (if s = slug \<and> p = ?rel \<and> \<not> in_step c m ?old then Some ?fresh else file_row_at db s p)" for s p
      using r(1) file_row_at_upsert [of db ?fresh db1 s p] by (auto simp: fresh_row_def split: if_splits)
    have notin: "?rel \<notin> set (reg_paths folder es)" using d(2) by (auto simp: join_name_inj image_iff)
    from Cons.IH [OF r(2) d(1) ok] have ih: "db_ok db'" "se = reg_paths folder es"
      "\<And>s p. s \<noteq> slug \<or> p \<notin> set (reg_paths folder es) \<Longrightarrow> file_row_at db' s p = file_row_at db1 s p"
      "\<And>name c m. (name, Reg c m) \<in> set es \<Longrightarrow> file_row_at db' slug (join_name folder name) =
         (if in_step c m (row_with f_path (join_name folder name) indexed) then file_row_at db1 slug (join_name folder name)
          else Some (fresh_row sg slug (join_name folder name) c m))"
      by (simp_all add: Let_def)
    have "file_row_at db' slug ?rel = (if in_step c m ?old then file_row_at db slug ?rel else Some ?fresh)"
      using ih(3) [of slug ?rel] notin row [of slug ?rel] by simp
    moreover have "file_row_at db1 slug (join_name folder x) = file_row_at db slug (join_name folder x)" if "(x, k) \<in> set es" for x k
      using row [of slug "join_name folder x"] d(2) that by (force simp: join_name_inj)
    moreover have "file_row_at db' s p = file_row_at db s p" if "s \<noteq> slug \<or> p \<notin> set (reg_paths folder (e # es))" for s p
      using ih(3) [of s p] row [of s p] that True e by auto
    ultimately show ?thesis using ih(1,2,4) r(3) True e n by (auto simp: Let_def)
  qed
qed simp

lemma file_row_at_drop:
  assumes "db_ok db"
  shows "db_ok (fold (\<lambda>p db. delete_file_row db slug p) ps db)
    \<and> file_row_at (fold (\<lambda>p db. delete_file_row db slug p) ps db) s p =
        (if s = slug \<and> p \<in> set ps then None else file_row_at db s p)"
  using assms
proof (induction ps arbitrary: db)
  case (Cons q ps)
  from Cons.IH [OF delete_file_row_ok [OF Cons.prems]] file_row_at_delete(1) [OF Cons.prems, of slug q s p]
  show ?case by auto
qed simp

lemma indexed_is_row:
  assumes "db_ok db" "directly_in folder p"
  shows "row_with f_path p (files_in_folder db slug folder) = file_row_at db slug p"
proof -
  let ?rows = "filter (\<lambda>f. f_site f = slug \<and> directly_in folder (f_path f)) (db_files db)"
  have d: "distinct (map file_key (db_files db))" using assms(1) by (rule db_okD)
  then have "distinct (map f_path (sort_key f_path ?rows))" by (auto simp: distinct_map inj_on_def)
  then have "row_with f_path p (files_in_folder db slug folder) = Some r \<longleftrightarrow> file_row_at db slug p = Some r" for r
    using assms(2) by (auto simp: files_in_folder_def file_row_at_def row_with_iff [OF d] row_with_iff)
  then show ?thesis by (metis not_None_eq)
qed

lemma list_folder_rows:
  fixes slug folder
  assumes "db_ok (st_db st)" "list_folder sg slug folder st = (Inr l, st')"
    and "what_at (st_sites st) (slug # segments_of folder) = A_Folder"
  defines "es \<equiv> entries_at (st_sites st) (slug # segments_of folder)"
  assumes names: "distinct (map fst es)" "\<forall>name\<in>fst ` set es. slash \<notin> set name"
  shows "db_ok (st_db st')"
    and "slash \<notin> set name \<Longrightarrow> file_row_at (st_db st') slug (join_name folder name) =
      healed_row sg slug (join_name folder name) (file_row_at (st_db st) slug (join_name folder name)) (map_of es name)"
    and "s \<noteq> slug \<or> \<not> directly_in folder p \<Longrightarrow> file_row_at (st_db st') s p = file_row_at (st_db st) s p"
proof -
  let ?db = "st_db st" and ?indexed = "files_in_folder (st_db st) slug folder"
  have res: "resolve sg (st_sites st) slug folder = Inr (slug # segments_of folder)"
    using assms(2) by (auto simp: list_folder_def dest: resolve_Inr split: sum.splits)
  obtain folders files seen db1 where e: "list_entries sg slug folder ?indexed es ?db = Inr (folders, files, seen, db1)"
    "st_db st' = fold (\<lambda>p db. delete_file_row db slug p) (filter (\<lambda>p. p \<notin> set seen) (map f_path ?indexed)) db1"
    using assms(2,3) by (auto simp: list_folder_def res kind_of_def es_def Let_def split: sum.splits)
  from list_entries_rows [OF e(1) names(1) assms(1)] have r: "db_ok db1" "seen = reg_paths folder es"
    "\<And>s p. s \<noteq> slug \<or> p \<notin> set (reg_paths folder es) \<Longrightarrow> file_row_at db1 s p = file_row_at ?db s p"
    "\<And>name c m. (name, Reg c m) \<in> set es \<Longrightarrow> file_row_at db1 slug (join_name folder name) =
       (if in_step c m (row_with f_path (join_name folder name) ?indexed) then file_row_at ?db slug (join_name folder name)
        else Some (fresh_row sg slug (join_name folder name) c m))"
    by (simp_all add: Let_def)
  note drop = file_row_at_drop [OF r(1), of slug "filter (\<lambda>p. p \<notin> set seen) (map f_path ?indexed)", folded e(2)]
  show "db_ok (st_db st')" using drop by blast
  have direct: "p \<in> set (reg_paths folder es) \<Longrightarrow> directly_in folder p" for p
    using names(2) directly_in_join by auto
  show "file_row_at (st_db st') s p = file_row_at ?db s p" if "s \<noteq> slug \<or> \<not> directly_in folder p"
    using that drop r(3) [of s p] direct [of p] by (auto simp: files_in_folder_def)
  show "file_row_at (st_db st') slug (join_name folder name) =
      healed_row sg slug (join_name folder name) (file_row_at ?db slug (join_name folder name)) (map_of es name)"
    if "slash \<notin> set name"
  proof -
    let ?p = "join_name folder name"
    have dir: "directly_in folder ?p" by (rule directly_in_join [OF that])
    have old: "row_with f_path ?p ?indexed = file_row_at ?db slug ?p" by (rule indexed_is_row [OF assms(1) dir])
    have seen: "?p \<in> set seen \<longleftrightarrow> (\<exists>c m. map_of es name = Some (Reg c m))"
    proof -
      have "?p \<in> set seen \<longleftrightarrow> (\<exists>n. (name, n) \<in> set es \<and> is_reg (name, n))" unfolding r(2) by (force simp: join_name_inj)
      also have "\<dots> \<longleftrightarrow> (\<exists>n. map_of es name = Some n \<and> is_reg (name, n))" using names(1) by simp
      also have "\<dots> \<longleftrightarrow> (\<exists>c m. map_of es name = Some (Reg c m))" by (auto elim: is_reg.elims)
      finally show ?thesis .
    qed
    show ?thesis
    proof (cases "?p \<in> set seen")
      case True
      then obtain c m where cm: "map_of es name = Some (Reg c m)" using seen by blast
      then have "(name, Reg c m) \<in> set es" by (rule map_of_SomeD)
      from r(4) [OF this] show ?thesis using drop True cm by (simp add: healed_row_def old)
    next
      case False
      have "file_row_at db1 slug ?p = file_row_at ?db slug ?p" using r(3) [of slug ?p] False r(2) by blast
      moreover have "file_row_at ?db slug ?p = None \<or> ?p \<in> set (map f_path ?indexed)"
        using old row_with_None [of f_path ?p ?indexed] by auto
      moreover have "healed_row sg slug ?p (file_row_at ?db slug ?p) (map_of es name) = None"
        using False seen by (auto simp: healed_row_def split: option.split node.split)
      ultimately show ?thesis using drop False by auto
    qed
  qed
qed


text \<open>A file that went and one that came, behind the backend's back.\<close>

definition drifted :: state where
  "drifted = sample_world\<lparr>st_sites := insert_at 9 [lit ''docs'', lit ''a'', lit ''c''] (Reg [5] 8)
     (remove_at 9 [lit ''docs'', lit ''a'', lit ''b''] (st_sites sample_world))\<rparr>"


end
