(* ===== verification/Site_Locks.thy ===== *)
theory Site_Locks
  imports Prelude
begin

text \<open>
  The per-site locks of \<open>src/paper_boxing/backend/storage.py\<close>: \<open>SiteLocks\<close> hands out one
  \<open>asyncio.Lock\<close> per site and drops it when nobody holds or awaits it.  An entry is an object that
  tasks keep a reference to while the table may forget it, so entries live in a heap and the table
  maps a slug to an address.  A step is what one task does between two awaits.  The theory shows
  that dropping entries never breaks the exclusion, that the table holds exactly the sites in use,
  and that the waiting requests are served in order and all come through.
\<close>

section \<open>The state\<close>

type_synonym task = nat

text \<open>\<open>_LockEntry\<close> with the lock inside it: its flag and its queue of waiting tasks.\<close>

record lock_entry =
  le_locked :: bool
  le_waiters :: "task list"
  le_waiting :: nat

datatype phase = Outside | Awaiting ustring nat | Inside ustring nat

record site_locks =
  lk_entries :: "ustring \<Rightarrow> nat option"
  lk_heap :: "nat \<Rightarrow> lock_entry"
  lk_next :: nat
  lk_phase :: "task \<Rightarrow> phase"

definition no_locks :: site_locks where
  "no_locks = \<lparr>lk_entries = (\<lambda>_. None), lk_heap = (\<lambda>_. \<lparr>le_locked = False, le_waiters = [], le_waiting = 0\<rparr>),
     lk_next = 0, lk_phase = (\<lambda>_. Outside)\<rparr>"

section \<open>The steps of \<open>hold\<close>\<close>

text \<open>The entry of a slug, made when there is none.\<close>

definition entry_for :: "ustring \<Rightarrow> site_locks \<Rightarrow> nat \<times> site_locks" where
  "entry_for slug lk =
     (case lk_entries lk slug of
        Some i \<Rightarrow> (i, lk)
      | None \<Rightarrow>
          let i = lk_next lk in
          (i, lk\<lparr>lk_entries := (lk_entries lk)(slug \<mapsto> i),
                 lk_heap := (lk_heap lk)(i := \<lparr>le_locked = False, le_waiters = [], le_waiting = 0\<rparr>),
                 lk_next := Suc i\<rparr>))"

text \<open>
  A task reaches \<open>async with\<close>: it is counted, and takes the lock at once when it is free and nobody
  waits, or queues.
\<close>

definition enter :: "task \<Rightarrow> ustring \<Rightarrow> site_locks \<Rightarrow> site_locks" where
  "enter t slug lk0 =
     (let (i, lk) = entry_for slug lk0; e = lk_heap lk i in
      if \<not> le_locked e \<and> le_waiters e = []
      then lk\<lparr>lk_heap := (lk_heap lk)(i := e\<lparr>le_waiting := Suc (le_waiting e), le_locked := True\<rparr>),
              lk_phase := (lk_phase lk)(t := Inside slug i)\<rparr>
      else lk\<lparr>lk_heap := (lk_heap lk)(i := e\<lparr>le_waiting := Suc (le_waiting e), le_waiters := le_waiters e @ [t]\<rparr>),
              lk_phase := (lk_phase lk)(t := Awaiting slug i)\<rparr>)"

text \<open>The first waiting task wakes up and takes the lock.\<close>

definition grant :: "task \<Rightarrow> ustring \<Rightarrow> nat \<Rightarrow> site_locks \<Rightarrow> site_locks" where
  "grant t slug i lk =
     (let e = lk_heap lk i in
      lk\<lparr>lk_heap := (lk_heap lk)(i := e\<lparr>le_locked := True, le_waiters := remove1 t (le_waiters e)\<rparr>),
         lk_phase := (lk_phase lk)(t := Inside slug i)\<rparr>)"

text \<open>The \<open>finally\<close> clause: the count goes down, and an entry nobody uses is dropped.\<close>

definition uncount :: "ustring \<Rightarrow> nat \<Rightarrow> site_locks \<Rightarrow> site_locks" where
  "uncount slug i lk =
     (let e = lk_heap lk i; n = le_waiting e - 1 in
      lk\<lparr>lk_heap := (lk_heap lk)(i := e\<lparr>le_waiting := n\<rparr>),
         lk_entries := (if n = 0 \<and> lk_entries lk slug = Some i then (lk_entries lk)(slug := None) else lk_entries lk)\<rparr>)"

text \<open>The holder leaves: the lock is released, then the clause runs.\<close>

definition leave :: "task \<Rightarrow> ustring \<Rightarrow> nat \<Rightarrow> site_locks \<Rightarrow> site_locks" where
  "leave t slug i lk =
     uncount slug i (lk\<lparr>lk_heap := (lk_heap lk)(i := (lk_heap lk i)\<lparr>le_locked := False\<rparr>),
                        lk_phase := (lk_phase lk)(t := Outside)\<rparr>)"

text \<open>A waiting task is cancelled: it leaves the queue, then the clause runs.\<close>

definition give_up :: "task \<Rightarrow> ustring \<Rightarrow> nat \<Rightarrow> site_locks \<Rightarrow> site_locks" where
  "give_up t slug i lk =
     uncount slug i (lk\<lparr>lk_heap := (lk_heap lk)(i := (lk_heap lk i)\<lparr>le_waiters := remove1 t (le_waiters (lk_heap lk i))\<rparr>),
                        lk_phase := (lk_phase lk)(t := Outside)\<rparr>)"

definition is_locked :: "ustring \<Rightarrow> site_locks \<Rightarrow> bool" where
  "is_locked slug lk = (case lk_entries lk slug of None \<Rightarrow> False | Some i \<Rightarrow> le_locked (lk_heap lk i))"

text \<open>The moves of the tasks, by what they do.\<close>

datatype lock_move = Enters task ustring | Gets task | Leaves task | Cancels task

inductive lock_step :: "site_locks \<Rightarrow> lock_move \<Rightarrow> site_locks \<Rightarrow> bool" where
  Enters: "lk_phase lk t = Outside \<Longrightarrow> lock_step lk (Enters t slug) (enter t slug lk)"
| Gets: "lk_phase lk t = Awaiting slug i \<Longrightarrow> \<not> le_locked (lk_heap lk i) \<Longrightarrow> le_waiters (lk_heap lk i) = t # ts \<Longrightarrow>
    lock_step lk (Gets t) (grant t slug i lk)"
| Leaves: "lk_phase lk t = Inside slug i \<Longrightarrow> lock_step lk (Leaves t) (leave t slug i lk)"
| Cancels: "lk_phase lk t = Awaiting slug i \<Longrightarrow> lock_step lk (Cancels t) (give_up t slug i lk)"

inductive_cases lock_stepE: "lock_step lk m lk'"

inductive lock_run :: "site_locks \<Rightarrow> lock_move list \<Rightarrow> site_locks \<Rightarrow> bool" where
  Done: "lock_run lk [] lk"
| Step: "lock_step lk m lk' \<Longrightarrow> lock_run lk' ms lk'' \<Longrightarrow> lock_run lk (m # ms) lk''"

inductive_cases lock_run_NilE: "lock_run lk [] lk'"
inductive_cases lock_run_ConsE: "lock_run lk (m # ms) lk'"

section \<open>The invariant\<close>

text \<open>The tasks that use an entry, waiting or inside.\<close>

definition awaits :: "site_locks \<Rightarrow> ustring \<Rightarrow> nat \<Rightarrow> task set" where
  "awaits lk slug i = {t. lk_phase lk t = Awaiting slug i}"

definition inside :: "site_locks \<Rightarrow> ustring \<Rightarrow> nat \<Rightarrow> task set" where
  "inside lk slug i = {t. lk_phase lk t = Inside slug i}"

text \<open>
  Every task that uses a site uses the entry the table has for it; the entry's queue is the waiting
  tasks, its flag says whether a task is inside, there is at most one, and its counter is positive
  and counts them all.
\<close>

definition entry_ok :: "site_locks \<Rightarrow> ustring \<Rightarrow> nat \<Rightarrow> bool" where
  "entry_ok lk slug i \<longleftrightarrow>
     (let e = lk_heap lk i in
      i < lk_next lk \<and> distinct (le_waiters e) \<and> set (le_waiters e) = awaits lk slug i
      \<and> (if le_locked e then \<exists>t. inside lk slug i = {t} else inside lk slug i = {})
      \<and> le_waiting e = length (le_waiters e) + (if le_locked e then 1 else 0) \<and> 0 < le_waiting e)"

definition locks_ok :: "site_locks \<Rightarrow> bool" where
  "locks_ok lk \<longleftrightarrow>
     (\<forall>t slug i. lk_phase lk t = Awaiting slug i \<or> lk_phase lk t = Inside slug i \<longrightarrow> lk_entries lk slug = Some i)
     \<and> (\<forall>slug slug' i. lk_entries lk slug = Some i \<longrightarrow> lk_entries lk slug' = Some i \<longrightarrow> slug = slug')
     \<and> (\<forall>slug i. lk_entries lk slug = Some i \<longrightarrow> entry_ok lk slug i)"

lemma locks_okD:
  assumes "locks_ok lk"
  shows "lk_phase lk t = Awaiting slug i \<Longrightarrow> lk_entries lk slug = Some i"
    "lk_phase lk t = Inside slug i \<Longrightarrow> lk_entries lk slug = Some i"
    "lk_entries lk slug = Some i \<Longrightarrow> lk_entries lk slug' = Some i \<Longrightarrow> slug = slug'"
    "lk_entries lk slug = Some i \<Longrightarrow> entry_ok lk slug i"
  using assms by (auto simp: locks_ok_def)


lemma entry_ok_frame:
  assumes "entry_ok lk slug i" "lk_heap lk' i = lk_heap lk i" "lk_next lk \<le> lk_next lk'"
    "awaits lk' slug i = awaits lk slug i" "inside lk' slug i = inside lk slug i"
  shows "entry_ok lk' slug i"
  using assms unfolding entry_ok_def Let_def by auto

text \<open>The sets after one task's phase has changed.\<close>

lemma phase_sets:
  assumes "lk_phase lk' = (lk_phase lk)(t := p)"
  shows "awaits lk' slug i = (if p = Awaiting slug i then insert t (awaits lk slug i) else awaits lk slug i - {t})"
    "inside lk' slug i = (if p = Inside slug i then insert t (inside lk slug i) else inside lk slug i - {t})"
  using assms by (auto simp: awaits_def inside_def)

lemma no_locks_ok: "locks_ok no_locks"
  by (simp add: locks_ok_def no_locks_def)

text \<open>
  One move changes the entry of one site: what is left to show of it is its own entry, or that it
  went with its last user.
\<close>

lemma locks_ok_move:
  assumes "locks_ok lk" "lk_phase lk' = (lk_phase lk)(t := p)"
    "lk_phase lk t = Awaiting slug i \<or> lk_phase lk t = Inside slug i \<or> lk_phase lk t = Outside"
    "p = Awaiting slug i \<or> p = Inside slug i \<or> p = Outside"
    "\<And>j. j \<noteq> i \<Longrightarrow> j < lk_next lk \<Longrightarrow> lk_heap lk' j = lk_heap lk j" "lk_next lk \<le> lk_next lk'"
    "\<And>s. s \<noteq> slug \<Longrightarrow> lk_entries lk' s = lk_entries lk s" "\<And>s. s \<noteq> slug \<Longrightarrow> lk_entries lk s \<noteq> Some i"
    "lk_entries lk slug = Some i \<or> (lk_entries lk slug = None)"
    "if lk_entries lk' slug = Some i then entry_ok lk' slug i
     else lk_entries lk' slug = None \<and> awaits lk' slug i = {} \<and> inside lk' slug i = {}"
  shows "locks_ok lk'"
proof -
  have phases: "lk_phase lk' u = Awaiting s j \<or> lk_phase lk' u = Inside s j \<Longrightarrow> lk_entries lk' s = Some j" for u s j
  proof -
    assume u: "lk_phase lk' u = Awaiting s j \<or> lk_phase lk' u = Inside s j"
    show "lk_entries lk' s = Some j"
    proof (cases "s = slug")
      case True
      have "j = i"
        using u assms(2,4,9) True locks_okD(1,2) [OF assms(1), of u s j] by (cases "u = t") auto
      with u True assms(10) show ?thesis by (auto simp: awaits_def inside_def split: if_splits)
    next
      case False
      then have "u \<noteq> t" using u assms(2,4) by auto
      then show ?thesis using u assms(2) assms(7) [OF False] locks_okD(1,2) [OF assms(1), of u s j] by auto
    qed
  qed
  have "s = s'" if "lk_entries lk' s = Some j" "lk_entries lk' s' = Some j" for s s' j
  proof -
    have "lk_entries lk' slug = Some j \<Longrightarrow> j = i" using assms(10) by (auto split: if_splits)
    then show ?thesis using that assms(7,8) locks_okD(3) [OF assms(1), of s j s']
      by (cases "s = slug"; cases "s' = slug") auto
  qed
  moreover have "entry_ok lk' s j" if "lk_entries lk' s = Some j" for s j
  proof (cases "s = slug")
    case True
    then show ?thesis using that assms(10) by (auto split: if_splits)
  next
    case False
    then have e: "lk_entries lk s = Some j" "j \<noteq> i" using that assms(7,8) by auto
    have ok: "entry_ok lk s j" by (rule locks_okD(4) [OF assms(1) e(1)])
    then have "j < lk_next lk" by (simp add: entry_ok_def Let_def)
    moreover have "awaits lk' s j = awaits lk s j" "inside lk' s j = inside lk s j"
      using phase_sets [OF assms(2), of s j] assms(3,4) False by (auto simp: awaits_def inside_def)
    ultimately show ?thesis using entry_ok_frame [OF ok] assms(5) [of j] assms(6) e(2) by simp
  qed
  ultimately show ?thesis using phases unfolding locks_ok_def by blast
qed

lemma enter_ok:
  assumes "locks_ok lk" "lk_phase lk t = Outside"
  shows "locks_ok (enter t slug lk)"
proof -
  obtain i lk1 where f: "entry_for slug lk = (i, lk1)" by fastforce
  have out: "t \<notin> awaits lk s j" "t \<notin> inside lk s j" for s j using assms(2) by (simp_all add: awaits_def inside_def)
  show ?thesis
  proof (cases "lk_entries lk slug")
    case (Some j)
    then have e: "i = j" "lk1 = lk" using f by (simp_all add: entry_for_def)
    note ok = locks_okD(4) [OF assms(1) Some]
    have other: "s \<noteq> slug \<Longrightarrow> lk_entries lk s \<noteq> Some j" for s using locks_okD(3) [OF assms(1) Some, of s] by auto
    show ?thesis
    proof (cases "\<not> le_locked (lk_heap lk j) \<and> le_waiters (lk_heap lk j) = []")
      case True
      show ?thesis
        by (rule locks_ok_move [OF assms(1), where t = t and p = "Inside slug j" and slug = slug and i = j])
          (use True ok f e Some assms(2) other out in
            \<open>auto simp: enter_def Let_def entry_ok_def phase_sets [of _ lk t "Inside slug j"]\<close>)
    next
      case False
      show ?thesis
        by (rule locks_ok_move [OF assms(1), where t = t and p = "Awaiting slug j" and slug = slug and i = j])
          (use False ok f e Some assms(2) other out in
            \<open>auto simp: enter_def Let_def entry_ok_def phase_sets [of _ lk t "Awaiting slug j"]\<close>)
    qed
  next
    case None
    have fresh: "lk_entries lk s \<noteq> Some (lk_next lk)" for s
      using locks_okD(4) [OF assms(1), of s "lk_next lk"] by (auto simp: entry_ok_def Let_def)
    have unused: "awaits lk slug (lk_next lk) = {}" "inside lk slug (lk_next lk) = {}"
      using locks_okD(1,2) [OF assms(1)] None by (auto simp: awaits_def inside_def)
    show ?thesis
      by (rule locks_ok_move [OF assms(1), where t = t and p = "Inside slug (lk_next lk)" and slug = slug and i = "lk_next lk"])
        (use None f assms(2) fresh unused in
          \<open>auto simp: enter_def entry_for_def Let_def entry_ok_def phase_sets [of _ lk t "Inside slug (lk_next lk)"]\<close>)
  qed
qed


text \<open>What the clause leaves, once the task has gone from its entry.\<close>

lemma uncount_simps [simp]:
  "lk_phase (uncount slug i lk) = lk_phase lk" "lk_next (uncount slug i lk) = lk_next lk"
  "lk_heap (uncount slug i lk) = (lk_heap lk)(i := (lk_heap lk i)\<lparr>le_waiting := le_waiting (lk_heap lk i) - 1\<rparr>)"
  "lk_entries (uncount slug i lk) =
     (if le_waiting (lk_heap lk i) - 1 = 0 \<and> lk_entries lk slug = Some i then (lk_entries lk)(slug := None) else lk_entries lk)"
  by (simp_all add: uncount_def Let_def)

lemma leave_ok:
  assumes "locks_ok lk" "lk_phase lk t = Inside slug i"
  shows "locks_ok (leave t slug i lk)"
proof -
  note entry = locks_okD(2) [OF assms] 
  note ok = locks_okD(4) [OF assms(1) entry]
  have other: "s \<noteq> slug \<Longrightarrow> lk_entries lk s \<noteq> Some i" for s using locks_okD(3) [OF assms(1) entry, of s] by auto
  have t: "t \<in> inside lk slug i" "t \<notin> awaits lk slug i" using assms(2) by (simp_all add: inside_def awaits_def)
  then have alone: "le_locked (lk_heap lk i)" "inside lk slug i = {t}"
    using ok by (auto simp: entry_ok_def Let_def split: if_splits)
  show ?thesis
    by (rule locks_ok_move [OF assms(1), where t = t and p = Outside and slug = slug and i = i])
      (use ok entry assms(2) other t alone in
        \<open>auto simp: leave_def Let_def entry_ok_def phase_sets [of _ lk t Outside]\<close>)
qed

lemma give_up_ok:
  assumes "locks_ok lk" "lk_phase lk t = Awaiting slug i"
  shows "locks_ok (give_up t slug i lk)"
proof -
  note entry = locks_okD(1) [OF assms]
  note ok = locks_okD(4) [OF assms(1) entry]
  have other: "s \<noteq> slug \<Longrightarrow> lk_entries lk s \<noteq> Some i" for s using locks_okD(3) [OF assms(1) entry, of s] by auto
  have t: "t \<in> awaits lk slug i" "t \<notin> inside lk slug i" using assms(2) by (simp_all add: inside_def awaits_def)
  then have w: "t \<in> set (le_waiters (lk_heap lk i))" using ok by (simp add: entry_ok_def Let_def)
  then have len: "length (le_waiters (lk_heap lk i)) = Suc (length (remove1 t (le_waiters (lk_heap lk i))))"
    using length_pos_if_in_set [OF w] by (simp add: length_remove1)
  have rest: "set (remove1 t (le_waiters (lk_heap lk i))) = awaits lk slug i - {t}"
    using ok by (simp add: entry_ok_def Let_def set_remove1_eq)
  have "remove1 t (le_waiters (lk_heap lk i)) = [] \<Longrightarrow> awaits lk slug i - {t} = {}" using rest by simp
  then show ?thesis
    by (intro locks_ok_move [OF assms(1), where t = t and p = Outside and slug = slug and i = i])
      (use ok entry assms(2) other t len rest in
        \<open>auto simp: give_up_def Let_def entry_ok_def phase_sets [of _ lk t Outside] split: if_splits\<close>)
qed

lemma grant_ok:
  assumes "locks_ok lk" "lk_phase lk t = Awaiting slug i" "\<not> le_locked (lk_heap lk i)" "le_waiters (lk_heap lk i) = t # ts"
  shows "locks_ok (grant t slug i lk)"
proof -
  note entry = locks_okD(1) [OF assms(1,2)]
  note ok = locks_okD(4) [OF assms(1) entry]
  have other: "s \<noteq> slug \<Longrightarrow> lk_entries lk s \<noteq> Some i" for s using locks_okD(3) [OF assms(1) entry, of s] by auto
  show ?thesis
    by (rule locks_ok_move [OF assms(1), where t = t and p = "Inside slug i" and slug = slug and i = i])
      (use ok entry assms(2-4) other in
        \<open>auto simp: grant_def Let_def entry_ok_def phase_sets [of _ lk t "Inside slug i"] split: if_splits\<close>)
qed

lemma lock_step_ok: "lock_step lk m lk' \<Longrightarrow> locks_ok lk \<Longrightarrow> locks_ok lk'"
  by (induction rule: lock_step.induct) (auto intro: enter_ok grant_ok leave_ok give_up_ok)

lemma lock_run_ok: "lock_run lk ms lk' \<Longrightarrow> locks_ok lk \<Longrightarrow> locks_ok lk'"
  by (induction rule: lock_run.induct) (auto intro: lock_step_ok)

section \<open>Using up the moves\<close>

definition users :: "site_locks \<Rightarrow> task set" where
  "users lk = {t. lk_phase lk t \<noteq> Outside}"

fun weight :: "phase \<Rightarrow> nat" where
  "weight Outside = 0"
| "weight (Awaiting _ _) = 2"
| "weight (Inside _ _) = 1"

definition work :: "site_locks \<Rightarrow> nat" where
  "work lk = (\<Sum>t\<in>users lk. weight (lk_phase lk t))"

fun arrives :: "lock_move \<Rightarrow> bool" where
  "arrives (Enters _ _) = True"
| "arrives _ = False"

fun cancels :: "lock_move \<Rightarrow> bool" where
  "cancels (Cancels _) = True"
| "cancels _ = False"

lemma step_phase:
  assumes "lock_step lk m lk'"
  shows "\<exists>t p. lk_phase lk' = (lk_phase lk)(t := p) \<and> (\<not> arrives m \<longrightarrow> weight p < weight (lk_phase lk t))"
  using assms
proof cases
  case (Enters t slug)
  obtain i lk1 where f: "entry_for slug lk = (i, lk1)" by fastforce
  then have "lk_phase lk1 = lk_phase lk" by (auto simp: entry_for_def Let_def split: option.splits)
  with f Enters have "\<exists>p. lk_phase lk' = (lk_phase lk)(t := p)" by (auto simp: enter_def Let_def)
  then show ?thesis using Enters by auto
next
  case (Gets t slug i ts)
  then show ?thesis by (intro exI [of _ t] exI [of _ "Inside slug i"]) (simp add: grant_def Let_def)
next
  case (Leaves t slug i)
  then show ?thesis by (intro exI [of _ t] exI [of _ Outside]) (simp add: leave_def)
next
  case (Cancels t slug i)
  then show ?thesis by (intro exI [of _ t] exI [of _ Outside]) (simp add: give_up_def)
qed

lemma finite_users_step: "lock_step lk m lk' \<Longrightarrow> finite (users lk) \<Longrightarrow> finite (users lk')"
proof -
  assume s: "lock_step lk m lk'" and f: "finite (users lk)"
  from step_phase [OF s] obtain t p where "lk_phase lk' = (lk_phase lk)(t := p)" by blast
  then have "users lk' \<subseteq> insert t (users lk)" by (auto simp: users_def)
  then show "finite (users lk')" using f finite_subset by blast
qed

lemma finite_users: "lock_run lk ms lk' \<Longrightarrow> finite (users lk) \<Longrightarrow> finite (users lk')"
  by (induction rule: lock_run.induct) (auto intro: finite_users_step)

lemma step_work:
  assumes "lock_step lk m lk'" "finite (users lk)" "\<not> arrives m"
  shows "work lk' < work lk"
proof -
  obtain t p where p: "lk_phase lk' = (lk_phase lk)(t := p)" "weight p < weight (lk_phase lk t)"
    using step_phase [OF assms(1)] assms(3) by blast
  then have t: "t \<in> users lk" by (cases "lk_phase lk t") (auto simp: users_def)
  then have "users lk' \<subseteq> users lk" using p(1) by (auto simp: users_def)
  then have "work lk' = (\<Sum>u\<in>users lk. weight (lk_phase lk' u))"
    unfolding work_def by (intro sum.mono_neutral_left assms(2)) (auto simp: users_def)
  also have "\<dots> < work lk"
    unfolding work_def
  proof (rule sum_strict_mono_ex1 [OF assms(2)])
    show "\<forall>u\<in>users lk. weight (lk_phase lk' u) \<le> weight (lk_phase lk u)" using p by auto
    show "\<exists>u\<in>users lk. weight (lk_phase lk' u) < weight (lk_phase lk u)" using p t by auto
  qed
  finally show ?thesis .
qed

lemma run_work:
  "lock_run lk ms lk' \<Longrightarrow> finite (users lk) \<Longrightarrow> \<forall>m\<in>set ms. \<not> arrives m \<Longrightarrow> length ms + work lk' \<le> work lk"
proof (induction rule: lock_run.induct)
  case (Step lk m lk' ms lk'')
  then show ?case using finite_users_step [OF Step.hyps(1)] step_work [OF Step.hyps(1)] by fastforce
qed simp

lemma work_bound: "finite (users lk) \<Longrightarrow> work lk \<le> 2 * card (users lk)"
proof -
  assume "finite (users lk)"
  have "weight p \<le> 2" for p by (cases p) auto
  then have "work lk \<le> (\<Sum>t\<in>users lk. 2)" unfolding work_def by (intro sum_mono) simp
  then show ?thesis by simp
qed

text \<open>Somebody can always go on: the holder, or the first of the queue.\<close>

lemma progress:
  assumes "locks_ok lk" "lk_phase lk t \<noteq> Outside"
  shows "\<exists>m lk'. lock_step lk m lk' \<and> \<not> arrives m \<and> \<not> cancels m"
proof (cases "lk_phase lk t")
  case (Inside slug i)
  then show ?thesis using Leaves [OF Inside] by (metis arrives.simps cancels.simps)
next
  case (Awaiting slug i)
  have ok: "entry_ok lk slug i" by (rule locks_okD(4) [OF assms(1) locks_okD(1) [OF assms(1) Awaiting]])
  show ?thesis
  proof (cases "le_locked (lk_heap lk i)")
    case True
    then obtain u where "lk_phase lk u = Inside slug i" using ok by (auto simp: entry_ok_def inside_def Let_def)
    then show ?thesis using Leaves by (metis arrives.simps cancels.simps)
  next
    case False
    have "t \<in> set (le_waiters (lk_heap lk i))" using ok Awaiting by (simp add: entry_ok_def awaits_def Let_def)
    then obtain u us where w: "le_waiters (lk_heap lk i) = u # us" by (cases "le_waiters (lk_heap lk i)") auto
    then have "lk_phase lk u = Awaiting slug i" using ok by (auto simp: entry_ok_def awaits_def Let_def)
    then show ?thesis using Gets [OF _ False w] by (metis arrives.simps cancels.simps)
  qed
qed (use assms(2) in simp)

section \<open>What the locks promise\<close>

text \<open>
  C13. The locks exclude each other per site, although entries come and go: after any sequence of
  moves at most one task is inside a given site, \<open>is_locked\<close> says whether one is, and the table has
  an entry for exactly the sites some task holds or awaits, so it never grows without bound.
\<close>

theorem locks_exclude:
  assumes "lock_run no_locks ms lk"
  shows "(\<forall>slug t u i j. lk_phase lk t = Inside slug i \<longrightarrow> lk_phase lk u = Inside slug j \<longrightarrow> t = u)
    \<and> (\<forall>slug. is_locked slug lk = (\<exists>t i. lk_phase lk t = Inside slug i))
    \<and> (\<forall>slug. (lk_entries lk slug = None) = (\<forall>t i. lk_phase lk t \<noteq> Inside slug i \<and> lk_phase lk t \<noteq> Awaiting slug i))"
proof (intro conjI allI impI)
  have ok: "locks_ok lk" using lock_run_ok [OF assms no_locks_ok] .
  note at = locks_okD(4) [OF ok]
  fix slug
  show "t = u" if "lk_phase lk t = Inside slug i" "lk_phase lk u = Inside slug j" for t u i j
  proof -
    have e: "lk_entries lk slug = Some i" "lk_entries lk slug = Some j"
      using locks_okD(2) [OF ok that(1)] locks_okD(2) [OF ok that(2)] .
    then have "t \<in> inside lk slug i" "u \<in> inside lk slug i" using that by (auto simp: inside_def)
    with at [OF e(1)] show ?thesis by (auto simp: entry_ok_def Let_def split: if_splits)
  qed
  show "is_locked slug lk = (\<exists>t i. lk_phase lk t = Inside slug i)"
  proof (cases "lk_entries lk slug")
    case None
    then show ?thesis using locks_okD(2) [OF ok] by (auto simp: is_locked_def)
  next
    case (Some i)
    have "(\<exists>t j. lk_phase lk t = Inside slug j) = (inside lk slug i \<noteq> {})"
      using locks_okD(2) [OF ok, of _ slug] Some by (auto simp: inside_def)
    with at [OF Some] Some show ?thesis by (auto simp: is_locked_def entry_ok_def Let_def split: if_splits)
  qed
  show "(lk_entries lk slug = None) = (\<forall>t i. lk_phase lk t \<noteq> Inside slug i \<and> lk_phase lk t \<noteq> Awaiting slug i)"
  proof (cases "lk_entries lk slug")
    case None
    then show ?thesis using locks_okD(1,2) [OF ok, of _ slug] by auto
  next
    case (Some i)
    have "inside lk slug i \<union> awaits lk slug i \<noteq> {}"
      using at [OF Some] by (auto simp: entry_ok_def Let_def split: if_splits)
    then show ?thesis using Some by (auto simp: inside_def awaits_def)
  qed
qed

text \<open>
  C14. The waiting ends: when no new task arrives, any further run of moves is at most twice as long
  as there are tasks holding or waiting, and it cannot get stuck before every one of them has been
  through (or gave up): where nobody can take or leave a lock any more, all tasks are outside and
  the table is empty.
\<close>

theorem locks_drain:
  assumes "lock_run no_locks ms lk" "lock_run lk ms' lk'" "\<forall>m\<in>set ms'. \<not> arrives m"
  shows "length ms' \<le> 2 * card (users lk)
    \<and> ((\<forall>m lk''. lock_step lk' m lk'' \<longrightarrow> arrives m \<or> cancels m) \<longrightarrow>
        (\<forall>t. lk_phase lk' t = Outside) \<and> (\<forall>slug. lk_entries lk' slug = None))"
proof (intro conjI impI allI)
  have fin: "finite (users lk)" by (rule finite_users [OF assms(1)]) (simp add: users_def no_locks_def)
  have "length ms' \<le> work lk" using run_work [OF assms(2) fin assms(3)] by simp
  also have "\<dots> \<le> 2 * card (users lk)" by (rule work_bound [OF fin])
  finally show "length ms' \<le> 2 * card (users lk)" .
  have ok: "locks_ok lk'" by (rule lock_run_ok [OF assms(2) lock_run_ok [OF assms(1) no_locks_ok]])
  assume stuck: "\<forall>m lk''. lock_step lk' m lk'' \<longrightarrow> arrives m \<or> cancels m"
  show out: "lk_phase lk' t = Outside" for t using progress [OF ok, of t] stuck by blast
  show "lk_entries lk' slug = None" for slug
  proof (rule ccontr)
    assume "lk_entries lk' slug \<noteq> None"
    then obtain i where "entry_ok lk' slug i" using locks_okD(4) [OF ok] by blast
    then show False using out by (auto simp: entry_ok_def awaits_def inside_def Let_def split: if_splits)
  qed
qed

section \<open>A run\<close>

text \<open>The moves, executable.\<close>

fun do_move :: "lock_move \<Rightarrow> site_locks \<Rightarrow> site_locks option" where
  "do_move (Enters t slug) lk = (case lk_phase lk t of Outside \<Rightarrow> Some (enter t slug lk) | _ \<Rightarrow> None)"
| "do_move (Gets t) lk =
     (case lk_phase lk t of
        Awaiting slug i \<Rightarrow>
          (case le_waiters (lk_heap lk i) of
             [] \<Rightarrow> None
           | u # _ \<Rightarrow> if \<not> le_locked (lk_heap lk i) \<and> u = t then Some (grant t slug i lk) else None)
      | _ \<Rightarrow> None)"
| "do_move (Leaves t) lk = (case lk_phase lk t of Inside slug i \<Rightarrow> Some (leave t slug i lk) | _ \<Rightarrow> None)"
| "do_move (Cancels t) lk = (case lk_phase lk t of Awaiting slug i \<Rightarrow> Some (give_up t slug i lk) | _ \<Rightarrow> None)"

fun do_moves :: "lock_move list \<Rightarrow> site_locks \<Rightarrow> site_locks option" where
  "do_moves [] lk = Some lk"
| "do_moves (m # ms) lk = (case do_move m lk of None \<Rightarrow> None | Some lk' \<Rightarrow> do_moves ms lk')"

lemma do_move_iff: "do_move m lk = Some lk' \<longleftrightarrow> lock_step lk m lk'"
proof
  assume "do_move m lk = Some lk'"
  then show "lock_step lk m lk'"
    by (cases m; cases "lk_phase lk (case m of Enters t _ \<Rightarrow> t | Gets t \<Rightarrow> t | Leaves t \<Rightarrow> t | Cancels t \<Rightarrow> t)")
      (auto intro: lock_step.intros split: if_splits list.splits)
qed (auto elim!: lock_stepE)

lemma do_moves_iff: "do_moves ms lk = Some lk' \<longleftrightarrow> lock_run lk ms lk'"
proof (induction ms arbitrary: lk)
  case Nil
  show ?case by (auto intro: Done elim: lock_run_NilE)
next
  case (Cons m ms)
  have "lock_run lk (m # ms) lk' \<longleftrightarrow> (\<exists>lk1. lock_step lk m lk1 \<and> lock_run lk1 ms lk')"
    by (blast intro: Step elim: lock_run_ConsE)
  also have "\<dots> \<longleftrightarrow> do_moves (m # ms) lk = Some lk'"
    by (simp add: do_move_iff [symmetric] Cons.IH [symmetric] split: option.split)
  finally show ?case by blast
qed

abbreviation two_writers :: "lock_move list" where
  "two_writers \<equiv> [Enters 1 (lit ''docs''), Enters 2 (lit ''docs''), Enters 3 (lit ''blog''), Leaves 1]"

theorem locks_exclude_witness:
  "\<exists>lk. do_moves (two_writers @ [Gets 2]) no_locks = Some lk \<and> is_locked (lit ''docs'') lk
     \<and> (\<forall>t i. lk_phase lk t = Inside (lit ''docs'') i \<longrightarrow> t = 2)"
proof -
  let ?r = "do_moves (two_writers @ [Gets 2]) no_locks"
  have f: "map_option (\<lambda>lk. (is_locked (lit ''docs'') lk, lk_phase lk 2)) ?r = Some (True, Inside (lit ''docs'') 0)"
    by code_simp
  then obtain lk where lk: "?r = Some lk" by (cases ?r) simp_all
  with f have l: "is_locked (lit ''docs'') lk" "lk_phase lk 2 = Inside (lit ''docs'') 0" by simp_all
  have "lock_run no_locks (two_writers @ [Gets 2]) lk" using lk by (simp only: do_moves_iff)
  from locks_exclude [OF this] l lk show ?thesis by blast
qed

theorem locks_drain_witness:
  "\<exists>lk lk'. do_moves two_writers no_locks = Some lk \<and> do_moves [Gets 2, Leaves 2, Leaves 3] lk = Some lk'
     \<and> 3 \<le> 2 * card (users lk)"
proof -
  let ?r = "do_moves (two_writers @ [Gets 2, Leaves 2, Leaves 3]) no_locks"
  have f: "?r \<noteq> None" by code_simp
  have split: "do_moves (as @ bs) lk = Option.bind (do_moves as lk) (do_moves bs)" for as bs lk
    by (induction as arbitrary: lk) (auto split: option.splits)
  from f obtain lk lk' where lk: "do_moves two_writers no_locks = Some lk" "do_moves [Gets 2, Leaves 2, Leaves 3] lk = Some lk'"
    unfolding split by (auto simp: bind_eq_Some_conv simp del: do_moves.simps)
  then have "lock_run no_locks two_writers lk" "lock_run lk [Gets 2, Leaves 2, Leaves 3] lk'" by (simp_all only: do_moves_iff)
  from locks_drain [OF this] lk show ?thesis by auto
qed

end
