(* ===== verification/Interleavings.thy ===== *)
theory Interleavings
  imports Requests
begin

text \<open>
  Requests on the volume interleave: an upload is received into \<open>staging/\<close> while other requests
  run, and only then takes its site's lock.  What runs between two awaits is one event here: the
  start of an upload (the checks and the staging), its landing under the lock, and every other
  operation of \<open>Storage\<close>.  The theory shows that no order of events and no fault brings back a
  site that was deleted.
\<close>

section \<open>Events\<close>

datatype event =
    Starts env ustring ustring upload_body "int option"
  | Lands env ustring ustring bool staged
  | Creates env ustring ustring time
  | Drops env ustring
  | Erases env ustring ustring
  | Clears env ustring ustring bool
  | Lists ustring ustring

fun happens :: "storage \<Rightarrow> event \<Rightarrow> state \<Rightarrow> state" where
  "happens sg (Starts ev slug path body declared) st = snd (begin_write sg ev slug path body declared st)"
| "happens sg (Lands ev slug path overwrite sd) st = snd (land sg ev slug path overwrite sd st)"
| "happens sg (Creates ev slug name t) st = snd (create_site ev slug name t st)"
| "happens sg (Drops ev slug) st = snd (delete_site ev slug st)"
| "happens sg (Erases ev slug path) st = snd (delete_file sg ev slug path st)"
| "happens sg (Clears ev slug path recursive) st = snd (delete_folder sg ev slug path recursive st)"
| "happens sg (Lists slug folder) st = snd (list_folder sg slug folder st)"

definition history :: "storage \<Rightarrow> event list \<Rightarrow> state \<Rightarrow> state" where
  "history sg es st = fold (happens sg) es st"

text \<open>An upload is the start and the landing with nothing between.\<close>

lemma write_file_events:
  "write_file sg ev slug path body overwrite declared st =
     (case begin_write sg ev slug path body declared st of
        (Inl e, st') \<Rightarrow> (Inl e, history sg [Starts ev slug path body declared] st)
      | (Inr sd, st') \<Rightarrow>
          (fst (land sg ev slug path overwrite sd st'),
           history sg [Starts ev slug path body declared, Lands ev slug path overwrite sd] st))"
  by (simp add: write_file_def history_def split: prod.split sum.split)

section \<open>Nothing is served without a site\<close>

definition served_ok :: "state \<Rightarrow> bool" where
  "served_ok st \<longleftrightarrow> what_at (st_sites st) [] = A_Folder
     \<and> (\<forall>slug. what_at (st_sites st) [slug] \<noteq> Missing \<longrightarrow> site_by_slug (st_db st) slug \<noteq> None)"

text \<open>A change below one site, seen from the top of the volume.\<close>

lemma mkdirs_top:
  assumes "p = [] \<or> hd p = slug" "what_at (mkdirs t p n) [s] \<noteq> Missing"
  shows "s = slug \<or> what_at n [s] \<noteq> Missing"
proof -
  have "prefix [s] p \<Longrightarrow> s = slug" using assms(1) by (cases p) auto
  then show ?thesis using mkdirs_only_adds [of t p n "[s]"] assms(2) by metis
qed

lemma insert_top:
  "what_at (insert_at t (slug # p) new n) [s] \<noteq> Missing \<Longrightarrow> s = slug \<or> what_at n [s] \<noteq> Missing"
  by (cases n) (auto simp: what_at_Cons update_conv' split: if_splits option.splits)

declare root_kept [simp]

lemma remove_top: "what_at (remove_at t p n) [s] \<noteq> Missing \<Longrightarrow> what_at n [s] \<noteq> Missing"
  by (cases p; cases n) (auto simp: what_at_Cons update_conv' delete_conv' split: if_splits option.splits)


lemma same_sites: "db_sites (st_db st') = db_sites (st_db st) \<Longrightarrow> site_by_slug (st_db st') s = site_by_slug (st_db st) s"
  by (simp add: site_by_slug_def)

text \<open>An operation that touches no site row and adds entries below one live site at most.\<close>

lemma served_ok_below:
  assumes "served_ok st" "db_sites (st_db st') = db_sites (st_db st)"
    "what_at (st_sites st') [] = what_at (st_sites st) []"
    "\<And>s. what_at (st_sites st') [s] \<noteq> Missing \<Longrightarrow> s = slug \<and> site_by_slug (st_db st) slug \<noteq> None \<or> what_at (st_sites st) [s] \<noteq> Missing"
  shows "served_ok st'"
proof -
  have "site_by_slug (st_db st') s \<noteq> None" if "what_at (st_sites st') [s] \<noteq> Missing" for s
    using assms(4) [OF that] assms(1) same_sites [OF assms(2), of s] by (auto simp: served_ok_def)
  then show ?thesis using assms(1,3) unfolding served_ok_def by metis
qed

lemma land_top:
  assumes "land sg ev slug path overwrite sd st = (r, st')"
  shows "db_sites (st_db st') = db_sites (st_db st)"
    "what_at (st_sites st') [] = A_Folder \<longleftrightarrow> what_at (st_sites st) [] = A_Folder"
    "what_at (st_sites st') [s] \<noteq> Missing \<Longrightarrow>
       s = slug \<and> site_by_slug (st_db st) slug \<noteq> None \<or> what_at (st_sites st) [s] \<noteq> Missing"
    "site_by_slug (st_db st) slug = None \<Longrightarrow> r = Inl not_found \<and> st_sites st' = st_sites st"
proof -
  obtain r1 st1 where l: "land_locked sg ev slug path overwrite sd st = (r1, st1)" by fastforce
  then have same: "st_sites st' = st_sites st1" "st_db st' = st_db st1" "site_by_slug (st_db st) slug = None \<Longrightarrow> r = r1"
    using assms by (auto simp: land_def split: sum.splits)
  have none: "site_by_slug (st_db st) slug = None \<Longrightarrow> r1 = Inl not_found \<and> st1 = st"
    using l by (simp add: land_locked_def)
  show "site_by_slug (st_db st) slug = None \<Longrightarrow> r = Inl not_found \<and> st_sites st' = st_sites st"
    using none same by simp
  show "db_sites (st_db st') = db_sites (st_db st)"
    using l unfolding same(2)
    by (auto simp: land_locked_def Let_def dest: upsert_file_frame split: sum.splits if_splits option.splits prod.splits node.splits)
  let ?t = "slug # segments_of path"
  have tree: "st_sites st1 = st_sites st
      \<or> (\<exists>k. st_sites st1 = mkdirs (ev_now ev) (take k (butlast ?t)) (st_sites st))
      \<or> st_sites st1 = mkdirs (ev_now ev) (butlast ?t) (st_sites st)
      \<or> (\<exists>n. st_sites st1 = insert_at (ev_now ev) ?t n (mkdirs (ev_now ev) (butlast ?t) (st_sites st)))"
    using l by (auto simp: land_locked_def Let_def simp del: butlast.simps dest!: resolve_Inr
        split: sum.splits if_splits option.splits prod.splits node.splits)
  have hd: "take k (butlast ?t) = [] \<or> hd (take k (butlast ?t)) = slug" for k by (cases k) auto
  have hd': "butlast ?t = [] \<or> hd (butlast ?t) = slug" by auto
  show "what_at (st_sites st') [] = A_Folder \<longleftrightarrow> what_at (st_sites st) [] = A_Folder"
    using tree unfolding same(1) by (elim disjE exE) (simp_all only: root_kept)
  assume m: "what_at (st_sites st') [s] \<noteq> Missing"
  have "s = slug \<or> what_at (st_sites st) [s] \<noteq> Missing"
    using tree
  proof (elim disjE exE)
    show ?thesis if "st_sites st1 = st_sites st" using m that same(1) by simp
    show ?thesis if "st_sites st1 = mkdirs (ev_now ev) (take k (butlast ?t)) (st_sites st)" for k
      using mkdirs_top [OF hd [of k]] m that same(1) by metis
    show ?thesis if "st_sites st1 = mkdirs (ev_now ev) (butlast ?t) (st_sites st)"
      using mkdirs_top [OF hd'] m that same(1) by metis
    show ?thesis if "st_sites st1 = insert_at (ev_now ev) ?t n (mkdirs (ev_now ev) (butlast ?t) (st_sites st))" for n
      using insert_top mkdirs_top [OF hd'] m that same(1) by metis
  qed
  then show "s = slug \<and> site_by_slug (st_db st) slug \<noteq> None \<or> what_at (st_sites st) [s] \<noteq> Missing"
    using none same m by (cases "site_by_slug (st_db st) slug") auto
qed

lemma begin_write_sites: "begin_write sg ev slug path body declared st = (r, st') \<Longrightarrow>
    st_sites st' = st_sites st \<and> st_db st' = st_db st"
  by (auto simp: begin_write_def stage_def Let_def split: sum.splits if_splits)

lemma delete_site_top:
  assumes "delete_site ev slug st = (r, st')" "what_at (st_sites st) [] = A_Folder"
  shows "what_at (st_sites st') [] = A_Folder"
    "what_at (st_sites st') [s] \<noteq> Missing \<Longrightarrow> what_at (st_sites st) [s] \<noteq> Missing \<and> (s = slug \<longrightarrow> st_db st' = st_db st)"
    "st_db st' = st_db st \<or> st_db st' = snd (delete_site_row (st_db st) slug)"
proof -
  have c: "lookup (st_sites st) [slug] = None \<and> st_sites st' = st_sites st \<or> st_sites st' = st_sites st \<and> st_db st' = st_db st
      \<or> st_sites st' = remove_at (ev_now ev) [slug] (st_sites st)"
    using assms(1) by (auto simp: delete_site_def Let_def split: option.splits if_splits)
  then show "what_at (st_sites st') [] = A_Folder" using assms(2) by (elim disjE conjE) (simp_all only: root_kept)
  show "st_db st' = st_db st \<or> st_db st' = snd (delete_site_row (st_db st) slug)"
    using assms(1) by (auto simp: delete_site_def Let_def split: option.splits if_splits)
  assume m: "what_at (st_sites st') [s] \<noteq> Missing"
  from c show "what_at (st_sites st) [s] \<noteq> Missing \<and> (s = slug \<longrightarrow> st_db st' = st_db st)"
  proof (elim disjE conjE)
    assume "lookup (st_sites st) [slug] = None" "st_sites st' = st_sites st"
    with m show ?thesis by (auto simp: what_at_def)
  next
    assume "st_sites st' = remove_at (ev_now ev) [slug] (st_sites st)"
    with m show ?thesis by (simp add: what_at_remove split: if_splits)
  qed (use m in simp)
qed

lemma removal_top:
  assumes "delete_file sg ev slug path st = (r, st') \<or> delete_folder sg ev slug path recursive st = (r, st')"
  shows "st_sites st' = st_sites st \<or> (\<exists>t p. st_sites st' = remove_at t p (st_sites st))"
  using assms
  by (elim disjE) (auto simp: delete_file_def delete_folder_def Let_def split: sum.splits kind.splits if_splits; blast)+


lemma site_rows_delete: "site_by_slug (snd (delete_site_row db slug)) s = (if s = slug then None else site_by_slug db s)"
proof -
  have "row_with s_slug s (delete_rows (\<lambda>r. s_slug r = slug) rows) = (if s = slug then None else row_with s_slug s rows)"
    for rows :: "site_row list"
    by (induction rows) (auto simp: delete_rows_def)
  then show ?thesis by (simp add: site_by_slug_def delete_site_row_def)
qed

lemma happens_served:
  assumes "served_ok st"
  shows "served_ok (happens sg e st)"
proof (cases e)
  case (Starts ev slug path body declared)
  obtain r st' where b: "begin_write sg ev slug path body declared st = (r, st')" by fastforce
  show ?thesis using begin_write_sites [OF b] assms Starts b by (simp add: served_ok_def)
next
  case (Lands ev slug path overwrite sd)
  obtain r st' where l: "land sg ev slug path overwrite sd st = (r, st')" by fastforce
  have f: "what_at (st_sites st) [] = A_Folder" using assms by (simp add: served_ok_def)
  then have "what_at (st_sites st') [] = what_at (st_sites st) []" using land_top(2) [OF l] by simp
  from served_ok_below [OF assms land_top(1) [OF l] this land_top(3) [OF l]] show ?thesis using Lands l by simp
next
  case (Creates ev slug name t)
  obtain r st' where c: "create_site ev slug name t st = (r, st')" by fastforce
  have f: "what_at (st_sites st) [] = A_Folder" using assms by (simp add: served_ok_def)
  note eff = create_site_effect [OF f c]
  show ?thesis
  proof (cases r)
    case (Inl x)
    then have same: "\<forall>q. what_at (st_sites st') q = what_at (st_sites st) q" "st_db st' = st_db st" using eff by simp_all
    show ?thesis
      using assms unfolding Creates happens.simps c snd_conv served_ok_def using same by metis
  next
    case (Inr site)
    then have e: "\<forall>q. what_at (st_sites st') q = (if q = [slug] then A_Folder else what_at (st_sites st) q)"
      "\<forall>s. site_by_slug (st_db st') s = (if s = slug then Some site else site_by_slug (st_db st) s)" using eff by simp_all
    then have "what_at (st_sites st') [] = A_Folder" using f by (simp only: list.distinct if_False)
    then show ?thesis using assms e unfolding Creates happens.simps c snd_conv served_ok_def by simp
  qed
next
  case (Drops ev slug)
  obtain r st' where d: "delete_site ev slug st = (r, st')" by fastforce
  have f: "what_at (st_sites st) [] = A_Folder" using assms by (simp add: served_ok_def)
  note top = delete_site_top [OF d f]
  have "site_by_slug (st_db st') s \<noteq> None" if "what_at (st_sites st') [s] \<noteq> Missing" for s
    using top(2) [OF that] top(3) assms site_rows_delete [of "st_db st" slug s] by (auto simp: served_ok_def)
  then show ?thesis using top(1) Drops d by (simp add: served_ok_def)
next
  case (Erases ev slug path)
  obtain r st' where d: "delete_file sg ev slug path st = (r, st')" by fastforce
  note tree = removal_top [OF disjI1 [OF d]] and acc = delete_file_accounts [OF d]
  have "served_ok st'"
    by (rule served_ok_below [OF assms, where slug = slug])
      (use tree acc assms in \<open>auto simp: served_ok_def dest: remove_top simp del: what_at_Nil\<close>)
  then show ?thesis using Erases d by simp
next
  case (Clears ev slug path recursive)
  obtain r st' where d: "delete_folder sg ev slug path recursive st = (r, st')" by fastforce
  note tree = removal_top [OF disjI2 [OF d]] and acc = delete_folder_accounts [OF d]
  have "served_ok st'"
    by (rule served_ok_below [OF assms, where slug = slug])
      (use tree acc assms in \<open>auto simp: served_ok_def dest: remove_top simp del: what_at_Nil\<close>)
  then show ?thesis using Clears d by simp
next
  case (Lists slug folder)
  obtain r st' where d: "list_folder sg slug folder st = (r, st')" by fastforce
  have "served_ok st'"
    by (rule served_ok_below [OF assms, where slug = slug])
      (use list_folder_tree [OF d] list_folder_accounts [OF d] in simp_all)
  then show ?thesis using Lists d by simp
qed

lemma history_served: "served_ok st \<Longrightarrow> served_ok (history sg es st)"
  unfolding history_def by (induction es arbitrary: st) (simp_all add: happens_served)

text \<open>Without a creation the row of a site does not come back.\<close>

fun creates :: "event \<Rightarrow> ustring option" where
  "creates (Creates ev slug name t) = Some slug"
| "creates _ = None"

lemma happens_rows:
  assumes "creates e \<noteq> Some slug" "site_by_slug (st_db st) slug = None"
  shows "site_by_slug (st_db (happens sg e st)) slug = None"
proof (cases e)
  case (Starts ev s path body declared)
  obtain r st' where "begin_write sg ev s path body declared st = (r, st')" by fastforce
  from begin_write_sites [OF this] this show ?thesis using Starts assms(2) same_sites [of st' st slug] by simp
next
  case (Lands ev s path overwrite sd)
  obtain r st' where "land sg ev s path overwrite sd st = (r, st')" by fastforce
  from land_top(1) [OF this] this show ?thesis using Lands assms(2) same_sites [of st' st slug] by simp
next
  case (Creates ev s name t)
  then have "s \<noteq> slug" using assms(1) by simp
  moreover have "st_db (snd (create_site ev s name t st)) = st_db st
      \<or> insert_site (st_db st) \<lparr>s_slug = s, s_name = name, s_created_at = t\<rparr> = Inr (st_db (snd (create_site ev s name t st)))"
    by (auto simp: create_site_def Let_def split: option.split sum.split)
  ultimately show ?thesis using Creates assms(2) by (auto simp: site_by_slug_insert)
next
  case (Drops ev s)
  have "st_db (snd (delete_site ev s st)) = st_db st \<or> st_db (snd (delete_site ev s st)) = snd (delete_site_row (st_db st) s)"
    by (auto simp: delete_site_def Let_def split: option.split)
  then show ?thesis using Drops assms(2) by (auto simp: site_rows_delete)
next
  case (Erases ev s path)
  obtain r st' where "delete_file sg ev s path st = (r, st')" by fastforce
  from delete_file_accounts [OF this] this show ?thesis using Erases assms(2) same_sites [of st' st slug] by simp
next
  case (Clears ev s path recursive)
  obtain r st' where "delete_folder sg ev s path recursive st = (r, st')" by fastforce
  from delete_folder_accounts [OF this] this show ?thesis using Clears assms(2) same_sites [of st' st slug] by simp
next
  case (Lists s folder)
  obtain r st' where "list_folder sg s folder st = (r, st')" by fastforce
  from list_folder_accounts [OF this] this show ?thesis using Lists assms(2) same_sites [of st' st slug] by simp
qed

lemma history_rows:
  "\<forall>e\<in>set es. creates e \<noteq> Some slug \<Longrightarrow> site_by_slug (st_db st) slug = None \<Longrightarrow>
     site_by_slug (st_db (history sg es st)) slug = None"
  unfolding history_def by (induction es arbitrary: st) (simp_all add: happens_rows)



end
