(* ===== verification/Startup.thy ===== *)
theory Startup
  imports Config Backend_Routes Uploads Sessions
begin

text \<open>
  The start of the backend service: \<open>ensure_data_layout\<close> and the lifespan of \<open>create_app\<close> in
  \<open>src/paper_boxing/backend/app.py\<close>.  What is on disk is the stored rows and what lies at \<open>sites/\<close> and
  \<open>staging/\<close> of the data directory, if anything; the hasher, the digest, the conversions of the standard
  library and the clock are arguments.  The theory shows that a service that starts is in a state the
  theorems about requests speak of.
\<close>

record disk =
  dk_db :: database
  dk_sites :: "node option"
  dk_staging :: "node option"

text \<open>What the process brings along; \<open>pf_day\<close> is a day in the clock's unit.\<close>

record 'p platform =
  pf_hasher :: hasher
  pf_sha256 :: "octets \<Rightarrow> ustring"
  pf_day :: time
  pf_mtime :: "time \<Rightarrow> time"
  pf_nfkd :: "ustring \<Rightarrow> ustring"
  pf_mime :: "ustring \<Rightarrow> ustring option"
  pf_sites_dir :: "'p \<Rightarrow> ustring list"

text \<open>\<open>mkdir(parents=True, exist_ok=True)\<close> of one of the two directories.\<close>

definition ensure_folder :: "time \<Rightarrow> node option \<Rightarrow> exn + node" where
  "ensure_folder now found =
     (case found of None \<Rightarrow> Inr (Folder [] now)
      | Some n \<Rightarrow> if what_of n = A_Folder then Inr n else Inl (OSErr EEXIST))"

definition ensure_data_layout :: "time \<Rightarrow> disk \<Rightarrow> exn + state" where
  "ensure_data_layout now dk =
     (case ensure_folder now (dk_sites dk) of Inl e \<Rightarrow> Inl e
      | Inr sites \<Rightarrow> (case ensure_folder now (dk_staging dk) of Inl e \<Rightarrow> Inl e
        | Inr staging \<Rightarrow> Inr \<lparr>st_db = dk_db dk, st_sites = sites, st_staging = staging\<rparr>))"

text \<open>The lifespan up to its \<open>yield\<close>: the state it serves, or the exception that stops the start.\<close>

definition start_backend ::
  "'p platform \<Rightarrow> 'p backend_config \<Rightarrow> env \<Rightarrow> time \<Rightarrow> draws \<Rightarrow> disk \<Rightarrow> exn + (backend \<times> state)" where
  "start_backend pf cf ev now dr dk =
     (case ensure_data_layout (ev_now ev) dk of Inl e \<Rightarrow> Inl e
      | Inr st \<Rightarrow>
          let sg = \<lparr>sg_dir = pf_sites_dir pf (bc_data_dir cf), sg_max_upload_bytes = nat (max_upload_bytes cf),
                sg_sha256 = pf_sha256 pf, sg_mtime = pf_mtime pf\<rparr>;
              ac = \<lparr>ac_session_length = bc_session_days cf * pf_day pf, ac_hasher = pf_hasher pf, ac_sha256 = pf_sha256 pf\<rparr>;
              cleaned = snd (clean_staging ev st) in
          (case bootstrap ac now dr (bc_admin_username cf) (bc_admin_password cf) (st_db cleaned) of
             (Inl e, db) \<Rightarrow> Inl e
           | (Inr _, db) \<Rightarrow>
               Inr (\<lparr>bk_accounts = ac, bk_storage = sg, bk_nfkd = pf_nfkd pf, bk_mime = pf_mime pf,
                      bk_public_sites_url = bc_public_sites_url cf\<rparr>,
                    cleaned\<lparr>st_db := snd (purge_dead_sessions now db)\<rparr>)))"

section \<open>A started service\<close>

lemma clean_all:
  "what_at (fold (\<lambda>(name, _). remove_at t [name]) es n) q =
     (if q \<noteq> [] \<and> hd q \<in> fst ` set es then Missing else what_at n q)"
proof (induction es arbitrary: n)
  case (Cons e es)
  obtain name m where e: "e = (name, m)" by fastforce
  have "prefix [name] q \<longleftrightarrow> q \<noteq> [] \<and> hd q = name" by (cases q) auto
  then show ?case using Cons by (auto simp: e what_at_remove simp del: what_at_Nil)
qed simp

lemma clean_staging_empty:
  assumes "what_at (st_staging st) [] = A_Folder" "q \<noteq> []"
  shows "what_at (st_staging (snd (clean_staging ev st))) q = Missing"
proof -
  obtain es m where n: "st_staging st = Folder es m" using assms(1) by (auto simp: what_of_folder)
  show ?thesis
  proof (cases "hd q \<in> fst ` set es")
    case False
    then have "map_of es (hd q) = None" by (simp add: map_of_eq_None_iff)
    then have "what_at (Folder es m) q = Missing" using assms(2) by (cases q) (simp_all add: what_at_Cons)
    then show ?thesis by (simp add: clean_staging_def Let_def entries_at_def n clean_all)
  qed (use assms(2) in \<open>simp add: clean_staging_def Let_def entries_at_def n clean_all\<close>)
qed

lemma clean_staging_rest:
  "st_db (snd (clean_staging ev st)) = st_db st" "st_sites (snd (clean_staging ev st)) = st_sites st"
  "what_at (st_staging (snd (clean_staging ev st))) [] = what_at (st_staging st) []"
  unfolding clean_staging_def Let_def by (simp_all add: clean_all del: what_at_Nil)

lemma ensure_folder_ok:
  "ensure_folder now found = Inr n \<Longrightarrow> what_of n = A_Folder
     \<and> (\<forall>q. what_at n q = (case found of None \<Rightarrow> if q = [] then A_Folder else Missing | Some m \<Rightarrow> what_at m q))"
  by (auto simp: ensure_folder_def what_at_Cons neq_Nil_conv split: option.splits if_splits)

lemma purged_alive:
  assumes "(s, t) \<in> set (db_tokens (snd (purge_dead_sessions now db)))" "t_type t = SESSION"
  shows "live_token now t"
  using assms by (auto simp: purge_dead_sessions_def delete_dead_sessions_def delete_rows_def dead_session_def live_token_def
      split: option.splits)

lemma purge_step: "accounts_ok db \<Longrightarrow> accounts_ok (snd (purge_dead_sessions now db))"
  using auth_effect_ok [of db _ now PurgeDeadSessions] by simp

lemma started_parts:
  assumes "start_backend pf cf ev now dr dk = Inr (bk, st)"
  shows "\<exists>st0 ac u db. ensure_data_layout (ev_now ev) dk = Inr st0
    \<and> bootstrap ac now dr (bc_admin_username cf) (bc_admin_password cf) (dk_db dk) = (Inr u, db)
    \<and> st = (snd (clean_staging ev st0))\<lparr>st_db := snd (purge_dead_sessions now db)\<rparr>
    \<and> sg_max_upload_bytes (bk_storage bk) = nat (max_upload_bytes cf)"
proof -
  have "st_db st0 = dk_db dk" if "ensure_data_layout (ev_now ev) dk = Inr st0" for st0
    using that by (auto simp: ensure_data_layout_def split: sum.splits)
  then show ?thesis
    using assms by (auto simp: start_backend_def Let_def clean_staging_rest split: sum.splits prod.splits) blast
qed


text \<open>A data directory with an interrupted upload in it.\<close>

definition sample_disk :: disk where
  "sample_disk = \<lparr>dk_db = sample_db, dk_sites = None, dk_staging = Some (Folder [(lit ''x'', Reg [1] 2)] 3)\<rparr>"

definition sample_platform :: "ustring platform" where
  "sample_platform = \<lparr>pf_hasher = ac_hasher sample_accounts, pf_sha256 = (\<lambda>b. b), pf_day = 10, pf_mtime = (\<lambda>t. t),
     pf_nfkd = (\<lambda>s. s), pf_mime = (\<lambda>_. None), pf_sites_dir = (\<lambda>d. [d])\<rparr>"

definition sample_config :: "ustring backend_config" where
  "sample_config = \<lparr>bc_host = lit ''127.0.0.1'', bc_port = 35843, bc_data_dir = lit ''d'',
     bc_public_sites_url = lit ''http://127.0.0.1:35841'', bc_admin_username = None, bc_admin_password = None,
     bc_max_upload_mb = 2, bc_session_days = 14\<rparr>"


end
