(* ===== verification/Timestamps.thy ===== *)
theory Timestamps
  imports Prelude
begin

text \<open>
  Points in time as Python's \<open>datetime\<close> in UTC has them, and the text \<open>datetime.isoformat\<close> makes of
  them: what \<open>_iso\<close> writes into the tables of \<open>src/paper_boxing/backend/db.py\<close> and \<open>_dt\<close> reads
  back.  SQL compares and sorts those texts, so their order has to be the order of time; it is, although
  the microseconds are left out when they are zero.  The calendar is the proleptic Gregorian one of the
  module \<open>datetime\<close>.  The clock of \<open>src/paper_boxing/backend/clock.py\<close> is here too.
\<close>

section \<open>Decimal digits\<close>

fun digits :: "nat \<Rightarrow> nat \<Rightarrow> ustring" where
  "digits 0 n = []"
| "digits (Suc w) n = digits w (n div 10) @ [48 + n mod 10]"

definition undigits :: "ustring \<Rightarrow> nat" where
  "undigits s = foldl (\<lambda>n c. 10 * n + (c - 48)) 0 s"

lemma length_digits [simp]: "length (digits w n) = w"
  by (induction w arbitrary: n) simp_all

lemma digits_numeral: "digits (numeral k) n = digits (pred_numeral k) (n div 10) @ [48 + n mod 10]"
  by (simp only: numeral_eq_Suc digits.simps)

lemma digits_range: "c \<in> set (digits w n) \<Longrightarrow> 48 \<le> c \<and> c \<le> 57"
  by (induction w arbitrary: n) auto

lemma undigits_digits: "n < 10 ^ w \<Longrightarrow> undigits (digits w n) = n"
proof (induction w arbitrary: n)
  case (Suc w)
  then have "n div 10 < 10 ^ w" by (simp add: less_mult_imp_div_less mult.commute)
  from Suc.IH [OF this] show ?case by (simp add: undigits_def)
qed (simp add: undigits_def)

lemma digits_inject: "m < 10 ^ w \<Longrightarrow> n < 10 ^ w \<Longrightarrow> digits w m = digits w n \<longleftrightarrow> m = n"
  by (metis undigits_digits)

text \<open>Texts of the same length are compared from the left.\<close>

lemma append_less_append:
  "length a = length b \<Longrightarrow> a @ x < b @ y \<longleftrightarrow> a < b \<or> a = b \<and> x < (y :: 'a::linorder list)"
  by (induction a b rule: list_induct2) auto

lemma radix_less:
  assumes "c < k" "d < k"
  shows "a * k + c < b * k + d \<longleftrightarrow> a < b \<or> a = b \<and> c < (d::nat)"
proof (cases a b rule: linorder_cases)
  case less
  then have "Suc a * k \<le> b * k" by (intro mult_le_mono1) simp
  with less assms show ?thesis by simp
next
  case greater
  then have "Suc b * k \<le> a * k" by (intro mult_le_mono1) simp
  with greater assms show ?thesis by simp
qed simp

lemma digits_less: "m < 10 ^ w \<Longrightarrow> n < 10 ^ w \<Longrightarrow> digits w m < digits w n \<longleftrightarrow> m < n"
proof (induction w arbitrary: m n)
  case (Suc w)
  have d: "m div 10 < 10 ^ w" "n div 10 < 10 ^ w"
    using Suc.prems by (simp_all add: less_mult_imp_div_less mult.commute)
  have "m < n \<longleftrightarrow> m div 10 < n div 10 \<or> m div 10 = n div 10 \<and> m mod 10 < n mod 10"
    by (rule radix_less [of "m mod 10" 10 "n mod 10" "m div 10" "n div 10", simplified])
  then show ?case
    using Suc.IH [OF d] digits_inject [OF d] by (simp add: append_less_append)
qed simp

section \<open>Dates\<close>

record datetime =
  dt_year :: nat
  dt_month :: nat
  dt_day :: nat
  dt_hour :: nat
  dt_minute :: nat
  dt_second :: nat
  dt_microsecond :: nat

definition is_leap :: "nat \<Rightarrow> bool" where
  "is_leap year \<longleftrightarrow> year mod 4 = 0 \<and> (year mod 100 \<noteq> 0 \<or> year mod 400 = 0)"

definition days_in_month :: "nat \<Rightarrow> nat \<Rightarrow> nat" where
  "days_in_month year month =
     (if month = 2 then if is_leap year then 29 else 28
      else if month \<in> {4, 6, 9, 11} then 30 else 31)"

text \<open>What the constructor of \<open>datetime\<close> demands.\<close>

definition valid_datetime :: "datetime \<Rightarrow> bool" where
  "valid_datetime d \<longleftrightarrow>
     1 \<le> dt_year d \<and> dt_year d \<le> 9999 \<and> 1 \<le> dt_month d \<and> dt_month d \<le> 12
     \<and> 1 \<le> dt_day d \<and> dt_day d \<le> days_in_month (dt_year d) (dt_month d)
     \<and> dt_hour d < 24 \<and> dt_minute d < 60 \<and> dt_second d < 60 \<and> dt_microsecond d < 1000000"

text \<open>The day number of \<open>datetime.toordinal\<close>, and the microseconds since the calendar's start.\<close>

definition days_before_year :: "nat \<Rightarrow> nat" where
  "days_before_year year = (let y = year - 1 in y * 365 + y div 4 + y div 400 - y div 100)"

definition days_before_month :: "nat \<Rightarrow> nat \<Rightarrow> nat" where
  "days_before_month year month = (\<Sum>m\<leftarrow>[1..<month]. days_in_month year m)"

definition ordinal :: "datetime \<Rightarrow> nat" where
  "ordinal d = days_before_year (dt_year d) + days_before_month (dt_year d) (dt_month d) + dt_day d"

definition instant :: "datetime \<Rightarrow> time" where
  "instant d =
     int ((((ordinal d * 24 + dt_hour d) * 60 + dt_minute d) * 60 + dt_second d) * 1000000 + dt_microsecond d)"

text \<open>Python compares two datetimes of the same zone field by field.\<close>

definition datetime_less :: "datetime \<Rightarrow> datetime \<Rightarrow> bool" where
  "datetime_less a b \<longleftrightarrow>
     [dt_year a, dt_month a, dt_day a, dt_hour a, dt_minute a, dt_second a, dt_microsecond a]
     < [dt_year b, dt_month b, dt_day b, dt_hour b, dt_minute b, dt_second b, dt_microsecond b]"

section \<open>The order of the calendar is the order of the days\<close>

lemma centuries: "is_leap y \<longleftrightarrow> 4 dvd y \<and> (\<not> 100 dvd y \<or> 400 dvd y)" "400 dvd y \<Longrightarrow> 100 dvd y" "100 dvd y \<Longrightarrow> 4 dvd (y::nat)"
proof -
  show "is_leap y \<longleftrightarrow> 4 dvd y \<and> (\<not> 100 dvd y \<or> 400 dvd y)" by (simp add: is_leap_def mod_eq_0_iff_dvd)
  have "(100::nat) dvd 400" "(4::nat) dvd 100" by simp_all
  then show "400 dvd y \<Longrightarrow> 100 dvd y" "100 dvd y \<Longrightarrow> 4 dvd y" using dvd_trans by blast+
qed

lemma div_Suc_dvd: "Suc x div k = x div k + (if k dvd Suc x then 1 else 0)"
  using div_Suc [of x k] unfolding mod_eq_0_iff_dvd by (cases "k dvd Suc x") (simp_all only: if_True if_False add_0_right Suc_eq_plus1)

lemma year_step:
  fixes a b c p q r x :: nat
  assumes "b \<le> x" "q \<le> 1"
  shows "Suc x * 365 + (a + p) + (c + r) - (b + q) = x * 365 + a + c - b + (365 + p + r - q)"
proof -
  have "x * 365 + a + c - b + (365 + p + r - q) = (x * 365 + a + c + (365 + p + r)) - (b + q)" using assms by simp
  then show ?thesis by simp
qed

lemma leap_bits:
  "(c \<Longrightarrow> b) \<Longrightarrow> (b \<Longrightarrow> a) \<Longrightarrow>
    365 + (if a then 1 else 0) + (if c then 1 else 0) - (if b then 1 else 0 :: nat) = (if a \<and> (\<not> b \<or> c) then 366 else 365)"
  by (cases a; cases b; cases c) simp_all

lemma days_before_year_Suc:
  assumes "1 \<le> y"
  shows "days_before_year (Suc y) = days_before_year y + (if is_leap y then 366 else 365)"
proof -
  obtain x where y: "y = Suc x" using assms by (cases y) auto
  let ?bit = "\<lambda>k. if k dvd y then 1 else 0 :: nat"
  have "days_before_year (Suc y) = Suc x * 365 + (x div 4 + ?bit 4) + (x div 400 + ?bit 400) - (x div 100 + ?bit 100)"
    by (simp only: days_before_year_def Let_def y diff_Suc_1 div_Suc_dvd)
  also have "\<dots> = x * 365 + x div 4 + x div 400 - x div 100 + (365 + ?bit 4 + ?bit 400 - ?bit 100)"
    by (rule year_step) simp_all
  also have "365 + ?bit 4 + ?bit 400 - ?bit 100 = (if is_leap y then 366 else 365)"
    unfolding centuries(1) by (rule leap_bits) (fact centuries(2,3))+
  finally show ?thesis by (simp only: days_before_year_def Let_def y diff_Suc_1)
qed

lemma days_before_year_less:
  assumes "1 \<le> y" "y < z"
  shows "days_before_year y + (if is_leap y then 366 else 365) \<le> days_before_year z"
proof -
  have "Suc y \<le> z" using assms(2) by simp
  then show ?thesis
  proof (induction z rule: dec_induct)
    case base
    then show ?case using assms(1) by (simp add: days_before_year_Suc)
  next
    case (step z)
    then have "days_before_year z \<le> days_before_year (Suc z)" using assms(1) by (simp add: days_before_year_Suc)
    with step.IH show ?case by linarith
  qed
qed

lemma days_in_month_31: "days_in_month y m \<le> 31"
  by (simp add: days_in_month_def)

lemma days_before_month_less:
  assumes "1 \<le> m" "m < n"
  shows "days_before_month y m + days_in_month y m \<le> days_before_month y n"
proof -
  have "[1..<n] = [1..<m] @ m # [Suc m..<n]"
    using assms by (metis le_add_diff_inverse less_imp_le_nat order.strict_trans1 upt_add_eq_append upt_conv_Cons)
  then show ?thesis by (simp add: days_before_month_def)
qed

lemma days_before_next_month:
  assumes "1 \<le> m" "m \<le> 12"
  shows "days_before_month y m + days_in_month y m \<le> (if is_leap y then 366 else 365)"
proof -
  have "days_before_month y (Suc m) \<le> days_before_month y 13"
    using assms days_before_month_less [of "Suc m" 13 y] by (cases "m = 12") (simp_all add: days_before_month_def)
  moreover have "days_before_month y (Suc m) = days_before_month y m + (if m = 0 then 0 else days_in_month y m)"
    by (simp add: days_before_month_def)
  moreover have "days_before_month y 13 = (if is_leap y then 366 else 365)"
    by (simp add: days_before_month_def days_in_month_def upt_rec)
  ultimately show ?thesis using assms by auto
qed

text \<open>Within a year and over the years, a later date has a larger ordinal.\<close>

definition day_of_year :: "datetime \<Rightarrow> nat" where
  "day_of_year d = days_before_month (dt_year d) (dt_month d) + dt_day d"

lemma day_of_year_bounds:
  assumes "valid_datetime d"
  shows "1 \<le> day_of_year d" "day_of_year d \<le> (if is_leap (dt_year d) then 366 else 365)"
  using assms days_before_next_month [of "dt_month d" "dt_year d"]
  by (simp_all add: valid_datetime_def day_of_year_def)

lemma day_of_year_less:
  assumes "valid_datetime a" "valid_datetime b" "dt_year a = dt_year b"
  shows "day_of_year a < day_of_year b \<longleftrightarrow>
    dt_month a < dt_month b \<or> dt_month a = dt_month b \<and> dt_day a < dt_day b"
proof (cases "dt_month a" "dt_month b" rule: linorder_cases)
  case less
  then show ?thesis
    using assms days_before_month_less [of "dt_month a" "dt_month b" "dt_year b"]
    by (auto simp: valid_datetime_def day_of_year_def)
next
  case greater
  then show ?thesis
    using assms days_before_month_less [of "dt_month b" "dt_month a" "dt_year b"]
    by (auto simp: valid_datetime_def day_of_year_def)
qed (use assms in \<open>simp add: day_of_year_def\<close>)

lemma ordinal_less:
  assumes "valid_datetime a" "valid_datetime b"
  shows "ordinal a < ordinal b \<longleftrightarrow> dt_year a < dt_year b \<or> dt_year a = dt_year b
    \<and> (dt_month a < dt_month b \<or> dt_month a = dt_month b \<and> dt_day a < dt_day b)"
proof (cases "dt_year a" "dt_year b" rule: linorder_cases)
  case equal
  then show ?thesis
    using day_of_year_less [OF assms equal] by (simp add: ordinal_def day_of_year_def)
next
  case less
  moreover have "ordinal a < ordinal b"
    using days_before_year_less [OF _ less] day_of_year_bounds [OF assms(1)] day_of_year_bounds(1) [OF assms(2)] assms(1)
    by (simp add: ordinal_def day_of_year_def valid_datetime_def)
  ultimately show ?thesis by simp
next
  case greater
  moreover have "ordinal b < ordinal a"
    using days_before_year_less [OF _ greater] day_of_year_bounds [OF assms(2)] day_of_year_bounds(1) [OF assms(1)] assms(2)
    by (simp add: ordinal_def day_of_year_def valid_datetime_def)
  ultimately show ?thesis by simp
qed

lemma ordinal_equal:
  assumes "valid_datetime a" "valid_datetime b"
  shows "ordinal a = ordinal b \<longleftrightarrow> dt_year a = dt_year b \<and> dt_month a = dt_month b \<and> dt_day a = dt_day b"
  using ordinal_less [OF assms] ordinal_less [OF assms(2,1)] by (metis linorder_neq_iff)

lemma instant_less:
  assumes "valid_datetime a" "valid_datetime b"
  shows "instant a < instant b \<longleftrightarrow> ordinal a < ordinal b \<or> ordinal a = ordinal b \<and>
    (dt_hour a < dt_hour b \<or> dt_hour a = dt_hour b \<and> (dt_minute a < dt_minute b \<or> dt_minute a = dt_minute b \<and>
    (dt_second a < dt_second b \<or> dt_second a = dt_second b \<and> dt_microsecond a < dt_microsecond b)))"
proof -
  have b: "dt_hour a < 24" "dt_minute a < 60" "dt_second a < 60" "dt_microsecond a < 1000000"
    "dt_hour b < 24" "dt_minute b < 60" "dt_second b < 60" "dt_microsecond b < 1000000"
    using assms by (simp_all add: valid_datetime_def)
  have eq: "x * k + c = y * k + d \<longleftrightarrow> x = y \<and> c = d" if "c < k" "d < k" for x y k c d :: nat
    using radix_less [OF that, of x y] radix_less [OF that(2,1), of y x] by (metis linorder_neq_iff)
  show ?thesis
    by (simp only: instant_def of_nat_less_iff radix_less [OF b(4,8)] radix_less [OF b(3,7)] radix_less [OF b(2,6)]
        radix_less [OF b(1,5)] eq [OF b(3,7)] eq [OF b(2,6)] eq [OF b(1,5)]) blast
qed

lemma datetime_less_instant:
  assumes "valid_datetime a" "valid_datetime b"
  shows "datetime_less a b \<longleftrightarrow> instant a < instant b"
  by (simp add: instant_less [OF assms] ordinal_less [OF assms] ordinal_equal [OF assms] datetime_less_def) blast

lemma instant_inject:
  assumes "valid_datetime a" "valid_datetime b"
  shows "instant a = instant b \<longleftrightarrow> a = b"
proof
  assume "instant a = instant b"
  then have "\<not> datetime_less a b" "\<not> datetime_less b a"
    using datetime_less_instant [OF assms] datetime_less_instant [OF assms(2,1)] by simp_all
  then have "[dt_year a, dt_month a, dt_day a, dt_hour a, dt_minute a, dt_second a, dt_microsecond a] =
      [dt_year b, dt_month b, dt_day b, dt_hour b, dt_minute b, dt_second b, dt_microsecond b]"
    unfolding datetime_less_def by (metis linorder_neq_iff)
  then show "a = b" by simp
qed simp

section \<open>ISO texts\<close>

text \<open>\<open>isoformat\<close> of a time in UTC.\<close>

definition microseconds_text :: "nat \<Rightarrow> ustring" where
  "microseconds_text us = (if us = 0 then [] else dot # digits 6 us)"

definition utc_text :: ustring where "utc_text = lit ''+00:00''"

definition isoformat :: "datetime \<Rightarrow> ustring" where
  "isoformat d =
     digits 4 (dt_year d) @ hyphen # digits 2 (dt_month d) @ hyphen # digits 2 (dt_day d) @ 84
     # digits 2 (dt_hour d) @ 58 # digits 2 (dt_minute d) @ 58 # digits 2 (dt_second d)
     @ microseconds_text (dt_microsecond d) @ utc_text"

text \<open>
  \<open>fromisoformat\<close> on texts of that form, \<open>None\<close> for a \<open>ValueError\<close>; the other formats it reads do not
  occur in the tables.
\<close>

definition slice :: "nat \<Rightarrow> nat \<Rightarrow> ustring \<Rightarrow> ustring" where
  "slice i j s = take (j - i) (drop i s)"

definition number :: "nat \<Rightarrow> nat \<Rightarrow> ustring \<Rightarrow> nat option" where
  "number i j s =
     (if length (slice i j s) = j - i \<and> list_all (\<lambda>c. 48 \<le> c \<and> c \<le> 57) (slice i j s)
      then Some (undigits (slice i j s)) else None)"

definition read_microseconds :: "ustring \<Rightarrow> nat option" where
  "read_microseconds s =
     (if s = utc_text then Some 0
      else if slice 0 1 s = [dot] \<and> drop 7 s = utc_text then number 1 7 s else None)"

definition fromisoformat :: "ustring \<Rightarrow> datetime option" where
  "fromisoformat s =
     (case (number 0 4 s, number 5 7 s, number 8 10 s, number 11 13 s, number 14 16 s, number 17 19 s,
        read_microseconds (drop 19 s)) of
        (Some y, Some mo, Some d, Some h, Some mi, Some sec, Some us) \<Rightarrow>
          let t = \<lparr>dt_year = y, dt_month = mo, dt_day = d, dt_hour = h, dt_minute = mi, dt_second = sec, dt_microsecond = us\<rparr> in
          if slice 4 5 s = [hyphen] \<and> slice 7 8 s = [hyphen] \<and> slice 10 11 s = [84] \<and> slice 13 14 s = [58]
             \<and> slice 16 17 s = [58] \<and> valid_datetime t
          then Some t else None
      | _ \<Rightarrow> None)"

lemma number_digits:
  assumes "slice i j s = digits (j - i) n" "n < 10 ^ (j - i)"
  shows "number i j s = Some n"
  using assms by (auto simp: number_def undigits_digits list_all_iff dest: digits_range)

lemma read_microseconds:
  assumes "us < 1000000"
  shows "read_microseconds (microseconds_text us @ utc_text) = Some us"
proof (cases "us = 0")
  case False
  have "number 1 7 (dot # digits 6 us @ utc_text) = Some us"
    using assms by (intro number_digits) (simp_all add: slice_def)
  then show ?thesis using False by (simp add: read_microseconds_def microseconds_text_def slice_def utc_text_def)
qed (simp add: read_microseconds_def microseconds_text_def)

lemma fromisoformat_isoformat:
  assumes "valid_datetime d"
  shows "fromisoformat (isoformat d) = Some d"
proof -
  have b: "dt_year d < 10 ^ 4" "dt_month d < 10 ^ 2" "dt_day d < 10 ^ 2" "dt_hour d < 10 ^ 2" "dt_minute d < 10 ^ 2"
    "dt_second d < 10 ^ 2" "dt_microsecond d < 1000000"
    using assms days_in_month_31 [of "dt_year d" "dt_month d"] by (simp_all add: valid_datetime_def)
  let ?s = "isoformat d"
  have "number 0 4 ?s = Some (dt_year d)" "number 5 7 ?s = Some (dt_month d)" "number 8 10 ?s = Some (dt_day d)"
    "number 11 13 ?s = Some (dt_hour d)" "number 14 16 ?s = Some (dt_minute d)" "number 17 19 ?s = Some (dt_second d)"
    using b by (intro number_digits; simp add: slice_def isoformat_def)+
  moreover have "drop 19 ?s = microseconds_text (dt_microsecond d) @ utc_text" by (simp add: isoformat_def)
  moreover have "slice 4 5 ?s = [hyphen]" "slice 7 8 ?s = [hyphen]" "slice 10 11 ?s = [84]" "slice 13 14 ?s = [58]"
    "slice 16 17 ?s = [58]"
    by (simp_all add: slice_def isoformat_def)
  moreover have "\<lparr>dt_year = dt_year d, dt_month = dt_month d, dt_day = dt_day d, dt_hour = dt_hour d,
      dt_minute = dt_minute d, dt_second = dt_second d, dt_microsecond = dt_microsecond d\<rparr> = d" by simp
  ultimately show ?thesis
    using assms read_microseconds [OF b(7)] by (simp only: fromisoformat_def Let_def prod.case option.case if_True simp_thms)
qed

text \<open>The plus sign of the zone comes before the dot of a fraction.\<close>

lemma microseconds_less:
  assumes "a < 1000000" "b < 1000000"
  shows "microseconds_text a @ utc_text < microseconds_text b @ utc_text \<longleftrightarrow> a < b"
  using assms digits_less [of a 6 b] by (auto simp: microseconds_text_def append_less_append utc_text_def simp del: digits.simps)

lemma isoformat_less:
  assumes "valid_datetime a" "valid_datetime b"
  shows "isoformat a < isoformat b \<longleftrightarrow> datetime_less a b"
proof -
  have bound: "dt_year d < 10 ^ 4" "dt_month d < 10 ^ 2" "dt_day d < 10 ^ 2" "dt_hour d < 10 ^ 2" "dt_minute d < 10 ^ 2"
    "dt_second d < 10 ^ 2" "dt_microsecond d < 1000000" if "valid_datetime d" for d
    using that days_in_month_31 [of "dt_year d" "dt_month d"] by (simp_all add: valid_datetime_def)
  note A = bound [OF assms(1)] and B = bound [OF assms(2)]
  show ?thesis
    by (simp add: isoformat_def append_less_append datetime_less_def
        digits_less [OF A(1) B(1)] digits_less [OF A(2) B(2)] digits_less [OF A(3) B(3)] digits_less [OF A(4) B(4)]
        digits_less [OF A(5) B(5)] digits_less [OF A(6) B(6)] digits_inject [OF A(1) B(1)] digits_inject [OF A(2) B(2)]
        digits_inject [OF A(3) B(3)] digits_inject [OF A(4) B(4)] digits_inject [OF A(5) B(5)] digits_inject [OF A(6) B(6)]
        microseconds_less [OF A(7) B(7)] del: digits.simps)
qed

text \<open>
  C20. The tables hold time without loss and in order: the text that is written for a time is read back as
  that time, and SQL's comparison of two such texts is the comparison of the times, with and without a fraction
  of a second.
\<close>

theorem timestamps_in_order:
  assumes "valid_datetime a" "valid_datetime b"
  shows "fromisoformat (isoformat a) = Some a
    \<and> (isoformat a < isoformat b \<longleftrightarrow> instant a < instant b) \<and> (isoformat a = isoformat b \<longleftrightarrow> instant a = instant b)"
  using fromisoformat_isoformat [OF assms(1)] fromisoformat_isoformat [OF assms(2)] isoformat_less [OF assms]
    datetime_less_instant [OF assms] instant_inject [OF assms] by (metis option.inject)

definition leap_day_end :: "nat \<Rightarrow> datetime" where
  "leap_day_end us =
     \<lparr>dt_year = 2024, dt_month = 2, dt_day = 29, dt_hour = 23, dt_minute = 59, dt_second = 59, dt_microsecond = us\<rparr>"

theorem timestamps_in_order_witness:
  "isoformat (leap_day_end 0) = lit ''2024-02-29T23:59:59+00:00''
    \<and> isoformat (leap_day_end 5) = lit ''2024-02-29T23:59:59.000005+00:00''
    \<and> isoformat (leap_day_end 0) < isoformat (leap_day_end 5)"
proof -
  have v: "valid_datetime (leap_day_end 0)" "valid_datetime (leap_day_end 5)"
    by (simp_all add: leap_day_end_def valid_datetime_def days_in_month_def is_leap_def)
  have "instant (leap_day_end 0) < instant (leap_day_end 5)"
    by (simp add: instant_less [OF v]) (simp add: leap_day_end_def ordinal_def)
  then have "isoformat (leap_day_end 0) < isoformat (leap_day_end 5)" using timestamps_in_order [OF v] by blast
  moreover have "isoformat (leap_day_end 0) = lit ''2024-02-29T23:59:59+00:00''"
    "isoformat (leap_day_end 5) = lit ''2024-02-29T23:59:59.000005+00:00''"
    by (simp_all add: leap_day_end_def isoformat_def utc_text_def microseconds_text_def digits_numeral)
  ultimately show ?thesis by blast
qed

section \<open>The clock\<close>

text \<open>\<open>Clock\<close>: the system's time, moved forward by what \<open>advance\<close> was asked for so far.\<close>

record clock = cl_offset :: time

definition new_clock :: clock where "new_clock = \<lparr>cl_offset = 0\<rparr>"

definition clock_now :: "time \<Rightarrow> clock \<Rightarrow> time" where "clock_now system c = system + cl_offset c"

definition advance :: "time \<Rightarrow> clock \<Rightarrow> clock" where "advance d c = c\<lparr>cl_offset := cl_offset c + d\<rparr>"

lemma clock_after_advances: "clock_now system (fold advance ds new_clock) = system + sum_list ds"
proof -
  have "clock_now system (fold advance ds c) = system + cl_offset c + sum_list ds" for c
    by (induction ds arbitrary: c) (simp_all add: clock_now_def advance_def)
  then show ?thesis by (simp add: new_clock_def)
qed

end
