(* ===== verification/Tables.thy ===== *)
theory Tables
  imports Db Timestamps
begin

text \<open>
  The tables as SQLite holds them, under \<open>Db\<close>: \<open>src/paper_boxing/backend/db.py\<close> writes enumerations as
  their values and times as ISO texts, and its statements compare and sort those texts.  One definition per
  statement and per conversion of a row (\<open>_iso\<close>, \<open>_dt\<close>, \<open>_user\<close>, \<open>_token\<close>, \<open>_site\<close>),
  and the refinement: any sequence of calls, with times as \<open>datetime\<close> values, returns what the operations
  of \<open>Db\<close> return for the instants.
\<close>

section \<open>Columns\<close>

record user_columns =
  cu_id :: ustring
  cu_username :: ustring
  cu_password_hash :: ustring
  cu_created_at :: ustring

record token_columns =
  ck_id :: ustring
  ck_secret_sha256 :: ustring
  ck_name :: ustring
  ck_type :: ustring
  ck_scope :: ustring
  ck_user_id :: ustring
  ck_created_at :: ustring
  ck_last_used_at :: "ustring option"
  ck_expires_at :: "ustring option"
  ck_revoked_at :: "ustring option"

record site_columns =
  cs_slug :: ustring
  cs_name :: ustring
  cs_created_at :: ustring

record tables =
  tb_users :: "user_columns list"
  tb_tokens :: "token_columns list"
  tb_sites :: "site_columns list"
  tb_files :: "file_row list"

text \<open>\<open>_iso\<close> and \<open>_dt\<close>; a text that is no time raises, \<open>None\<close> outside.\<close>

definition iso :: "datetime option \<Rightarrow> ustring option" where
  "iso v = map_option isoformat v"

definition dt :: "ustring option \<Rightarrow> time option option" where
  "dt v = (case v of None \<Rightarrow> Some None | Some s \<Rightarrow> map_option (\<lambda>d. Some (instant d)) (fromisoformat s))"

definition created :: "ustring \<Rightarrow> time option" where
  "created s = map_option instant (fromisoformat s)"

definition read_user :: "user_columns \<Rightarrow> user_row option" where
  "read_user c =
     (case created (cu_created_at c) of None \<Rightarrow> None
      | Some t \<Rightarrow> Some \<lparr>u_id = cu_id c, u_username = cu_username c, u_password_hash = cu_password_hash c, u_created_at = t\<rparr>)"

definition read_token :: "token_columns \<Rightarrow> token_row option" where
  "read_token c =
     (case (created (ck_created_at c), type_of (ck_type c), scope_of (ck_scope c),
        dt (ck_last_used_at c), dt (ck_expires_at c), dt (ck_revoked_at c)) of
        (Some t, Some ty, Some sc, Some l, Some e, Some r) \<Rightarrow>
          Some \<lparr>t_id = ck_id c, t_name = ck_name c, t_type = ty, t_scope = sc, t_user_id = ck_user_id c,
            t_created_at = t, t_last_used_at = l, t_expires_at = e, t_revoked_at = r\<rparr>
      | _ \<Rightarrow> None)"

definition read_site :: "site_columns \<Rightarrow> site_row option" where
  "read_site c =
     (case created (cs_created_at c) of None \<Rightarrow> None
      | Some t \<Rightarrow> Some \<lparr>s_slug = cs_slug c, s_name = cs_name c, s_created_at = t\<rparr>)"

text \<open>\<open>fetchone\<close> and \<open>fetchall\<close> with the conversion.\<close>

definition read_one :: "('c \<Rightarrow> 'r option) \<Rightarrow> 'c option \<Rightarrow> 'r option option" where
  "read_one f c = (case c of None \<Rightarrow> Some None | Some x \<Rightarrow> map_option Some (f x))"

definition read_all :: "('c \<Rightarrow> 'r option) \<Rightarrow> 'c list \<Rightarrow> 'r list option" where
  "read_all f cs = those (map f cs)"

section \<open>Statements\<close>

subsection \<open>Users\<close>

definition sql_insert_user :: "ustring \<Rightarrow> ustring \<Rightarrow> ustring \<Rightarrow> datetime \<Rightarrow> tables \<Rightarrow> exn + tables" where
  "sql_insert_user uid username password_hash at tb =
     (if uid \<in> cu_id ` set (tb_users tb) \<or> username \<in> cu_username ` set (tb_users tb) then Inl Conflict
      else Inr (tb\<lparr>tb_users := tb_users tb
        @ [\<lparr>cu_id = uid, cu_username = username, cu_password_hash = password_hash, cu_created_at = isoformat at\<rparr>]\<rparr>))"

definition sql_user_by_id :: "ustring \<Rightarrow> tables \<Rightarrow> user_row option option" where
  "sql_user_by_id uid tb = read_one read_user (row_with cu_id uid (tb_users tb))"

definition sql_user_by_username :: "ustring \<Rightarrow> tables \<Rightarrow> user_row option option" where
  "sql_user_by_username username tb = read_one read_user (row_with cu_username username (tb_users tb))"

definition sql_list_users :: "tables \<Rightarrow> user_row list option" where
  "sql_list_users tb = read_all read_user (sort_key cu_username (tb_users tb))"

definition sql_set_password_hash :: "ustring \<Rightarrow> ustring \<Rightarrow> tables \<Rightarrow> tables" where
  "sql_set_password_hash uid password_hash tb =
     tb\<lparr>tb_users := update_rows (\<lambda>c. cu_id c = uid) (\<lambda>c. c\<lparr>cu_password_hash := password_hash\<rparr>) (tb_users tb)\<rparr>"

definition sql_delete_user :: "ustring \<Rightarrow> tables \<Rightarrow> bool \<times> tables" where
  "sql_delete_user uid tb =
     (uid \<in> cu_id ` set (tb_users tb),
      tb\<lparr>tb_users := delete_rows (\<lambda>c. cu_id c = uid) (tb_users tb),
         tb_tokens := delete_rows (\<lambda>c. ck_user_id c = uid) (tb_tokens tb)\<rparr>)"

subsection \<open>Tokens\<close>

text \<open>What \<open>insert_token\<close> is given, with times as \<open>datetime\<close> values.\<close>

datatype 't new_token = New_Token (nt_id: ustring) (nt_name: ustring) (nt_type: token_type) (nt_scope: scope) (nt_user_id: ustring)
  (nt_created_at: 't) (nt_last_used_at: "'t option") (nt_expires_at: "'t option") (nt_revoked_at: "'t option")

definition token_columns_of :: "datetime new_token \<Rightarrow> ustring \<Rightarrow> token_columns" where
  "token_columns_of t secret_sha256 =
     \<lparr>ck_id = nt_id t, ck_secret_sha256 = secret_sha256, ck_name = nt_name t, ck_type = type_value (nt_type t),
      ck_scope = scope_value (nt_scope t), ck_user_id = nt_user_id t, ck_created_at = isoformat (nt_created_at t),
      ck_last_used_at = iso (nt_last_used_at t), ck_expires_at = iso (nt_expires_at t), ck_revoked_at = iso (nt_revoked_at t)\<rparr>"

definition sql_insert_token :: "datetime new_token \<Rightarrow> ustring \<Rightarrow> tables \<Rightarrow> exn + tables" where
  "sql_insert_token t secret_sha256 tb =
     (if nt_id t \<in> ck_id ` set (tb_tokens tb) \<or> secret_sha256 \<in> ck_secret_sha256 ` set (tb_tokens tb)
         \<or> nt_user_id t \<notin> cu_id ` set (tb_users tb) then Inl IntegrityError
      else Inr (tb\<lparr>tb_tokens := tb_tokens tb @ [token_columns_of t secret_sha256]\<rparr>))"

definition sql_token_by_secret :: "ustring \<Rightarrow> tables \<Rightarrow> token_row option option" where
  "sql_token_by_secret secret_sha256 tb = read_one read_token (row_with ck_secret_sha256 secret_sha256 (tb_tokens tb))"

definition sql_token_by_id :: "ustring \<Rightarrow> tables \<Rightarrow> token_row option option" where
  "sql_token_by_id tid tb = read_one read_token (row_with ck_id tid (tb_tokens tb))"

definition sql_update_token :: "(token_columns \<Rightarrow> bool) \<Rightarrow> (token_columns \<Rightarrow> token_columns) \<Rightarrow> tables \<Rightarrow> tables" where
  "sql_update_token P f tb = tb\<lparr>tb_tokens := update_rows P f (tb_tokens tb)\<rparr>"

definition sql_touch_token :: "ustring \<Rightarrow> datetime \<Rightarrow> datetime option \<Rightarrow> tables \<Rightarrow> tables" where
  "sql_touch_token tid last_used_at expires_at tb =
     (case expires_at of
        None \<Rightarrow> sql_update_token (\<lambda>c. ck_id c = tid) (\<lambda>c. c\<lparr>ck_last_used_at := iso (Some last_used_at)\<rparr>) tb
      | Some e \<Rightarrow> sql_update_token (\<lambda>c. ck_id c = tid)
          (\<lambda>c. c\<lparr>ck_last_used_at := iso (Some last_used_at), ck_expires_at := iso (Some e)\<rparr>) tb)"

definition sql_revoke_token :: "ustring \<Rightarrow> datetime \<Rightarrow> tables \<Rightarrow> tables" where
  "sql_revoke_token tid at tb =
     sql_update_token (\<lambda>c. ck_id c = tid \<and> ck_revoked_at c = None) (\<lambda>c. c\<lparr>ck_revoked_at := iso (Some at)\<rparr>) tb"

definition sql_other_session :: "ustring \<Rightarrow> ustring \<Rightarrow> token_columns \<Rightarrow> bool" where
  "sql_other_session uid keep c \<longleftrightarrow>
     ck_user_id c = uid \<and> ck_type c = lit ''session'' \<and> ck_id c \<noteq> keep \<and> ck_revoked_at c = None"

definition sql_revoke_other_sessions :: "ustring \<Rightarrow> ustring \<Rightarrow> datetime \<Rightarrow> tables \<Rightarrow> nat \<times> tables" where
  "sql_revoke_other_sessions uid keep at tb =
     (length (filter (sql_other_session uid keep) (tb_tokens tb)),
      sql_update_token (sql_other_session uid keep) (\<lambda>c. c\<lparr>ck_revoked_at := iso (Some at)\<rparr>) tb)"

definition sql_list_agent_tokens :: "tables \<Rightarrow> (token_row \<times> ustring) list option" where
  "sql_list_agent_tokens tb =
     read_all (\<lambda>(c, username). map_option (\<lambda>t. (t, username)) (read_token c))
       (sort_key (\<lambda>(c, _). (ck_created_at c, ck_id c))
          [(c, cu_username u). c \<leftarrow> tb_tokens tb, ck_type c = lit ''agent'' \<and> ck_revoked_at c = None,
                               u \<leftarrow> tb_users tb, cu_id u = ck_user_id c])"

definition sql_dead_session :: "datetime \<Rightarrow> token_columns \<Rightarrow> bool" where
  "sql_dead_session now c \<longleftrightarrow> ck_type c = lit ''session''
     \<and> (ck_revoked_at c \<noteq> None \<or> (case ck_expires_at c of None \<Rightarrow> False | Some e \<Rightarrow> e \<le> isoformat now))"

definition sql_delete_dead_sessions :: "datetime \<Rightarrow> tables \<Rightarrow> nat \<times> tables" where
  "sql_delete_dead_sessions now tb =
     (length (filter (sql_dead_session now) (tb_tokens tb)),
      tb\<lparr>tb_tokens := delete_rows (sql_dead_session now) (tb_tokens tb)\<rparr>)"

subsection \<open>Sites\<close>

definition sql_insert_site :: "ustring \<Rightarrow> ustring \<Rightarrow> datetime \<Rightarrow> tables \<Rightarrow> exn + tables" where
  "sql_insert_site slug name at tb =
     (if slug \<in> cs_slug ` set (tb_sites tb) then Inl Conflict
      else Inr (tb\<lparr>tb_sites := tb_sites tb @ [\<lparr>cs_slug = slug, cs_name = name, cs_created_at = isoformat at\<rparr>]\<rparr>))"

definition sql_site_by_slug :: "ustring \<Rightarrow> tables \<Rightarrow> site_row option option" where
  "sql_site_by_slug slug tb = read_one read_site (row_with cs_slug slug (tb_sites tb))"

definition sql_list_sites :: "tables \<Rightarrow> site_row list option" where
  "sql_list_sites tb = read_all read_site (sort_key cs_slug (tb_sites tb))"

definition sql_delete_site :: "ustring \<Rightarrow> tables \<Rightarrow> bool \<times> tables" where
  "sql_delete_site slug tb =
     (slug \<in> cs_slug ` set (tb_sites tb),
      tb\<lparr>tb_sites := delete_rows (\<lambda>c. cs_slug c = slug) (tb_sites tb),
         tb_files := delete_rows (\<lambda>f. f_site f = slug) (tb_files tb)\<rparr>)"

section \<open>Calls\<close>

text \<open>
  The methods for users, tokens and sites as data, with times of any type; the file index holds no times, its
  rows in \<open>Db\<close> are its columns.
\<close>

datatype 't db_call =
    Count_Users | Insert_User ustring ustring ustring 't | User_By_Id ustring | User_By_Username ustring | List_Users
  | Set_Password_Hash ustring ustring | Delete_User ustring
  | Insert_Token "'t new_token" ustring | Token_By_Secret ustring | Token_By_Id ustring
  | Touch_Token ustring 't "'t option" | Revoke_Token ustring 't | Revoke_Other_Sessions ustring ustring 't
  | List_Agent_Tokens | Delete_Dead_Sessions 't
  | Insert_Site ustring ustring 't | Site_By_Slug ustring | List_Sites | Delete_Site ustring

datatype db_result =
    Done | Failed exn | Unreadable | Found bool | Counted nat
  | Got_User "user_row option" | Got_Users "user_row list" | Got_Token "token_row option"
  | Got_Agents "(token_row \<times> ustring) list" | Got_Site "site_row option" | Got_Sites "site_row list"

text \<open>\<open>Database.transaction\<close>: commit, or roll back on an error.\<close>

definition transaction :: "exn + 's \<Rightarrow> 's \<Rightarrow> db_result \<times> 's" where
  "transaction r s = (case r of Inl e \<Rightarrow> (Failed e, s) | Inr s' \<Rightarrow> (Done, s'))"

definition fetched :: "('a \<Rightarrow> db_result) \<Rightarrow> 'a option \<Rightarrow> db_result" where
  "fetched got r = (case r of None \<Rightarrow> Unreadable | Some x \<Rightarrow> got x)"

fun run_sql :: "datetime db_call \<Rightarrow> tables \<Rightarrow> db_result \<times> tables" where
  "run_sql Count_Users tb = (Counted (length (tb_users tb)), tb)"
| "run_sql (Insert_User uid name h at) tb = transaction (sql_insert_user uid name h at tb) tb"
| "run_sql (User_By_Id uid) tb = (fetched Got_User (sql_user_by_id uid tb), tb)"
| "run_sql (User_By_Username name) tb = (fetched Got_User (sql_user_by_username name tb), tb)"
| "run_sql List_Users tb = (fetched Got_Users (sql_list_users tb), tb)"
| "run_sql (Set_Password_Hash uid h) tb = (Done, sql_set_password_hash uid h tb)"
| "run_sql (Delete_User uid) tb = map_prod Found id (sql_delete_user uid tb)"
| "run_sql (Insert_Token t d) tb = transaction (sql_insert_token t d tb) tb"
| "run_sql (Token_By_Secret d) tb = (fetched Got_Token (sql_token_by_secret d tb), tb)"
| "run_sql (Token_By_Id tid) tb = (fetched Got_Token (sql_token_by_id tid tb), tb)"
| "run_sql (Touch_Token tid used expires) tb = (Done, sql_touch_token tid used expires tb)"
| "run_sql (Revoke_Token tid at) tb = (Done, sql_revoke_token tid at tb)"
| "run_sql (Revoke_Other_Sessions uid keep at) tb = map_prod Counted id (sql_revoke_other_sessions uid keep at tb)"
| "run_sql List_Agent_Tokens tb = (fetched Got_Agents (sql_list_agent_tokens tb), tb)"
| "run_sql (Delete_Dead_Sessions now) tb = map_prod Counted id (sql_delete_dead_sessions now tb)"
| "run_sql (Insert_Site slug name at) tb = transaction (sql_insert_site slug name at tb) tb"
| "run_sql (Site_By_Slug slug) tb = (fetched Got_Site (sql_site_by_slug slug tb), tb)"
| "run_sql List_Sites tb = (fetched Got_Sites (sql_list_sites tb), tb)"
| "run_sql (Delete_Site slug) tb = map_prod Found id (sql_delete_site slug tb)"

definition token_row_of :: "time new_token \<Rightarrow> token_row" where
  "token_row_of t =
     \<lparr>t_id = nt_id t, t_name = nt_name t, t_type = nt_type t, t_scope = nt_scope t, t_user_id = nt_user_id t,
      t_created_at = nt_created_at t, t_last_used_at = nt_last_used_at t, t_expires_at = nt_expires_at t,
      t_revoked_at = nt_revoked_at t\<rparr>"

fun run_db :: "time db_call \<Rightarrow> database \<Rightarrow> db_result \<times> database" where
  "run_db Count_Users db = (Counted (count_users db), db)"
| "run_db (Insert_User uid name h at) db =
     transaction (insert_user db \<lparr>u_id = uid, u_username = name, u_password_hash = h, u_created_at = at\<rparr>) db"
| "run_db (User_By_Id uid) db = (Got_User (user_by_id db uid), db)"
| "run_db (User_By_Username name) db = (Got_User (user_by_username db name), db)"
| "run_db List_Users db = (Got_Users (list_users db), db)"
| "run_db (Set_Password_Hash uid h) db = (Done, set_password_hash db uid h)"
| "run_db (Delete_User uid) db = map_prod Found id (delete_user db uid)"
| "run_db (Insert_Token t d) db = transaction (insert_token db (token_row_of t) d) db"
| "run_db (Token_By_Secret d) db = (Got_Token (token_by_secret db d), db)"
| "run_db (Token_By_Id tid) db = (Got_Token (token_by_id db tid), db)"
| "run_db (Touch_Token tid used expires) db = (Done, touch_token db tid used expires)"
| "run_db (Revoke_Token tid at) db = (Done, revoke_token db tid at)"
| "run_db (Revoke_Other_Sessions uid keep at) db = map_prod Counted id (revoke_other_sessions db uid keep at)"
| "run_db List_Agent_Tokens db = (Got_Agents (list_agent_tokens db), db)"
| "run_db (Delete_Dead_Sessions now) db = map_prod Counted id (delete_dead_sessions db now)"
| "run_db (Insert_Site slug name at) db = transaction (insert_site db \<lparr>s_slug = slug, s_name = name, s_created_at = at\<rparr>) db"
| "run_db (Site_By_Slug slug) db = (Got_Site (site_by_slug db slug), db)"
| "run_db List_Sites db = (Got_Sites (list_sites db), db)"
| "run_db (Delete_Site slug) db = map_prod Found id (delete_site_row db slug)"

fun run_calls :: "('c \<Rightarrow> 's \<Rightarrow> 'r \<times> 's) \<Rightarrow> 'c list \<Rightarrow> 's \<Rightarrow> 'r list \<times> 's" where
  "run_calls run [] s = ([], s)"
| "run_calls run (c # cs) s =
     (case run c s of (r, s') \<Rightarrow> (case run_calls run cs s' of (rs, s'') \<Rightarrow> (r # rs, s'')))"

section \<open>What the tables stand for\<close>

definition stands_for :: "ustring \<Rightarrow> time \<Rightarrow> bool" where
  "stands_for s t = (case fromisoformat s of None \<Rightarrow> False | Some d \<Rightarrow> isoformat d = s \<and> instant d = t)"

definition user_rel :: "user_columns \<Rightarrow> user_row \<Rightarrow> bool" where
  "user_rel c u \<longleftrightarrow> cu_id c = u_id u \<and> cu_username c = u_username u \<and> cu_password_hash c = u_password_hash u
     \<and> stands_for (cu_created_at c) (u_created_at u)"

definition token_rel :: "token_columns \<Rightarrow> ustring \<times> token_row \<Rightarrow> bool" where
  "token_rel c r \<longleftrightarrow> (case r of (d, t) \<Rightarrow>
     ck_id c = t_id t \<and> ck_secret_sha256 c = d \<and> ck_name c = t_name t \<and> ck_type c = type_value (t_type t)
     \<and> ck_scope c = scope_value (t_scope t) \<and> ck_user_id c = t_user_id t \<and> stands_for (ck_created_at c) (t_created_at t)
     \<and> rel_option stands_for (ck_last_used_at c) (t_last_used_at t) \<and> rel_option stands_for (ck_expires_at c) (t_expires_at t)
     \<and> rel_option stands_for (ck_revoked_at c) (t_revoked_at t))"

definition site_rel :: "site_columns \<Rightarrow> site_row \<Rightarrow> bool" where
  "site_rel c s \<longleftrightarrow> cs_slug c = s_slug s \<and> cs_name c = s_name s \<and> stands_for (cs_created_at c) (s_created_at s)"

definition hold :: "tables \<Rightarrow> database \<Rightarrow> bool" where
  "hold tb db \<longleftrightarrow> list_all2 user_rel (tb_users tb) (db_users db) \<and> list_all2 token_rel (tb_tokens tb) (db_tokens db)
     \<and> list_all2 site_rel (tb_sites tb) (db_sites db) \<and> tb_files tb = db_files db"

lemma fromisoformat_valid: "fromisoformat s = Some d \<Longrightarrow> valid_datetime d"
  by (auto simp: fromisoformat_def Let_def split: option.splits if_splits)

lemma stands_isoformat [simp]: "valid_datetime d \<Longrightarrow> stands_for (isoformat d) (instant d)"
  by (simp add: stands_for_def fromisoformat_isoformat)

lemma stands_forE:
  assumes "stands_for s t"
  obtains d where "valid_datetime d" "s = isoformat d" "t = instant d" "fromisoformat s = Some d"
  using assms by (auto simp: stands_for_def dest: fromisoformat_valid split: option.splits)

lemma stands_le: "stands_for a s \<Longrightarrow> stands_for b t \<Longrightarrow> a \<le> b \<longleftrightarrow> s \<le> t"
  by (elim stands_forE) (simp add: isoformat_less datetime_less_instant flip: not_less)

lemma stands_created: "stands_for s t \<Longrightarrow> created s = Some t"
  by (auto simp: created_def elim: stands_forE)

lemma stands_dt: "rel_option stands_for s t \<Longrightarrow> dt s = Some t"
  by (cases s; cases t) (auto simp: dt_def elim: stands_forE)

lemma stands_iso: "\<forall>d\<in>set_option v. valid_datetime d \<Longrightarrow> rel_option stands_for (iso v) (map_option instant v)"
  by (cases v) (simp_all add: iso_def)

lemma read_rel:
  "user_rel cu u \<Longrightarrow> read_user cu = Some u"
  "token_rel ck r \<Longrightarrow> read_token ck = Some (snd r)"
  "site_rel cs s \<Longrightarrow> read_site cs = Some s"
  by (auto simp: user_rel_def read_user_def token_rel_def read_token_def site_rel_def read_site_def stands_created stands_dt
      split: prod.splits)

section \<open>Related lists of rows\<close>

lemma rel_row_with:
  "list_all2 R xs ys \<Longrightarrow> (\<And>x y. R x y \<Longrightarrow> kx x = ky y) \<Longrightarrow> rel_option R (row_with kx k xs) (row_with ky k ys)"
  by (induction rule: list_all2_induct) auto

lemma rel_keys: "list_all2 R xs ys \<Longrightarrow> (\<And>x y. R x y \<Longrightarrow> kx x = ky y) \<Longrightarrow> kx ` set xs = ky ` set ys"
  by (induction rule: list_all2_induct) auto

lemma rel_update_rows:
  "list_all2 R xs ys \<Longrightarrow> (\<And>x y. R x y \<Longrightarrow> P x = Q y) \<Longrightarrow> (\<And>x y. R x y \<Longrightarrow> Q y \<Longrightarrow> R (f x) (g y)) \<Longrightarrow>
    list_all2 R (update_rows P f xs) (update_rows Q g ys)"
  by (induction rule: list_all2_induct) (auto simp: update_rows_def)

lemma rel_delete_rows:
  "list_all2 R xs ys \<Longrightarrow> (\<And>x y. R x y \<Longrightarrow> P x = Q y) \<Longrightarrow> list_all2 R (delete_rows P xs) (delete_rows Q ys)"
  by (induction rule: list_all2_induct) (auto simp: delete_rows_def)

lemma rel_filter:
  "list_all2 R xs ys \<Longrightarrow> (\<And>x y. R x y \<Longrightarrow> P x = Q y) \<Longrightarrow> list_all2 R (filter P xs) (filter Q ys)"
  by (induction rule: list_all2_induct) auto

lemma rel_insort:
  assumes "\<And>x y x' y'. R x y \<Longrightarrow> R x' y' \<Longrightarrow> kx x \<le> kx x' \<longleftrightarrow> ky y \<le> ky y'" "R x y" "list_all2 R xs ys"
  shows "list_all2 R (insort_key kx x xs) (insort_key ky y ys)"
  using assms(3,2) by (induction rule: list_all2_induct) (auto simp: assms(1))

lemma rel_sort:
  assumes "\<And>x y x' y'. R x y \<Longrightarrow> R x' y' \<Longrightarrow> kx x \<le> kx x' \<longleftrightarrow> ky y \<le> ky y'" "list_all2 R xs ys"
  shows "list_all2 R (sort_key kx xs) (sort_key ky ys)"
  using assms(2) by (induction rule: list_all2_induct) (simp_all add: rel_insort [OF assms(1)])

lemma read_one_rel:
  "rel_option R x y \<Longrightarrow> (\<And>x y. R x y \<Longrightarrow> f x = Some (g y)) \<Longrightarrow> read_one f x = Some (map_option g y)"
  by (cases x; cases y) (auto simp: read_one_def)

lemma read_all_rel:
  "list_all2 R xs ys \<Longrightarrow> (\<And>x y. R x y \<Longrightarrow> f x = Some (g y)) \<Longrightarrow> read_all f xs = Some (map g ys)"
  by (induction rule: list_all2_induct) (auto simp: read_all_def)

section \<open>The simulation\<close>

lemma holdD:
  assumes "hold tb db"
  shows "list_all2 user_rel (tb_users tb) (db_users db)" "list_all2 token_rel (tb_tokens tb) (db_tokens db)"
    "list_all2 site_rel (tb_sites tb) (db_sites db)" "tb_files tb = db_files db"
  using assms by (simp_all add: hold_def)

lemma rel_columns:
  "user_rel cu u \<Longrightarrow> cu_id cu = u_id u" "user_rel cu u \<Longrightarrow> cu_username cu = u_username u"
  "token_rel ck r \<Longrightarrow> ck_id ck = tok_id r" "token_rel ck r \<Longrightarrow> ck_secret_sha256 ck = fst r"
  "token_rel ck r \<Longrightarrow> ck_user_id ck = t_user_id (snd r)" "token_rel ck r \<Longrightarrow> ck_type ck = type_value (t_type (snd r))"
  "token_rel ck r \<Longrightarrow> ck_revoked_at ck = None \<longleftrightarrow> t_revoked_at (snd r) = None"
  "site_rel cs s \<Longrightarrow> cs_slug cs = s_slug s"
  by (auto simp: user_rel_def token_rel_def site_rel_def)

lemma hold_keys:
  assumes "hold tb db"
  shows "uid \<in> cu_id ` set (tb_users tb) \<longleftrightarrow> user_by_id db uid \<noteq> None"
    "name \<in> cu_username ` set (tb_users tb) \<longleftrightarrow> user_by_username db name \<noteq> None"
    "tid \<in> ck_id ` set (tb_tokens tb) \<longleftrightarrow> token_by_id db tid \<noteq> None"
    "d \<in> ck_secret_sha256 ` set (tb_tokens tb) \<longleftrightarrow> token_by_secret db d \<noteq> None"
    "slug \<in> cs_slug ` set (tb_sites tb) \<longleftrightarrow> site_by_slug db slug \<noteq> None"
  using rel_keys [OF holdD(1) [OF assms] rel_columns(1)] rel_keys [OF holdD(1) [OF assms] rel_columns(2)]
    rel_keys [OF holdD(2) [OF assms] rel_columns(3)] rel_keys [OF holdD(2) [OF assms] rel_columns(4)]
    rel_keys [OF holdD(3) [OF assms] rel_columns(8)]
  by (simp_all add: user_by_id_def user_by_username_def token_by_id_def token_by_secret_def site_by_slug_def row_with_None)

lemma hold_insert:
  assumes "hold tb db" "valid_datetime at"
  shows "rel_sum (=) hold (sql_insert_user uid name h at tb)
      (insert_user db \<lparr>u_id = uid, u_username = name, u_password_hash = h, u_created_at = instant at\<rparr>)"
    "rel_sum (=) hold (sql_insert_site slug sname at tb) (insert_site db \<lparr>s_slug = slug, s_name = sname, s_created_at = instant at\<rparr>)"
  using assms hold_keys [OF assms(1)]
  by (auto simp: sql_insert_user_def insert_user_def sql_insert_site_def insert_site_def hold_def user_rel_def site_rel_def
      intro!: list_all2_appendI)

lemma hold_insert_token:
  assumes "hold tb db" "\<forall>x\<in>set_new_token t. valid_datetime x"
  shows "rel_sum (=) hold (sql_insert_token t d tb) (insert_token db (token_row_of (map_new_token instant t)) d)"
proof -
  have "token_rel (token_columns_of t d) (d, token_row_of (map_new_token instant t))"
    using assms(2) by (cases t) (auto simp: token_rel_def token_columns_of_def token_row_of_def intro!: stands_iso)
  moreover have "nt_id (map_new_token instant t) = nt_id t" "nt_user_id (map_new_token instant t) = nt_user_id t"
    by (cases t; simp)+
  ultimately show ?thesis
    using assms(1) hold_keys [OF assms(1)]
    by (auto simp: sql_insert_token_def insert_token_def hold_def token_row_of_def intro!: list_all2_appendI)
qed

lemma hold_select:
  assumes "hold tb db"
  shows "(\<And>x y. user_rel x y \<Longrightarrow> ku x = ku' y) \<Longrightarrow> read_one read_user (row_with ku k (tb_users tb)) = Some (row_with ku' k (db_users db))"
    "(\<And>x y. token_rel x y \<Longrightarrow> kt x = kt' y) \<Longrightarrow> read_one read_token (row_with kt k (tb_tokens tb)) = Some (map_option snd (row_with kt' k (db_tokens db)))"
    "(\<And>x y. site_rel x y \<Longrightarrow> ks x = ks' y) \<Longrightarrow> read_one read_site (row_with ks k (tb_sites tb)) = Some (row_with ks' k (db_sites db))"
proof -
  show "read_one read_user (row_with ku k (tb_users tb)) = Some (row_with ku' k (db_users db))" if "\<And>x y. user_rel x y \<Longrightarrow> ku x = ku' y"
    using read_one_rel [OF rel_row_with [OF holdD(1) [OF assms] that], where f = read_user and g = id] by (simp add: read_rel option.map_id)
  show "read_one read_token (row_with kt k (tb_tokens tb)) = Some (map_option snd (row_with kt' k (db_tokens db)))" if "\<And>x y. token_rel x y \<Longrightarrow> kt x = kt' y"
    using read_one_rel [OF rel_row_with [OF holdD(2) [OF assms] that], where f = read_token and g = snd] by (simp add: read_rel)
  show "read_one read_site (row_with ks k (tb_sites tb)) = Some (row_with ks' k (db_sites db))" if "\<And>x y. site_rel x y \<Longrightarrow> ks x = ks' y"
    using read_one_rel [OF rel_row_with [OF holdD(3) [OF assms] that], where f = read_site and g = id] by (simp add: read_rel option.map_id)
qed

lemma hold_lookup:
  assumes "hold tb db"
  shows "sql_user_by_id uid tb = Some (user_by_id db uid)" "sql_user_by_username name tb = Some (user_by_username db name)"
    "sql_token_by_secret d tb = Some (token_by_secret db d)" "sql_token_by_id tid tb = Some (token_by_id db tid)"
    "sql_site_by_slug slug tb = Some (site_by_slug db slug)"
  unfolding sql_user_by_id_def sql_user_by_username_def sql_token_by_secret_def sql_token_by_id_def sql_site_by_slug_def
    user_by_id_def user_by_username_def token_by_secret_def token_by_id_def site_by_slug_def
  by (rule hold_select [OF assms], erule rel_columns)+

lemma hold_lists:
  assumes "hold tb db"
  shows "sql_list_users tb = Some (list_users db)" "sql_list_sites tb = Some (list_sites db)"
proof -
  have "list_all2 user_rel (sort_key cu_username (tb_users tb)) (sort_key u_username (db_users db))"
    using holdD(1) [OF assms] by (rule rel_sort [rotated]) (simp add: rel_columns)
  then have "read_all read_user (sort_key cu_username (tb_users tb)) = Some (map id (sort_key u_username (db_users db)))"
    by (rule read_all_rel) (simp add: read_rel)
  then show "sql_list_users tb = Some (list_users db)" by (simp add: sql_list_users_def list_users_def)
  have "list_all2 site_rel (sort_key cs_slug (tb_sites tb)) (sort_key s_slug (db_sites db))"
    using holdD(3) [OF assms] by (rule rel_sort [rotated]) (simp add: rel_columns)
  then have "read_all read_site (sort_key cs_slug (tb_sites tb)) = Some (map id (sort_key s_slug (db_sites db)))"
    by (rule read_all_rel) (simp add: read_rel)
  then show "sql_list_sites tb = Some (list_sites db)" by (simp add: sql_list_sites_def list_sites_def)
qed

lemma hold_update_tokens:
  assumes "hold tb db" "\<And>c d t. token_rel c (d, t) \<Longrightarrow> P c = Q t"
    "\<And>c d t. token_rel c (d, t) \<Longrightarrow> Q t \<Longrightarrow> token_rel (f c) (d, g t)"
  shows "hold (sql_update_token P f tb) (update_token db Q g)"
proof -
  have "list_all2 token_rel (update_rows P f (tb_tokens tb)) (update_rows (\<lambda>(_, t). Q t) (\<lambda>(d, t). (d, g t)) (db_tokens db))"
    using holdD(2) [OF assms(1)] by (rule rel_update_rows) (auto simp: assms(2) intro: assms(3))
  then show ?thesis using assms(1) by (simp add: hold_def sql_update_token_def update_token_def)
qed

lemma hold_touch:
  assumes "hold tb db" "valid_datetime used" "\<forall>e\<in>set_option expires. valid_datetime e"
  shows "hold (sql_touch_token tid used expires tb) (touch_token db tid (instant used) (map_option instant expires))"
  using assms unfolding sql_touch_token_def touch_token_def
  by (cases expires) (auto simp: token_rel_def iso_def intro!: hold_update_tokens)

lemma session_iff:
  assumes "token_rel c (d, t)"
  shows "ck_type c = lit ''session'' \<longleftrightarrow> t_type t = SESSION" "ck_type c = lit ''agent'' \<longleftrightarrow> t_type t = AGENT"
  using assms type_value_eq [of "t_type t" SESSION] type_value_eq [of "t_type t" AGENT]
  by (simp_all add: token_rel_def del: type_value_eq)

lemma other_session_iff: "token_rel c (d, t) \<Longrightarrow> sql_other_session uid keep c = other_live_session uid keep t"
  using rel_columns(3,5,7) [of c "(d, t)"] session_iff [of c d t] by (auto simp: sql_other_session_def other_live_session_def)

lemma hold_revoke:
  assumes "hold tb db" "valid_datetime at"
  shows "hold (sql_revoke_token tid at tb) (revoke_token db tid (instant at))"
    "rel_prod (=) hold (sql_revoke_other_sessions uid keep at tb) (revoke_other_sessions db uid keep (instant at))"
proof -
  have r: "token_rel (c\<lparr>ck_revoked_at := iso (Some at)\<rparr>) (d, t\<lparr>t_revoked_at := Some (instant at)\<rparr>)" if "token_rel c (d, t)" for c d t
    using that assms(2) by (auto simp: token_rel_def iso_def)
  show "hold (sql_revoke_token tid at tb) (revoke_token db tid (instant at))"
    unfolding sql_revoke_token_def revoke_token_def
    using assms(1) by (rule hold_update_tokens) (use rel_columns(3,7) r in \<open>fastforce+\<close>)
  have "list_all2 token_rel (filter (sql_other_session uid keep) (tb_tokens tb))
      (filter (\<lambda>(_, t). other_live_session uid keep t) (db_tokens db))"
    using holdD(2) [OF assms(1)] by (rule rel_filter) (auto simp: other_session_iff)
  moreover have "hold (sql_update_token (sql_other_session uid keep) (\<lambda>c. c\<lparr>ck_revoked_at := iso (Some at)\<rparr>) tb)
      (update_token db (other_live_session uid keep) (t_revoked_at_update (\<lambda>_. Some (instant at))))"
    using assms(1) by (rule hold_update_tokens) (auto simp: other_session_iff r)
  ultimately show "rel_prod (=) hold (sql_revoke_other_sessions uid keep at tb) (revoke_other_sessions db uid keep (instant at))"
    by (simp add: sql_revoke_other_sessions_def revoke_other_sessions_def list_all2_lengthD)
qed

text \<open>An expired session is found by comparing texts.\<close>

lemma dead_session_iff:
  assumes "valid_datetime now" "token_rel c (d, t)"
  shows "sql_dead_session now c = dead_session (instant now) t"
proof -
  have "rel_option stands_for (ck_expires_at c) (t_expires_at t)" using assms(2) by (simp add: token_rel_def)
  then have "(case ck_expires_at c of None \<Rightarrow> False | Some e \<Rightarrow> e \<le> isoformat now) =
      (case t_expires_at t of None \<Rightarrow> False | Some e \<Rightarrow> e \<le> instant now)"
    using stands_le [OF _ stands_isoformat [OF assms(1)]] by (cases "ck_expires_at c"; cases "t_expires_at t") auto
  then show ?thesis
    using rel_columns(7) [OF assms(2)] session_iff(1) [OF assms(2)] by (simp add: sql_dead_session_def dead_session_def)
qed

lemma hold_delete_dead:
  assumes "hold tb db" "valid_datetime now"
  shows "rel_prod (=) hold (sql_delete_dead_sessions now tb) (delete_dead_sessions db (instant now))"
proof -
  have i: "sql_dead_session now c = (case r of (_, t) \<Rightarrow> dead_session (instant now) t)" if "token_rel c r" for c r
    using that dead_session_iff [OF assms(2)] by (cases r) simp
  have "list_all2 token_rel (filter (sql_dead_session now) (tb_tokens tb))
      (filter (\<lambda>(_, t). dead_session (instant now) t) (db_tokens db))"
    using holdD(2) [OF assms(1)] i by (rule rel_filter)
  moreover have "list_all2 token_rel (delete_rows (sql_dead_session now) (tb_tokens tb))
      (delete_rows (\<lambda>(_, t). dead_session (instant now) t) (db_tokens db))"
    using holdD(2) [OF assms(1)] i by (rule rel_delete_rows)
  ultimately show ?thesis
    using assms(1) by (simp add: sql_delete_dead_sessions_def delete_dead_sessions_def hold_def list_all2_lengthD)
qed

lemma list_all2_concat:
  "list_all2 (list_all2 R) xss yss \<Longrightarrow> list_all2 R (concat xss) (concat yss)"
  by (induction rule: list_all2_induct) (auto intro: list_all2_appendI)

lemma rel_map:
  "list_all2 R xs ys \<Longrightarrow> (\<And>x y. R x y \<Longrightarrow> S (f x) (g y)) \<Longrightarrow> list_all2 S (map f xs) (map g ys)"
  by (induction rule: list_all2_induct) auto

text \<open>The join of tokens and users, sorted by the text of the time and the id.\<close>

definition agent_rel :: "token_columns \<times> ustring \<Rightarrow> token_row \<times> ustring \<Rightarrow> bool" where
  "agent_rel x y \<longleftrightarrow> (\<exists>d. token_rel (fst x) (d, fst y)) \<and> snd x = snd y"

lemma hold_agents:
  assumes "hold tb db"
  shows "sql_list_agent_tokens tb = Some (list_agent_tokens db)"
proof -
  let ?join = "[(c, cu_username u). c \<leftarrow> tb_tokens tb, ck_type c = lit ''agent'' \<and> ck_revoked_at c = None,
      u \<leftarrow> tb_users tb, cu_id u = ck_user_id c]"
  let ?join' = "[(t, u_username u). (_, t) \<leftarrow> db_tokens db, t_type t = AGENT \<and> t_revoked_at t = None,
      u \<leftarrow> db_users db, u_id u = t_user_id t]"
  have one: "list_all2 agent_rel
      (if ck_type c = lit ''agent'' \<and> ck_revoked_at c = None
       then concat (map (\<lambda>u. if cu_id u = ck_user_id c then [(c, cu_username u)] else []) (tb_users tb)) else [])
      (case r of (_, t) \<Rightarrow> if t_type t = AGENT \<and> t_revoked_at t = None
       then concat (map (\<lambda>u. if u_id u = t_user_id t then [(t, u_username u)] else []) (db_users db)) else [])"
    if "token_rel c r" for c r
  proof (cases r)
    case (Pair d t)
    have "list_all2 agent_rel
        (concat (map (\<lambda>u. if cu_id u = ck_user_id c then [(c, cu_username u)] else []) (tb_users tb)))
        (concat (map (\<lambda>u. if u_id u = t_user_id t then [(t, u_username u)] else []) (db_users db)))"
      using that rel_columns(5) [OF that] unfolding Pair
      by (intro list_all2_concat rel_map [OF holdD(1) [OF assms]]) (auto simp: agent_rel_def rel_columns)
    then show ?thesis
      using that rel_columns(7) [OF that] session_iff(2) [of c d t] by (simp add: Pair)
  qed
  have "list_all2 agent_rel ?join ?join'"
    by (intro list_all2_concat rel_map [OF holdD(2) [OF assms]] one)
  moreover have "(case x of (c, _) \<Rightarrow> (ck_created_at c, ck_id c)) \<le> (case x' of (c, _) \<Rightarrow> (ck_created_at c, ck_id c))
      \<longleftrightarrow> (case y of (t, _) \<Rightarrow> (t_created_at t, t_id t)) \<le> (case y' of (t, _) \<Rightarrow> (t_created_at t, t_id t))"
    if "agent_rel x y" "agent_rel x' y'" for x y x' y'
  proof -
    have "stands_for (ck_created_at (fst x)) (t_created_at (fst y))" "stands_for (ck_created_at (fst x')) (t_created_at (fst y'))"
      "ck_id (fst x) = t_id (fst y)" "ck_id (fst x') = t_id (fst y')"
      using that by (auto simp: agent_rel_def token_rel_def)
    then show ?thesis using stands_le by (auto simp: less_eq_prod_def less_le_not_le split: prod.splits)
  qed
  ultimately have "list_all2 agent_rel (sort_key (\<lambda>(c, _). (ck_created_at c, ck_id c)) ?join)
      (sort_key (\<lambda>(t, _). (t_created_at t, t_id t)) ?join')"
    by (intro rel_sort)
  then have "read_all (\<lambda>(c, username). map_option (\<lambda>t. (t, username)) (read_token c))
        (sort_key (\<lambda>(c, _). (ck_created_at c, ck_id c)) ?join) =
      Some (map id (sort_key (\<lambda>(t, _). (t_created_at t, t_id t)) ?join'))"
    by (rule read_all_rel) (auto simp: agent_rel_def read_rel split: prod.splits)
  then show ?thesis by (simp add: sql_list_agent_tokens_def list_agent_tokens_def)
qed

lemma hold_deletes:
  assumes "hold tb db"
  shows "rel_prod (=) hold (sql_delete_user uid tb) (delete_user db uid)"
    "rel_prod (=) hold (sql_delete_site slug tb) (delete_site_row db slug)"
    "hold (sql_set_password_hash uid h tb) (set_password_hash db uid h)"
proof -
  have "list_all2 user_rel (delete_rows (\<lambda>c. cu_id c = uid) (tb_users tb)) (delete_rows (\<lambda>u. u_id u = uid) (db_users db))"
    using holdD(1) [OF assms] by (rule rel_delete_rows) (simp add: rel_columns)
  moreover have "list_all2 token_rel (delete_rows (\<lambda>c. ck_user_id c = uid) (tb_tokens tb))
      (delete_rows (\<lambda>(_, t). t_user_id t = uid) (db_tokens db))"
    using holdD(2) [OF assms] by (rule rel_delete_rows) (auto simp: rel_columns)
  ultimately show "rel_prod (=) hold (sql_delete_user uid tb) (delete_user db uid)"
    using assms hold_keys(1) [OF assms] by (simp add: sql_delete_user_def delete_user_def hold_def)
  have "list_all2 site_rel (delete_rows (\<lambda>c. cs_slug c = slug) (tb_sites tb)) (delete_rows (\<lambda>s. s_slug s = slug) (db_sites db))"
    using holdD(3) [OF assms] by (rule rel_delete_rows) (simp add: rel_columns)
  then show "rel_prod (=) hold (sql_delete_site slug tb) (delete_site_row db slug)"
    using assms hold_keys(5) [OF assms] by (simp add: sql_delete_site_def delete_site_row_def hold_def)
  have "list_all2 user_rel (update_rows (\<lambda>c. cu_id c = uid) (\<lambda>c. c\<lparr>cu_password_hash := h\<rparr>) (tb_users tb))
      (update_rows (\<lambda>u. u_id u = uid) (u_password_hash_update (\<lambda>_. h)) (db_users db))"
    using holdD(1) [OF assms] by (rule rel_update_rows) (auto simp: user_rel_def)
  then show "hold (sql_set_password_hash uid h tb) (set_password_hash db uid h)"
    using assms by (simp add: sql_set_password_hash_def set_password_hash_def hold_def)
qed

lemma hold_transaction: "hold tb db \<Longrightarrow> rel_sum (=) hold r r' \<Longrightarrow> rel_prod (=) hold (transaction r tb) (transaction r' db)"
  by (cases r; cases r') (auto simp: transaction_def)

lemma rel_prod_map: "rel_prod (=) hold x y \<Longrightarrow> rel_prod (=) hold (map_prod f id x) (map_prod f id y)"
  by (cases x; cases y) auto

lemma hold_call:
  assumes "hold tb db" "\<forall>d\<in>set_db_call c. valid_datetime d"
  shows "rel_prod (=) hold (run_sql c tb) (run_db (map_db_call instant c) db)"
  using assms
proof (cases c)
  case (Insert_Token t d)
  then show ?thesis using assms by (simp add: hold_transaction hold_insert_token)
qed (auto simp: fetched_def count_users_def hold_lookup hold_lists hold_agents list_all2_lengthD [OF holdD(1)]
    intro!: hold_transaction hold_insert hold_deletes hold_touch hold_revoke hold_delete_dead rel_prod_map)

text \<open>
  C19. The tables refine the database: whatever sequence of calls the rest of the backend makes, the statements
  over texts return what the operations of \<open>Db\<close> return over instants (no row is unreadable, expired sessions are found
  and lists are ordered by comparing texts), and the tables go on standing for the database.
\<close>

theorem tables_refine_db:
  assumes "hold tb db" "\<forall>c\<in>set cs. \<forall>d\<in>set_db_call c. valid_datetime d"
  shows "fst (run_calls run_sql cs tb) = fst (run_calls run_db (map (map_db_call instant) cs) db)
    \<and> hold (snd (run_calls run_sql cs tb)) (snd (run_calls run_db (map (map_db_call instant) cs) db))"
  using assms
proof (induction cs arbitrary: tb db)
  case (Cons c cs)
  have "rel_prod (=) hold (run_sql c tb) (run_db (map_db_call instant c) db)"
    using Cons.prems by (intro hold_call) simp_all
  then obtain r tb' db' where c: "run_sql c tb = (r, tb')" "run_db (map_db_call instant c) db = (r, db')" "hold tb' db'"
    by (cases "run_sql c tb"; cases "run_db (map_db_call instant c) db") auto
  have "\<forall>c\<in>set cs. \<forall>d\<in>set_db_call c. valid_datetime d" using Cons.prems(2) by simp
  from Cons.IH [OF c(3) this] show ?case by (auto simp: c split: prod.split)
qed simp

definition no_tables :: tables where
  "no_tables = \<lparr>tb_users = [], tb_tokens = [], tb_sites = [], tb_files = []\<rparr>"

definition sample_calls :: "datetime db_call list" where
  "sample_calls =
     [Insert_User (lit ''u'') (lit ''ada'') (lit ''h'') (leap_day_end 0),
      Insert_Token (New_Token (lit ''t'') (lit ''session'') SESSION SESSION_SCOPE (lit ''u'') (leap_day_end 0) None
        (Some (leap_day_end 0)) None) (lit ''digest''),
      Delete_Dead_Sessions (leap_day_end 5), Delete_User (lit ''u'')]"

theorem tables_refine_db_witness:
  "fst (run_calls run_sql sample_calls no_tables) = [Done, Done, Counted 1, Found True]"
proof -
  have "hold no_tables empty_db" by (simp add: hold_def no_tables_def empty_db_def)
  moreover have v: "valid_datetime (leap_day_end 0)" "valid_datetime (leap_day_end 5)"
    by (simp_all add: leap_day_end_def valid_datetime_def days_in_month_def is_leap_def)
  then have "\<forall>c\<in>set sample_calls. \<forall>d\<in>set_db_call c. valid_datetime d" by (simp add: sample_calls_def)
  ultimately have "fst (run_calls run_sql sample_calls no_tables) =
      fst (run_calls run_db (map (map_db_call instant) sample_calls) empty_db)"
    using tables_refine_db by blast
  moreover have "instant (leap_day_end 0) \<le> instant (leap_day_end 5)"
    using instant_less [OF v] by (simp add: leap_day_end_def ordinal_def)
  then have "fst (run_calls run_db (map (map_db_call instant) sample_calls) empty_db) = [Done, Done, Counted 1, Found True]"
    by (simp add: sample_calls_def empty_db_def insert_user_def user_by_id_def user_by_username_def transaction_def insert_token_def
        token_row_of_def token_by_id_def token_by_secret_def delete_dead_sessions_def dead_session_def delete_user_def)
  ultimately show ?thesis by simp
qed

end
