(* ===== verification/Lifecycle.thy ===== *)
theory Lifecycle
  imports Config
begin

text \<open>
  The one HTTP client of a process, from start to stop: \<open>src/paper_boxing/frontend/backend.py\<close>
  (\<open>configure\<close>, \<open>config\<close>, \<open>client\<close> and the start and stop hooks) and the lifespan of
  \<open>src/paper_boxing/mcp/server.py\<close>.  A client is the number the factory gave it; what it is asked is in the
  theories above \<open>Client\<close>.
\<close>

section \<open>Clients made and closed\<close>

record clients =
  cn_made :: nat
  cn_closed :: "nat list"
  cn_current :: "nat option"

definition no_clients :: clients where
  "no_clients = \<lparr>cn_made = 0, cn_closed = [], cn_current = None\<rparr>"

definition make_client :: "clients \<Rightarrow> clients" where
  "make_client c = c\<lparr>cn_made := Suc (cn_made c), cn_current := Some (cn_made c)\<rparr>"

definition aclose :: "nat \<Rightarrow> clients \<Rightarrow> clients" where
  "aclose n c = c\<lparr>cn_closed := n # cn_closed c\<rparr>"

text \<open>Every client but the current one has been closed, once.\<close>

definition tidy_clients :: "clients \<Rightarrow> bool" where
  "tidy_clients c \<longleftrightarrow> distinct (cn_closed c) \<and> set (cn_closed c) = {..<cn_made c} - set_option (cn_current c)
     \<and> (\<forall>n. cn_current c = Some n \<longrightarrow> n < cn_made c)"

section \<open>The frontend\<close>

text \<open>
  Each \<open>configure\<close> adds the two hooks once more; the framework runs as many as there are when the process
  starts and stops.
\<close>

record frontend_process =
  fp_config :: "frontend_config option"
  fp_factory :: bool
  fp_hooks :: nat
  fp_clients :: clients

definition new_process :: frontend_process where
  "new_process = \<lparr>fp_config = None, fp_factory = False, fp_hooks = 0, fp_clients = no_clients\<rparr>"

definition configure :: "frontend_config \<Rightarrow> frontend_process \<Rightarrow> frontend_process" where
  "configure cfg s = s\<lparr>fp_config := Some cfg, fp_factory := True, fp_hooks := Suc (fp_hooks s)\<rparr>"

text \<open>\<open>config\<close> and \<open>client\<close> raise, \<open>None\<close>, before there is one.\<close>

definition config :: "frontend_process \<Rightarrow> frontend_config option" where
  "config s = fp_config s"

definition client :: "frontend_process \<Rightarrow> nat option" where
  "client s = cn_current (fp_clients s)"

text \<open>\<open>_open\<close> and \<open>_close\<close>; the assertion that there is a factory fails as \<open>None\<close>.\<close>

definition open_client :: "frontend_process \<Rightarrow> frontend_process option" where
  "open_client s =
     (if client s \<noteq> None then Some s
      else if \<not> fp_factory s then None else Some (s\<lparr>fp_clients := make_client (fp_clients s)\<rparr>))"

definition close_client :: "frontend_process \<Rightarrow> frontend_process option" where
  "close_client s =
     (case client s of None \<Rightarrow> Some s
      | Some n \<Rightarrow> Some (s\<lparr>fp_clients := (aclose n (fp_clients s))\<lparr>cn_current := None\<rparr>\<rparr>))"

fun run_hooks :: "nat \<Rightarrow> ('s \<Rightarrow> 's option) \<Rightarrow> 's \<Rightarrow> 's option" where
  "run_hooks 0 f s = Some s"
| "run_hooks (Suc n) f s = (case f s of None \<Rightarrow> None | Some s' \<Rightarrow> run_hooks n f s')"

inductive process_step :: "frontend_process \<Rightarrow> frontend_process \<Rightarrow> bool" where
  configured: "process_step s (configure cfg s)"
| started: "run_hooks (fp_hooks s) open_client s = Some s' \<Longrightarrow> process_step s s'"
| stopped: "run_hooks (fp_hooks s) close_client s = Some s' \<Longrightarrow> process_step s s'"

definition process_ok :: "frontend_process \<Rightarrow> bool" where
  "process_ok s \<longleftrightarrow> tidy_clients (fp_clients s) \<and> (fp_factory s \<longleftrightarrow> fp_hooks s > 0)
     \<and> (fp_factory s \<longleftrightarrow> fp_config s \<noteq> None) \<and> (client s \<noteq> None \<longrightarrow> fp_factory s)"

lemma tidy_make: "tidy_clients c \<Longrightarrow> cn_current c = None \<Longrightarrow> tidy_clients (make_client c)"
  by (simp add: tidy_clients_def make_client_def lessThan_Suc)

lemma tidy_close:
  assumes "tidy_clients c" "cn_current c = Some n"
  shows "tidy_clients ((aclose n c)\<lparr>cn_current := None\<rparr>)"
proof -
  have c: "distinct (cn_closed c)" "set (cn_closed c) = {..<cn_made c} - {n}" "n < cn_made c"
    using assms by (simp_all add: tidy_clients_def)
  then have "insert n (set (cn_closed c)) = {..<cn_made c}" by (simp add: insert_absorb)
  moreover have "n \<notin> set (cn_closed c)" using c(2) by simp
  ultimately show ?thesis using c(1) by (simp add: tidy_clients_def aclose_def)
qed

lemma open_client_ok: "process_ok s \<Longrightarrow> fp_factory s \<Longrightarrow> \<exists>s'. open_client s = Some s' \<and> process_ok s' \<and> client s' \<noteq> None
    \<and> fp_factory s' \<and> fp_hooks s' = fp_hooks s \<and> (client s \<noteq> None \<longrightarrow> s' = s)
    \<and> cn_made (fp_clients s') = cn_made (fp_clients s) + (if client s = None then 1 else 0)"
  using tidy_make [of "fp_clients s"] by (auto simp: process_ok_def open_client_def client_def make_client_def)

lemma close_client_ok: "process_ok s \<Longrightarrow> \<exists>s'. close_client s = Some s' \<and> process_ok s' \<and> client s' = None \<and> fp_hooks s' = fp_hooks s
    \<and> cn_made (fp_clients s') = cn_made (fp_clients s)"
  using tidy_close [of "fp_clients s"] by (auto simp: process_ok_def close_client_def client_def aclose_def split: option.split)

text \<open>However many hooks there are, one client is opened and it is closed once.\<close>

lemma run_open:
  assumes "process_ok s" "fp_factory s" "0 < n"
  shows "\<exists>s'. run_hooks n open_client s = Some s' \<and> process_ok s' \<and> client s' \<noteq> None
    \<and> cn_made (fp_clients s') = cn_made (fp_clients s) + (if client s = None then 1 else 0)"
proof -
  obtain s1 where s1: "open_client s = Some s1" "process_ok s1" "client s1 \<noteq> None"
    "cn_made (fp_clients s1) = cn_made (fp_clients s) + (if client s = None then 1 else 0)"
    using open_client_ok [OF assms(1,2)] by blast
  have again: "run_hooks m open_client s1 = Some s1" for m
    using s1(3) by (induction m) (simp_all add: open_client_def)
  obtain m where "n = Suc m" using assms(3) by (cases n) auto
  then show ?thesis using s1 again [of m] by simp
qed

lemma run_close: "process_ok s \<Longrightarrow> \<exists>s'. run_hooks n close_client s = Some s' \<and> process_ok s' \<and> (0 < n \<longrightarrow> client s' = None)"
proof (induction n arbitrary: s)
  case (Suc n)
  obtain s1 where s1: "close_client s = Some s1" "process_ok s1" "client s1 = None" using close_client_ok [OF Suc.prems] by blast
  obtain s2 where "run_hooks n close_client s1 = Some s2" "process_ok s2" "0 < n \<longrightarrow> client s2 = None" using Suc.IH [OF s1(2)] by blast
  then show ?case using s1 by (cases n) auto
qed simp

lemma process_step_ok: "process_step s s' \<Longrightarrow> process_ok s \<Longrightarrow> process_ok s'"
proof (induction rule: process_step.induct)
  case (configured s cfg)
  then show ?case by (auto simp: process_ok_def configure_def client_def)
next
  case (started s s')
  show ?case
  proof (cases "fp_hooks s = 0")
    case False
    then have "fp_factory s" using started(2) by (simp add: process_ok_def)
    from run_open [OF started(2) this, of "fp_hooks s"] False started(1) show ?thesis by auto
  qed (use started in simp)
next
  case (stopped s s')
  from run_close [OF stopped(2), of "fp_hooks s"] stopped(1) show ?case by auto
qed

lemma reachable_ok: "process_step\<^sup>*\<^sup>* new_process s \<Longrightarrow> process_ok s"
proof (induction rule: rtranclp_induct)
  case base
  show ?case by (simp add: process_ok_def new_process_def tidy_clients_def no_clients_def client_def)
qed (rule process_step_ok)

text \<open>
  The frontend has one client at a time and loses none: in every reachable state each client that was made is
  either the current one or has been closed exactly once; a configured process that starts has a client, and makes
  at most one however often it was configured; one that stops has none left open.
\<close>

theorem one_client_at_a_time:
  assumes "process_step\<^sup>*\<^sup>* new_process s"
  shows "distinct (cn_closed (fp_clients s)) \<and> set (cn_closed (fp_clients s)) = {..<cn_made (fp_clients s)} - set_option (client s)
    \<and> (config s \<noteq> None \<longrightarrow> (\<exists>s'. run_hooks (fp_hooks s) open_client s = Some s' \<and> client s' \<noteq> None
        \<and> cn_made (fp_clients s') \<le> Suc (cn_made (fp_clients s))))
    \<and> (\<exists>s'. run_hooks (fp_hooks s) close_client s = Some s' \<and> set (cn_closed (fp_clients s')) = {..<cn_made (fp_clients s')})"
proof -
  note ok = reachable_ok [OF assms]
  have "\<exists>s'. run_hooks (fp_hooks s) open_client s = Some s' \<and> client s' \<noteq> None \<and> cn_made (fp_clients s') \<le> Suc (cn_made (fp_clients s))"
    if "config s \<noteq> None"
    using run_open [OF ok, of "fp_hooks s"] ok that by (auto simp: process_ok_def config_def)
  moreover have "\<exists>s'. run_hooks (fp_hooks s) close_client s = Some s' \<and> set (cn_closed (fp_clients s')) = {..<cn_made (fp_clients s')}"
  proof (cases "fp_hooks s = 0")
    case True
    then have "client s = None" using ok by (auto simp: process_ok_def)
    then show ?thesis using ok True by (simp add: process_ok_def tidy_clients_def client_def)
  next
    case False
    then obtain s' where "run_hooks (fp_hooks s) close_client s = Some s'" "process_ok s'" "client s' = None"
      using run_close [OF ok, of "fp_hooks s"] by auto
    then show ?thesis by (intro exI [of _ s']) (simp add: process_ok_def tidy_clients_def client_def)
  qed
  ultimately show ?thesis using ok by (simp add: process_ok_def tidy_clients_def client_def)
qed

definition sample_frontend :: frontend_config where
  "sample_frontend = \<lparr>fc_host = lit ''0.0.0.0'', fc_port = 1, fc_backend_url = lit ''http://b'', fc_public_sites_url = lit ''http://h'',
     fc_storage_secret = None\<rparr>"

theorem one_client_at_a_time_witness:
  "\<exists>s'. run_hooks 2 open_client (configure sample_frontend (configure sample_frontend new_process)) = Some s' \<and> cn_made (fp_clients s') \<le> 1"
proof -
  let ?s = "configure sample_frontend (configure sample_frontend new_process)"
  have "process_step\<^sup>*\<^sup>* new_process ?s" by (rule rtranclp.rtrancl_into_rtrancl [OF r_into_rtranclp]) (rule configured)+
  from one_client_at_a_time [OF this, THEN conjunct2, THEN conjunct2, THEN conjunct1]
  obtain s' where "run_hooks (fp_hooks ?s) open_client ?s = Some s'" "cn_made (fp_clients s') \<le> Suc (cn_made (fp_clients ?s))"
    by (auto simp: config_def configure_def simp del: run_hooks.simps)
  moreover have "fp_hooks ?s = 2" "cn_made (fp_clients ?s) = 0" by (simp_all add: configure_def new_process_def no_clients_def)
  ultimately show ?thesis by simp
qed

section \<open>The MCP server\<close>

text \<open>
  \<open>lifespan\<close>: the client is there while the server runs, and whatever ends it the client is closed.  What runs
  in between is the argument \<open>serve\<close>, with the client \<open>backend\<close> gives it.
\<close>

definition lifespan :: "(nat option \<Rightarrow> 'e + 'a) \<Rightarrow> clients \<Rightarrow> ('e + 'a) \<times> clients" where
  "lifespan serve c =
     (let started = make_client c; outcome = serve (cn_current started) in
      (outcome, aclose (cn_made c) (started\<lparr>cn_current := None\<rparr>)))"

lemma lifespan_closes:
  assumes "tidy_clients c" "cn_current c = None" "lifespan serve c = (outcome, c')"
  shows "outcome = serve (Some (cn_made c)) \<and> tidy_clients c' \<and> cn_current c' = None \<and> set (cn_closed c') = {..<cn_made c'}"
proof -
  have "tidy_clients ((aclose (cn_made c) (make_client c))\<lparr>cn_current := None\<rparr>)"
    using tidy_close [OF tidy_make [OF assms(1,2)]] by (simp add: make_client_def)
  moreover have "c' = (aclose (cn_made c) (make_client c))\<lparr>cn_current := None\<rparr>" "outcome = serve (Some (cn_made c))"
    using assms(3) by (cases c; auto simp: lifespan_def Let_def make_client_def aclose_def)+
  ultimately show ?thesis by (simp add: tidy_clients_def)
qed

end
