(* ===== verification/Fake_Accounts.thy ===== *)
theory Fake_Accounts
  imports Fake_Store Requests
begin

text \<open>
  The accounts of the fake backend (\<open>common/fake_backend.py\<close>) beside those of the real one
  (\<open>backend/accounts.py\<close>): when the two hold the same people and the same live tokens
  (\<open>accounts_alike\<close>), and that every operation of both keeps it so.  The real backend keeps a hash of
  each password and a digest of each secret and drops the tokens of a removed account; the fake keeps both
  in the clear and marks tokens as revoked, so the two are compared on what a presented password, secret
  or token id finds.
\<close>

section \<open>What the two hold\<close>

text \<open>
  What the code relies on of argon2 and of sha256: a hash verifies the password it was made from and no
  other, and two inputs have two digests.
\<close>

definition exact_library :: "accounts \<Rightarrow> bool" where
  "exact_library ac \<longleftrightarrow> inj (ac_sha256 ac)
     \<and> (\<forall>salt p q. h_verify (ac_hasher ac) (h_hash (ac_hasher ac) salt p) q \<longleftrightarrow> p = q)"

definition person_alike :: "accounts \<Rightarrow> user_row \<Rightarrow> ustring \<times> fake_user \<Rightarrow> bool" where
  "person_alike ac u = (\<lambda>(i, f). u_id u = i \<and> fu_id f = i \<and> u_username u = fu_username f
     \<and> u_created_at u = fu_created_at f
     \<and> (\<forall>p. h_verify (ac_hasher ac) (u_password_hash u) p \<longleftrightarrow> fu_password f = p))"

lemma person_alikeD:
  assumes "person_alike ac u q"
  shows "u_id u = fst q" "fu_id (snd q) = fst q" "u_username u = fu_username (snd q)"
    "u_created_at u = fu_created_at (snd q)"
    "h_verify (ac_hasher ac) (u_password_hash u) p \<longleftrightarrow> fu_password (snd q) = p"
  using assms unfolding person_alike_def by (simp_all split: prod.splits)

text \<open>A token of the fake that is not revoked, as the row the database has for it.\<close>

definition row_of :: "fake_token \<Rightarrow> token_row" where
  "row_of f = \<lparr>t_id = ft_id f, t_name = ft_name f, t_type = ft_type f, t_scope = ft_scope f, t_user_id = ft_user_id f,
     t_created_at = ft_created_at f, t_last_used_at = ft_last_used_at f, t_expires_at = ft_expires_at f, t_revoked_at = None\<rparr>"

definition live_row :: "time \<Rightarrow> token_row \<Rightarrow> token_row option" where
  "live_row now t = (if live_token now t then Some t else None)"

definition live_fake :: "time \<Rightarrow> fake_token \<Rightarrow> token_row option" where
  "live_fake now f = (if ft_revoked f then None else live_row now (row_of f))"

definition real_held :: "time \<Rightarrow> database \<Rightarrow> ustring \<Rightarrow> token_row option" where
  "real_held now db i = Option.bind (token_by_id db i) (live_row now)"

definition real_pass :: "time \<Rightarrow> database \<Rightarrow> ustring \<Rightarrow> token_row option" where
  "real_pass now db d = Option.bind (token_by_secret db d) (live_row now)"

definition fake_held :: "time \<Rightarrow> fake_state \<Rightarrow> ustring \<Rightarrow> token_row option" where
  "fake_held now fk i = Option.bind (map_of (fk_tokens fk) i) (live_fake now)"

definition fake_pass :: "time \<Rightarrow> fake_state \<Rightarrow> ustring \<Rightarrow> token_row option" where
  "fake_pass now fk secret = Option.bind (map_of (fk_secrets fk) secret) (fake_held now fk)"

definition tokens_alike :: "accounts \<Rightarrow> time \<Rightarrow> database \<Rightarrow> fake_state \<Rightarrow> bool" where
  "tokens_alike ac now db fk \<longleftrightarrow> (\<forall>i. real_held now db i = fake_held now fk i)
     \<and> (\<forall>secret d. secret_digest ac secret = Inr d \<longrightarrow> real_pass now db d = fake_pass now fk secret)"

text \<open>The dictionaries of the fake: keyed by the id, every secret with its token, agent tokens without an end.\<close>

definition fake_tokens_ok :: "fake_state \<Rightarrow> bool" where
  "fake_tokens_ok fk \<longleftrightarrow> distinct (map fst (fk_tokens fk))
     \<and> list_all (\<lambda>(i, f). ft_id f = i \<and> (ft_type f = AGENT \<longrightarrow> ft_expires_at f = None)) (fk_tokens fk)
     \<and> list_all (\<lambda>(_, i). i \<in> set (map fst (fk_tokens fk))) (fk_secrets fk)"

definition accounts_alike :: "accounts \<Rightarrow> time \<Rightarrow> database \<Rightarrow> fake_state \<Rightarrow> bool" where
  "accounts_alike ac now db fk \<longleftrightarrow> accounts_ok db \<and> fake_tokens_ok fk
     \<and> list_all2 (person_alike ac) (db_users db) (fk_users fk) \<and> tokens_alike ac now db fk"

lemma accounts_alikeD:
  assumes "accounts_alike ac now db fk"
  shows "accounts_ok db" "fake_tokens_ok fk" "list_all2 (person_alike ac) (db_users db) (fk_users fk)"
    "tokens_alike ac now db fk" "db_ok db"
  using assms accounts_okD by (auto simp: accounts_alike_def)

lemma alike_frame:
  assumes "accounts_alike ac now db fk" "accounts_ok db'" "db_tokens db' = db_tokens db" "fk_tokens fk' = fk_tokens fk"
    "fk_secrets fk' = fk_secrets fk" "list_all2 (person_alike ac) (db_users db') (fk_users fk')"
  shows "accounts_alike ac now db' fk'"
proof -
  have "fake_held now fk' = fake_held now fk" using assms(4) by (simp add: fake_held_def fun_eq_iff)
  then show ?thesis
    using assms by (simp add: accounts_alike_def fake_tokens_ok_def tokens_alike_def real_held_def real_pass_def
        token_by_id_def token_by_secret_def fake_pass_def)
qed

section \<open>Time passes\<close>

lemma live_row_later: "now \<le> now' \<Longrightarrow> Option.bind (live_row now t) (live_row now') = live_row now' t"
  using live_token_later [of now' t now] by (auto simp: live_row_def)

lemma live_row_Some [simp]: "live_row now t = Some t' \<longleftrightarrow> t' = t \<and> live_token now t"
  by (auto simp: live_row_def)

lemma live_fake_Some: "live_fake now f = Some t \<longleftrightarrow> t = row_of f \<and> \<not> ft_revoked f \<and> live_token now (row_of f)"
  by (auto simp: live_fake_def)

lemma bind_later:
  assumes "now \<le> now'"
  shows "Option.bind (Option.bind x (live_row now)) (live_row now') = Option.bind x (live_row now')"
    "Option.bind (Option.bind y (live_fake now)) (live_row now') = Option.bind y (live_fake now')"
  using live_row_later [OF assms] by (cases x; simp) (cases y; simp add: live_fake_def live_row_later [OF assms])

lemma held_later:
  assumes "now \<le> now'"
  shows "real_held now' db i = Option.bind (real_held now db i) (live_row now')"
    "real_pass now' db d = Option.bind (real_pass now db d) (live_row now')"
    "fake_held now' fk i = Option.bind (fake_held now fk i) (live_row now')"
    "fake_pass now' fk s = Option.bind (fake_pass now fk s) (live_row now')"
proof -
  show f: "fake_held now' fk i = Option.bind (fake_held now fk i) (live_row now')" for i
    unfolding fake_held_def bind_later [OF assms] ..
  show "fake_pass now' fk s = Option.bind (fake_pass now fk s) (live_row now')"
    by (cases "map_of (fk_secrets fk) s") (simp_all add: fake_pass_def f)
qed (simp_all only: real_held_def real_pass_def bind_later(1) [OF assms])

lemma alike_later:
  assumes "accounts_alike ac now db fk" "now \<le> now'"
  shows "accounts_alike ac now' db fk"
  using assms(1) unfolding accounts_alike_def tokens_alike_def held_later [OF assms(2)] by auto

section \<open>Looking up a person\<close>

lemma find_alike: "list_all2 R xs ys \<Longrightarrow> (\<And>x y. R x y \<Longrightarrow> P x = Q y) \<Longrightarrow> rel_option R (find P xs) (find Q ys)"
  by (induction rule: list_all2_induct) auto

lemma map_of_find: "map_of ps k = map_option snd (find (\<lambda>(k', _). k' = k) ps)"
  by (induction ps) auto

lemma person_by_id:
  assumes "list_all2 (person_alike ac) (db_users db) (fk_users fk)"
  shows "rel_option (\<lambda>u f. person_alike ac u (i, f)) (user_by_id db i) (map_of (fk_users fk) i)"
proof -
  have "rel_option (person_alike ac) (user_by_id db i) (find (\<lambda>(k, _). k = i) (fk_users fk))"
    unfolding user_by_id_def row_with_def
    by (rule find_alike [OF assms]) (simp add: person_alikeD(1) split: prod.split)
  moreover have "fst p = i" if "find (\<lambda>(k, _). k = i) (fk_users fk) = Some p" for p
    using that by (auto simp: find_Some_iff)
  ultimately show ?thesis unfolding map_of_find
    by (cases "user_by_id db i"; cases "find (\<lambda>(k, _). k = i) (fk_users fk)") auto
qed

lemma person_by_id_iff:
  assumes "list_all2 (person_alike ac) (db_users db) (fk_users fk)"
  shows "user_by_id db i = None \<longleftrightarrow> map_of (fk_users fk) i = None"
    "user_by_id db i = Some u \<Longrightarrow> \<exists>f. map_of (fk_users fk) i = Some f \<and> person_alike ac u (i, f)"
  using person_by_id [OF assms, of i]
  by (cases "user_by_id db i"; cases "map_of (fk_users fk) i"; simp)+

lemma list_ex_find: "list_ex P xs \<longleftrightarrow> find P xs \<noteq> None"
  by (induction xs) auto

lemma person_by_name:
  assumes "list_all2 (person_alike ac) (db_users db) (fk_users fk)"
  shows "case user_by_username db name of
           None \<Rightarrow> user_by_name name fk = Inl KeyError \<and> \<not> list_ex (\<lambda>(_, u). fu_username u = name) (fk_users fk)
         | Some u \<Rightarrow> \<exists>f. user_by_name name fk = Inr f \<and> person_alike ac u (u_id u, f) \<and> (u_id u, f) \<in> set (fk_users fk)
             \<and> list_ex (\<lambda>(_, u). fu_username u = name) (fk_users fk)"
proof -
  have "rel_option (person_alike ac) (user_by_username db name) (find (\<lambda>(_, u). fu_username u = name) (fk_users fk))"
    unfolding user_by_username_def row_with_def
    by (rule find_alike [OF assms]) (simp add: person_alikeD(3) split: prod.split)
  then show ?thesis
    by (cases "user_by_username db name"; cases "find (\<lambda>(_, u). fu_username u = name) (fk_users fk)")
      (auto simp: user_by_name_def list_ex_find, (metis find_Some_iff fst_conv nth_mem person_alikeD(1))+)
qed

section \<open>Changing the people\<close>

lemma update_new: "k \<notin> fst ` set ps \<Longrightarrow> AList.update k v ps = ps @ [(k, v)]"
  by (induction ps) auto

lemma update_same: "map_of ps k = Some v \<Longrightarrow> AList.update k v ps = ps"
  by (induction ps) auto

lemma alike_keys: "list_all2 (person_alike ac) us fs \<Longrightarrow> map fst fs = map u_id us"
  by (induction rule: list_all2_induct) (simp_all add: person_alikeD(1))

lemma people_insert:
  assumes "list_all2 (person_alike ac) us fs" "u_id u \<notin> u_id ` set us" "person_alike ac u (u_id u, f)"
  shows "list_all2 (person_alike ac) (us @ [u]) (AList.update (u_id u) f fs)"
proof -
  have "u_id u \<notin> fst ` set fs" using assms(2) alike_keys [OF assms(1)] by (metis list.set_map)
  then show ?thesis using assms(1,3) by (simp add: update_new list_all2_appendI)
qed

lemma people_delete:
  "list_all2 (person_alike ac) us fs \<Longrightarrow>
     list_all2 (person_alike ac) (delete_rows (\<lambda>u. u_id u = i) us) (AList.delete i fs)"
  by (induction rule: list_all2_induct) (simp_all add: delete_rows_def person_alikeD(1) AList.delete_eq split: prod.split)

lemma people_set_hash:
  assumes "list_all2 (person_alike ac) us fs" "distinct (map u_id us)" "map_of fs i = Some f"
    "\<And>p. h_verify (ac_hasher ac) h p \<longleftrightarrow> new = p"
  shows "list_all2 (person_alike ac) (update_rows (\<lambda>u. u_id u = i) (u_password_hash_update (\<lambda>_. h)) us)
           (AList.update i (f\<lparr>fu_password := new\<rparr>) fs)"
  using assms(1-3)
proof (induction rule: list_all2_induct)
  case (Cons u us p fs)
  obtain k v where p: "p = (k, v)" by (cases p)
  show ?case
  proof (cases "k = i")
    case True
    have "u_id x \<noteq> i" if "x \<in> set us" for x
      using that Cons.prems(1) person_alikeD(1) [OF Cons.hyps(1)] True p by force
    then have "update_rows (\<lambda>u. u_id u = i) (u_password_hash_update (\<lambda>_. h)) us = us"
      by (auto simp: update_rows_def intro!: map_idI)
    moreover have "v = f" using Cons.prems(2) True p by simp
    then have "person_alike ac (u\<lparr>u_password_hash := h\<rparr>) (i, f\<lparr>fu_password := new\<rparr>)"
      using Cons.hyps(1) True p assms(4) by (simp add: person_alike_def)
    moreover have "u_id u = i" using person_alikeD(1) [OF Cons.hyps(1)] True p by simp
    ultimately show ?thesis using Cons.hyps(2) True p by (simp add: update_rows_def)
  next
    case False
    then show ?thesis using Cons p by (simp add: update_rows_def) (simp add: person_alike_def)
  qed
qed simp

section \<open>Changing the tokens\<close>

text \<open>An operation that does the same \<open>g\<close> to what is found on both sides.\<close>

lemma tokens_alike_step:
  assumes "tokens_alike ac now db fk" "fk_secrets fk' = fk_secrets fk"
    "\<And>i. real_held now db' i = Option.bind (real_held now db i) g"
    "\<And>d. real_pass now db' d = Option.bind (real_pass now db d) g"
    "\<And>i. fake_held now fk' i = Option.bind (fake_held now fk i) g"
  shows "tokens_alike ac now db' fk'"
proof -
  have "fake_pass now fk' s = Option.bind (fake_pass now fk s) g" for s
    unfolding fake_pass_def assms(2) by (cases "map_of (fk_secrets fk) s") (simp_all add: assms(5))
  then show ?thesis using assms(1) unfolding tokens_alike_def assms(3-5) by metis
qed

lemma real_update:
  assumes "\<And>d t. (d, t) \<in> set (db_tokens db) \<Longrightarrow> live_row now (if P t then f t else t) = Option.bind (live_row now t) g"
    "\<And>t. t_id (f t) = t_id t"
  shows "real_held now (update_token db P f) i = Option.bind (real_held now db i) g"
    "real_pass now (update_token db P f) d = Option.bind (real_pass now db d) g"
proof -
  show "real_held now (update_token db P f) i = Option.bind (real_held now db i) g"
    unfolding real_held_def token_by_id_update [of f, OF assms(2)] using assms(1)
    by (cases "token_by_id db i") (fastforce dest: token_by_id_in)+
  show "real_pass now (update_token db P f) d = Option.bind (real_pass now db d) g"
    unfolding real_pass_def token_by_secret_update using assms(1)
    by (cases "token_by_secret db d") (fastforce dest: token_by_secret_in)+
qed

lemma real_delete:
  assumes "db_ok db" "db_tokens db' = delete_rows (\<lambda>(_, t). P t) (db_tokens db)"
  shows "real_held now db' i = Option.bind (real_held now db i) (\<lambda>t. if P t then None else Some t)"
    "real_pass now db' d = Option.bind (real_pass now db d) (\<lambda>t. if P t then None else Some t)"
proof -
  show "real_held now db' i = Option.bind (real_held now db i) (\<lambda>t. if P t then None else Some t)"
    using row_with_delete [OF db_okD(3) [OF assms(1)], of i "\<lambda>(_, t). P t"] assms(2)
    by (auto simp: real_held_def token_by_id_def live_row_def split: option.splits prod.splits)
  show "real_pass now db' d = Option.bind (real_pass now db d) (\<lambda>t. if P t then None else Some t)"
    using row_with_delete [OF db_okD(4) [OF assms(1)], of d "\<lambda>(_, t). P t"] assms(2)
    by (auto simp: real_pass_def token_by_secret_def live_row_def split: option.splits prod.splits)
qed

lemma fake_update:
  assumes "map_of (fk_tokens fk) j = Some f" "fk_tokens fk' = AList.update j f' (fk_tokens fk)"
    "live_fake now f' = Option.bind (live_fake now f) g"
    "\<And>k v. k \<noteq> j \<Longrightarrow> map_of (fk_tokens fk) k = Some v \<Longrightarrow> Option.bind (live_fake now v) g = live_fake now v"
  shows "fake_held now fk' i = Option.bind (fake_held now fk i) g"
  using assms(1,3,4) by (cases "map_of (fk_tokens fk) i") (auto simp: fake_held_def assms(2) update_conv')

lemma map_of_mapped: "map_of (map (\<lambda>(k, v). (k, h v)) ps) k = map_option h (map_of ps k)"
  by (induction ps) auto

lemma set_update_new: "set (AList.update k v ps) \<subseteq> insert (k, v) (set ps)"
  by (induction ps) auto

lemma fake_revoke_where:
  "fake_held now (revoke_where P fk) i = Option.bind (map_of (fk_tokens fk) i) (\<lambda>f. if P f then None else live_fake now f)"
proof -
  have "map_of (fk_tokens (revoke_where P fk)) i = map_option (\<lambda>f. if P f then f\<lparr>ft_revoked := True\<rparr> else f) (map_of (fk_tokens fk) i)"
    using map_of_mapped by (simp add: revoke_where_def)
  then show ?thesis by (cases "map_of (fk_tokens fk) i") (simp_all add: fake_held_def live_fake_def)
qed

lemma fake_tokens_update:
  assumes "fake_tokens_ok fk" "map_of (fk_tokens fk) j = Some f" "ft_id f' = j" "ft_type f' = AGENT \<longrightarrow> ft_expires_at f' = None"
    "fk_tokens fk' = AList.update j f' (fk_tokens fk)" "fk_secrets fk' = fk_secrets fk"
  shows "fake_tokens_ok fk'"
proof -
  have "j \<in> fst ` set (fk_tokens fk)" using assms(2) by (metis domI dom_map_of_conv_image_fst)
  then have k: "fst ` set (fk_tokens fk') = fst ` set (fk_tokens fk)"
    unfolding assms(5) by (auto simp: dom_update [symmetric] dom_map_of_conv_image_fst [symmetric] update_conv')
  have "set (fk_tokens fk') \<subseteq> insert (j, f') (set (fk_tokens fk))"
    unfolding assms(5) by (rule set_update_new)
  then show ?thesis using assms(1,3,4,6) k unfolding fake_tokens_ok_def assms(5)
    by (auto simp: distinct_update list_all_iff)
qed

section \<open>A new token\<close>

lemma tokens_insert:
  assumes "tokens_alike ac now db fk" "fake_tokens_ok fk" "inj (ac_sha256 ac)"
    and "insert_token db (row_of f) d = Inr db'" "secret_digest ac secret = Inr d" "\<not> ft_revoked f"
    and "ft_id f \<notin> fst ` set (fk_tokens fk)"
    and "fk_tokens fk' = AList.update (ft_id f) f (fk_tokens fk)" "fk_secrets fk' = AList.update secret (ft_id f) (fk_secrets fk)"
  shows "tokens_alike ac now db' fk'"
proof -
  have id: "t_id (row_of f) = ft_id f" by (simp add: row_of_def)
  have "token_by_id db' i = (if i = ft_id f then Some (row_of f) else token_by_id db i)" for i
    using assms(4) id by (auto simp: insert_token_def token_by_id_def row_with_append split: if_splits option.splits)
  then have rh: "real_held now db' i = (if i = ft_id f then live_row now (row_of f) else real_held now db i)" for i
    by (simp add: real_held_def)
  have rp: "real_pass now db' d' = (if d' = d then live_row now (row_of f) else real_pass now db d')" for d'
    using token_by_secret_insert [OF assms(4)] by (simp add: real_pass_def)
  have fh: "fake_held now fk' i = (if i = ft_id f then live_row now (row_of f) else fake_held now fk i)" for i
    using assms(6) by (simp add: fake_held_def assms(8) update_conv' live_fake_def)
  have fp: "fake_pass now fk' s = (if s = secret then live_row now (row_of f) else fake_pass now fk s)" for s
  proof (cases "map_of (fk_secrets fk) s")
    case (Some i)
    then have "i \<in> fst ` set (fk_tokens fk)"
      using assms(2) by (auto simp: fake_tokens_ok_def list_all_iff dest!: map_of_SomeD)
    then have "i \<noteq> ft_id f" using assms(7) by blast
    then show ?thesis using Some by (simp add: fake_pass_def assms(9) update_conv' fh)
  qed (simp add: fake_pass_def assms(9) update_conv' fh)
  have "d' = d \<longleftrightarrow> s = secret" if "secret_digest ac s = Inr d'" for s d'
    using that assms(3,5) utf8_encode_inj by (auto simp: secret_digest_def inj_eq split: option.splits)
  then show ?thesis using assms(1) by (simp add: tokens_alike_def rh rp fh fp)
qed

lemma fake_tokens_insert:
  assumes "fake_tokens_ok fk" "ft_type f = AGENT \<longrightarrow> ft_expires_at f = None"
    and "fk_tokens fk' = AList.update (ft_id f) f (fk_tokens fk)" "fk_secrets fk' = AList.update secret (ft_id f) (fk_secrets fk)"
  shows "fake_tokens_ok fk'"
proof -
  have t: "set (fk_tokens fk') \<subseteq> insert (ft_id f, f) (set (fk_tokens fk))"
    and s: "set (fk_secrets fk') \<subseteq> insert (secret, ft_id f) (set (fk_secrets fk))"
    unfolding assms(3,4) by (rule set_update_new)+
  have k: "fst ` set (fk_tokens fk') = insert (ft_id f) (fst ` set (fk_tokens fk))"
    by (simp add: assms(3) update_conv' dom_map_of_conv_image_fst [symmetric])
  have "distinct (map fst (fk_tokens fk'))" using assms(1) by (simp add: assms(3) distinct_update fake_tokens_ok_def)
  then show ?thesis using assms(1,2) t s k unfolding fake_tokens_ok_def by (auto simp: list_all_iff)
qed

section \<open>A presented header\<close>

text \<open>A header's characters are bytes: the server decodes it as Latin-1.\<close>

definition header_bytes :: "ustring option \<Rightarrow> bool" where
  "header_bytes h = (case h of None \<Rightarrow> True | Some v \<Rightarrow> list_all (\<lambda>c. c < 256) v)"

lemma bearer_parse: "bearer h = parse_bearer h"
  by (auto simp: bearer_def parse_bearer_def partition_on_def ascii_lower_def split: option.splits prod.splits)

lemma header_secret:
  assumes "header_bytes h" "parse_bearer h = Some secret"
  obtains d where "secret_digest ac secret = Inr d"
proof -
  obtain v where v: "h = Some v" "secret = strip is_space (snd (partition_on 32 v))"
    using assms(2) by (auto simp: parse_bearer_def Let_def split: option.splits if_splits prod.splits)
  have "set secret \<subseteq> set v"
  proof -
    have "set (dropWhile (\<lambda>x. x \<noteq> 32) v) \<subseteq> set v" by (auto dest: set_dropWhileD)
    moreover have "set (tl ys) \<subseteq> set ys" for ys :: ustring by (cases ys) auto
    ultimately have "set (snd (partition_on 32 v)) \<subseteq> set v" unfolding partition_on_def snd_conv by (meson subset_trans)
    then show ?thesis unfolding v(2) by (rule subset_trans [OF set_strip])
  qed
  then have "\<forall>c\<in>set secret. c < 256" using assms(1) v(1) by (auto simp: header_bytes_def list_all_iff)
  then have "utf8_encode secret \<noteq> None" by (induction secret) (auto simp: utf8_char_def)
  then show ?thesis using that by (auto simp: secret_digest_def)
qed

lemma live_id_unique:
  assumes "db_ok db" "token_by_secret db d = Some t" "(d', t') \<in> set (db_tokens db)" "t_id t' = t_id t"
  shows "t' = t"
  using same_token_id [OF assms(1,3) token_by_secret_in [OF assms(2)] assms(4)] by simp

lemma alike_revoke_dead:
  assumes "accounts_alike ac now db fk" "token_by_secret db d = Some t" "\<not> live_token now t"
  shows "accounts_alike ac now (revoke_token db (t_id t) at) fk"
proof -
  let ?P = "\<lambda>t'. t_id t' = t_id t \<and> t_revoked_at t' = None"
  have g: "live_row now (if ?P t' then t'\<lparr>t_revoked_at := Some at\<rparr> else t') = Option.bind (live_row now t') Some"
    if "(d', t') \<in> set (db_tokens db)" for d' t'
    using live_id_unique [OF accounts_alikeD(5) [OF assms(1)] assms(2) that] assms(3)
    by (auto simp: live_row_def live_token_def)
  note u = real_update [of db now ?P "\<lambda>t'. t'\<lparr>t_revoked_at := Some at\<rparr>" Some, OF g, folded revoke_token_def]
  have "tokens_alike ac now (revoke_token db (t_id t) at) fk"
    by (rule tokens_alike_step [OF accounts_alikeD(4) [OF assms(1)] refl, where g = Some]) (simp_all add: u)
  then show ?thesis using assms(1) accounts_ok_revoke by (auto simp: accounts_alike_def)
qed

text \<open>The use of a token is recorded on both sides.\<close>

definition touched :: "accounts \<Rightarrow> time \<Rightarrow> token_row \<Rightarrow> token_row" where
  "touched ac now t = t\<lparr>t_last_used_at := Some now,
     t_expires_at := (if t_type t = SESSION then Some (now + ac_session_length ac) else None)\<rparr>"

definition touched_fake :: "fake_config \<Rightarrow> time \<Rightarrow> fake_token \<Rightarrow> fake_token" where
  "touched_fake fc now f = f\<lparr>ft_last_used_at := Some now,
     ft_expires_at := (if ft_type f = SESSION then Some (now + fc_session_length fc) else ft_expires_at f)\<rparr>"

lemma row_of_touched:
  assumes "fc_session_length fc = ac_session_length ac" "ft_type f = AGENT \<longrightarrow> ft_expires_at f = None"
  shows "row_of (touched_fake fc now f) = touched ac now (row_of f)"
  using assms by (cases "ft_type f") (simp_all add: row_of_def touched_def touched_fake_def)

lemma alike_touch:
  assumes "accounts_alike ac now db fk" "token_by_secret db d = Some t" "live_token now t"
    and "map_of (fk_tokens fk) (t_id t) = Some f" "\<not> ft_revoked f" "t = row_of f" "fc_session_length fc = ac_session_length ac"
  shows "accounts_alike ac now
      (touch_token db (t_id t) now (if t_type t = SESSION then Some (now + ac_session_length ac) else None))
      (fk\<lparr>fk_tokens := AList.update (t_id t) (touched_fake fc now f) (fk_tokens fk)\<rparr>)"
proof -
  let ?e = "if t_type t = SESSION then Some (now + ac_session_length ac) else None"
  let ?db = "touch_token db (t_id t) now ?e"
  let ?fk = "fk\<lparr>fk_tokens := AList.update (t_id t) (touched_fake fc now f) (fk_tokens fk)\<rparr>"
  let ?g = "\<lambda>t'. if t_id t' = t_id t then live_row now (touched ac now t) else Some t'"
  note ok = accounts_alikeD [OF assms(1)]
  have shape: "token_shape t" using accounts_ok_shape [OF ok(1) token_by_secret_in [OF assms(2)]] .
  have agent: "ft_type f = AGENT \<longrightarrow> ft_expires_at f = None"
    using shape assms(6) by (auto simp: token_shape_def row_of_def)
  obtain h where h: "?db = update_token db (\<lambda>t'. t_id t' = t_id t) h" "h t = touched ac now t" "\<And>t'. t_id (h t') = t_id t'"
  proof (cases "t_type t")
    case SESSION
    then show ?thesis
      by (intro that [of "\<lambda>t'. t'\<lparr>t_last_used_at := Some now, t_expires_at := Some (now + ac_session_length ac)\<rparr>"])
        (simp_all add: touch_token_def touched_def)
  next
    case AGENT
    then show ?thesis using shape
      by (intro that [of "\<lambda>t'. t'\<lparr>t_last_used_at := Some now\<rparr>"]) (simp_all add: touch_token_def touched_def token_shape_def)
  qed
  have g: "live_row now (if t_id t' = t_id t then h t' else t') = Option.bind (live_row now t') ?g"
    if "(d', t') \<in> set (db_tokens db)" for d' t'
    using live_id_unique [OF ok(5) assms(2) that] assms(3) h(2) by (auto simp: live_row_def)
  note u = real_update [of db now "\<lambda>t'. t_id t' = t_id t" h ?g, OF g h(3), folded h(1)]
  have f: "fake_held now ?fk i = Option.bind (fake_held now fk i) ?g" for i
  proof (rule fake_update [OF assms(4)])
    show "live_fake now (touched_fake fc now f) = Option.bind (live_fake now f) ?g"
      using assms(3,5) row_of_touched [OF assms(7) agent, of now]
      by (simp add: live_fake_def live_row_def [of now "row_of f"] assms(6) touched_fake_def [of fc now f])
    show "Option.bind (live_fake now v) ?g = live_fake now v"
      if "k \<noteq> t_id t" "map_of (fk_tokens fk) k = Some v" for k v
      using that ok(2) by (auto simp: live_fake_def live_row_def row_of_def fake_tokens_ok_def list_all_iff dest!: map_of_SomeD)
  qed simp
  have "tokens_alike ac now ?db ?fk"
    by (rule tokens_alike_step [OF ok(4)]) (simp_all add: u f)
  moreover have "fake_tokens_ok ?fk"
    by (rule fake_tokens_update [OF ok(2) assms(4)]) (use assms(6) agent in \<open>auto simp: touched_fake_def row_of_def\<close>)
  moreover have "accounts_ok ?db" using accounts_ok_touch [OF ok(1) token_by_secret_in [OF assms(2)]] by simp
  ultimately show ?thesis using ok(3) by (simp add: accounts_alike_def)
qed

text \<open>
  The same header is the same person's on both sides, with the same token, or nobody's.
\<close>

lemma resolve_alike:
  assumes "accounts_alike ac now db fk" "header_bytes h" "fc_session_length fc = ac_session_length ac"
    and "resolve_bearer ac now h db = (r, db')" "resolve_token fc now h fk = (q, fk')"
  shows "accounts_alike ac now db' fk' \<and> fk_users fk' = fk_users fk \<and> fk_sites fk' = fk_sites fk
     \<and> (r = Inr None \<and> q = Inr None
        \<or> (\<exists>a f. r = Inr (Some a) \<and> q = Inr (Some f) \<and> a_token a = row_of f
             \<and> user_by_id db' (ft_user_id f) = Some (a_user a) \<and> map_of (fk_tokens fk') (ft_id f) = Some f))"
proof (cases "parse_bearer h")
  case None
  then show ?thesis using assms by (auto simp: resolve_bearer_def resolve_token_def bearer_parse)
next
  case (Some secret)
  note ok = accounts_alikeD [OF assms(1)]
  obtain d where d: "secret_digest ac secret = Inr d" using header_secret [OF assms(2) Some] .
  have same: "real_pass now db d = fake_pass now fk secret" using ok(4) d by (simp add: tokens_alike_def)
  show ?thesis
  proof (cases "fake_pass now fk secret")
    case None
    have fake: "q = Inr None \<and> fk' = fk"
      using None ok(2) assms(5) Some
      by (auto simp: resolve_token_def bearer_parse fake_pass_def fake_held_def live_fake_def live_row_def live_token_def
          row_of_def fake_tokens_ok_def list_all_iff dest!: map_of_SomeD split: option.splits if_splits)
    have real: "r = Inr None \<and> accounts_alike ac now db' fk"
    proof (cases "token_by_secret db d")
      case None
      then show ?thesis using assms(1,4) Some d by (simp add: resolve_bearer_def)
    next
      case t: (Some t)
      have st: "stored_token ac db secret = Some t" using t d by (simp add: stored_token_def)
      have "real_pass now db d = None" using same \<open>fake_pass now fk secret = None\<close> by simp
      then have dead: "\<not> live_token now t" using t by (simp add: real_pass_def live_row_def split: if_splits)
      show ?thesis
        using resolve_bearer_dead [OF Some st dead] assms(1,4) alike_revoke_dead [OF assms(1) t dead]
        by (auto split: if_splits)
    qed
    then show ?thesis using fake by simp
  next
    case pass: (Some t)
    then obtain i f where f: "map_of (fk_secrets fk) secret = Some i" "map_of (fk_tokens fk) i = Some f"
      "t = row_of f" "\<not> ft_revoked f" "live_token now t"
      by (auto simp: fake_pass_def fake_held_def live_fake_Some bind_eq_Some_conv)
    have id: "ft_id f = i" "ft_type f = AGENT \<longrightarrow> ft_expires_at f = None"
      using ok(2) f(2) by (auto simp: fake_tokens_ok_def list_all_iff dest!: map_of_SomeD)
    have t: "token_by_secret db d = Some t"
      using same pass by (auto simp: real_pass_def bind_eq_Some_conv)
    have unexpired: "\<not> (ft_revoked f \<or> (case ft_expires_at f of None \<Rightarrow> False | Some e \<Rightarrow> e \<le> now))"
      using f(3-5) by (auto simp: live_token_def row_of_def split: option.splits)
    have "(q, fk') = (Inr (Some (touched_fake fc now f)), fk\<lparr>fk_tokens := AList.update i (touched_fake fc now f) (fk_tokens fk)\<rparr>)"
      unfolding assms(5) [symmetric]
      by (simp only: resolve_token_def bearer_parse Some option.case f(1,2) unexpired if_False Let_def touched_fake_def)
    then have fake: "q = Inr (Some (touched_fake fc now f))"
      "fk' = fk\<lparr>fk_tokens := AList.update i (touched_fake fc now f) (fk_tokens fk)\<rparr>" by simp_all
    have "stored_token ac db secret = Some t" using t d by (simp add: stored_token_def)
    then obtain u where u: "user_by_id db (t_user_id t) = Some u" "r = Inr (Some \<lparr>a_token = touched ac now t, a_user = u\<rparr>)"
      "db' = touch_token db (t_id t) now (if t_type t = SESSION then Some (now + ac_session_length ac) else None)"
      using resolve_bearer_live [OF ok(1) Some _ f(5)] assms(4) unfolding Let_def touched_def by (metis prod.inject)
    have ti: "t_id t = i" using f(3) id(1) by (simp add: row_of_def)
    have "accounts_alike ac now db' fk'"
      using alike_touch [OF assms(1) t f(5) _ f(4,3) assms(3)] f(2) unfolding ti u(3) fake(2) by simp
    moreover have "touched ac now t = row_of (touched_fake fc now f)"
      using row_of_touched [OF assms(3) id(2)] f(3) by simp
    moreover have "user_by_id db' (ft_user_id f) = Some u"
      using u(1) f(3) by (simp add: u(3) user_by_id_def row_of_def)
    ultimately show ?thesis
      using u(2) fake id(1) by (simp add: touched_fake_def update_conv')
  qed
qed

end
