(* ===== verification/Account_Equivalence.thy ===== *)
theory Account_Equivalence
  imports Fake_Accounts Fake_Listing
begin

text \<open>
  The account routes of the two backends side by side: from accounts that are alike, at one time and with
  one draw of random values, every route gives the same answer on both and leaves the accounts alike.
\<close>

section \<open>What a route is given\<close>

text \<open>Values drawn anew: an id and a secret that neither backend has seen.\<close>

definition fresh_draws :: "accounts \<Rightarrow> draws \<Rightarrow> database \<Rightarrow> fake_state \<Rightarrow> bool" where
  "fresh_draws ac dr db fk \<longleftrightarrow> list_all urlsafe_char (dr_urlsafe dr)
     \<and> new_id dr ''usr'' \<notin> u_id ` set (db_users db)
     \<and> new_id dr ''tok'' \<notin> tok_id ` set (db_tokens db) \<union> fst ` set (fk_tokens fk)
     \<and> (\<forall>d. secret_digest ac (new_secret dr) = Inr d \<longrightarrow> d \<notin> fst ` set (db_tokens db))"

definition same_caller :: "database \<Rightarrow> fake_state \<Rightarrow> actor \<Rightarrow> fake_token \<Rightarrow> bool" where
  "same_caller db fk actor f \<longleftrightarrow> a_token actor = row_of f
     \<and> user_by_id db (ft_user_id f) = Some (a_user actor) \<and> map_of (fk_tokens fk) (ft_id f) = Some f"

lemma new_secret_digest:
  assumes "list_all urlsafe_char (dr_urlsafe dr)"
  obtains d where "secret_digest ac (new_secret dr) = Inr d"
proof -
  have "\<forall>c\<in>set (new_secret dr). c < 128"
    using assms by (auto simp: new_secret_def TOKEN_PREFIX_def list_all_iff urlsafe_char_def ascii_alnum_def)
  then show ?thesis using that utf8_ascii by (auto simp: secret_digest_def)
qed

lemma caller_person:
  assumes "accounts_alike ac now db fk" "same_caller db fk actor f"
  obtains g where "map_of (fk_users fk) (ft_user_id f) = Some g" "person_alike ac (a_user actor) (ft_user_id f, g)"
    "u_id (a_user actor) = ft_user_id f"
proof -
  have u: "user_by_id db (ft_user_id f) = Some (a_user actor)" using assms(2) by (simp add: same_caller_def)
  from person_by_id_iff(2) [OF accounts_alikeD(3) [OF assms(1)] u] that person_alikeD(1) show ?thesis by fastforce
qed

section \<open>Passwords\<close>

lemma alike_set_hash:
  assumes "accounts_alike ac now db fk" "map_of (fk_users fk) i = Some g"
    "\<And>p. h_verify (ac_hasher ac) h p \<longleftrightarrow> new = p"
  shows "accounts_alike ac now (set_password_hash db i h)
     (fk\<lparr>fk_users := AList.update i (g\<lparr>fu_password := new\<rparr>) (fk_users fk)\<rparr>)"
proof -
  note ok = accounts_alikeD [OF assms(1)]
  have "list_all2 (person_alike ac) (db_users (set_password_hash db i h)) (AList.update i (g\<lparr>fu_password := new\<rparr>) (fk_users fk))"
    unfolding set_password_hash_def using people_set_hash [OF ok(3) db_okD(1) [OF ok(5)] assms(2,3)] by simp
  moreover have "accounts_ok (set_password_hash db i h)"
    by (rule accounts_ok_same_tokens [OF ok(1) set_password_hash_ok [OF ok(5)]]) simp
  ultimately show ?thesis by (intro alike_frame [OF assms(1)]) simp_all
qed

lemma verify_alike:
  assumes "accounts_alike ac now db fk" "exact_library ac" "person_alike ac u (i, g)" "map_of (fk_users fk) i = Some g"
    and "verify_password ac dr u password db = (b, db')"
  shows "b = (fu_password g = password)" "accounts_alike ac now db' fk" "db_tokens db' = db_tokens db"
    "map u_id (db_users db') = map u_id (db_users db)"
proof -
  have v: "h_verify (ac_hasher ac) (u_password_hash u) password \<longleftrightarrow> fu_password g = password" and i: "u_id u = i"
    using person_alikeD [OF assms(3)] by simp_all
  have same: "fk\<lparr>fk_users := AList.update i (g\<lparr>fu_password := fu_password g\<rparr>) (fk_users fk)\<rparr> = fk"
    using update_same [OF assms(4)] by simp
  have "accounts_alike ac now (set_password_hash db i (h_hash (ac_hasher ac) (dr_salt dr) (fu_password g))) fk"
    using alike_set_hash [OF assms(1,4), of _ "fu_password g"] assms(2) unfolding same by (simp add: exact_library_def)
  then show "accounts_alike ac now db' fk" using assms(1,5) v i by (auto simp: verify_password_def Let_def split: if_splits)
  show "b = (fu_password g = password)" "db_tokens db' = db_tokens db" "map u_id (db_users db') = map u_id (db_users db)"
    using assms(5) v by (auto simp: verify_password_def Let_def set_password_hash_def split: if_splits)
qed

section \<open>New tokens\<close>

lemma issue_alike:
  assumes "accounts_alike ac now db fk" "exact_library ac" "fresh_draws ac dr db fk"
    and "user_by_id db (ft_user_id f) = Some u" "ft_id f = new_id dr ''tok''" "\<not> ft_revoked f" "token_shape (row_of f)"
  obtains d db' where "secret_digest ac (new_secret dr) = Inr d" "insert_token db (row_of f) d = Inr db'"
    "accounts_alike ac now db' (snd (store_token dr f fk))"
proof -
  note ok = accounts_alikeD [OF assms(1)]
  obtain d where d: "secret_digest ac (new_secret dr) = Inr d"
    using new_secret_digest assms(3) unfolding fresh_draws_def by blast
  have "token_by_id db (new_id dr ''tok'') = None" "token_by_secret db d = None"
    using assms(3) d by (auto simp: fresh_draws_def token_by_id_def token_by_secret_def row_with_None)
  then obtain db' where db': "insert_token db (row_of f) d = Inr db'"
    using assms(4,5) by (simp add: insert_token_def row_of_def)
  let ?fk = "snd (store_token dr f fk)"
  have st: "fk_tokens ?fk = AList.update (ft_id f) f (fk_tokens fk)"
    "fk_secrets ?fk = AList.update (new_secret dr) (ft_id f) (fk_secrets fk)" "fk_users ?fk = fk_users fk"
    by (simp_all add: store_token_def Let_def)
  have "tokens_alike ac now db' ?fk"
    using assms(2,3,5) by (intro tokens_insert [OF ok(4,2) _ db' d assms(6) _ st(1,2)]) (auto simp: exact_library_def fresh_draws_def)
  moreover have "fake_tokens_ok ?fk"
    by (rule fake_tokens_insert [OF ok(2) _ st(1,2)]) (use assms(7) in \<open>auto simp: token_shape_def row_of_def\<close>)
  moreover have "accounts_ok db'" using accounts_ok_insert_token [OF ok(1) assms(7) db'] .
  ultimately show ?thesis
    using that [OF d db'] ok(3) insert_token_frame [OF db'] by (simp add: accounts_alike_def st(3))
qed

lemma fresh_draws_same_tokens:
  assumes "fresh_draws ac dr db fk" "db_tokens db' = db_tokens db" "map u_id (db_users db') = map u_id (db_users db)"
  shows "fresh_draws ac dr db' fk"
  using assms(1,2) arg_cong [OF assms(3), of set] by (simp add: fresh_draws_def)

lemma login_alike:
  assumes "accounts_alike (bk_accounts bk) (mo_now mo) (st_db st) fk" "exact_library (bk_accounts bk)"
    "fresh_draws (bk_accounts bk) (mo_draws mo) (st_db st) fk" "fc_session_length fc = ac_session_length (bk_accounts bk)"
    and "login_route bk mo username password st = (r, st')" "fake_login fc mo username password fk = (q, fk')"
  shows "r = q \<and> accounts_alike (bk_accounts bk) (mo_now mo) (st_db st') fk'"
proof (cases "user_by_username (st_db st) username")
  case None
  then show ?thesis using person_by_name [OF accounts_alikeD(3) [OF assms(1)], of username] assms
    by (auto simp: login_route_def login_def fake_login_def)
next
  case (Some u)
  let ?ac = "bk_accounts bk" let ?dr = "mo_draws mo"
  note ok = accounts_alikeD [OF assms(1)]
  obtain g where g: "user_by_name username fk = Inr g" "person_alike ?ac u (u_id u, g)" "(u_id u, g) \<in> set (fk_users fk)"
    using person_by_name [OF ok(3), of username] Some by auto
  have mg: "map_of (fk_users fk) (u_id u) = Some g"
    using g(3) db_okD(1) [OF ok(5)] alike_keys [OF ok(3)] by (simp add: map_of_eq_Some_iff)
  obtain b db1 where b: "verify_password ?ac ?dr u password (st_db st) = (b, db1)" by (metis prod.collapse)
  note v = verify_alike [OF assms(1,2) g(2) mg b]
  show ?thesis
  proof (cases b)
    case False
    then show ?thesis using assms(5,6) Some b g(1) v by (auto simp: login_route_def login_def fake_login_def)
  next
    case True
    let ?f = "\<lparr>ft_id = new_id ?dr ''tok'', ft_name = lit ''session'', ft_type = SESSION, ft_scope = SESSION_SCOPE,
      ft_user_id = u_id u, ft_created_at = mo_now mo, ft_last_used_at = None,
      ft_expires_at = Some (mo_now mo + ac_session_length ?ac), ft_revoked = False\<rparr>"
    obtain u' where u': "user_by_id db1 (u_id u) = Some u'"
      using person_by_id_iff(1) [OF accounts_alikeD(3) [OF v(2)], of "u_id u"] mg by auto
    obtain d db2 where d: "secret_digest ?ac (new_secret ?dr) = Inr d" "insert_token db1 (row_of ?f) d = Inr db2"
      "accounts_alike ?ac (mo_now mo) db2 (snd (store_token ?dr ?f fk))"
      by (rule issue_alike [OF v(2) assms(2) fresh_draws_same_tokens [OF assms(3) v(3,4)], of ?f u'])
        (use u' in \<open>simp_all add: token_shape_def row_of_def\<close>)
    have real: "r = Inr (LoginResponse (new_secret ?dr) (mo_now mo + ac_session_length ?ac) (public_user u))" "st_db st' = db2"
      using assms(5) Some b True d(1,2) by (auto simp: login_route_def login_def row_of_def Let_def)
    have "fu_username g = username" using person_alikeD(3) [OF g(2)] Some by (auto simp: user_by_username_def dest!: row_with_SomeD)
    moreover have "fu_id g = u_id u" "public_user u = fake_public_user g"
      using person_alikeD [OF g(2)] by (simp_all add: public_user_def fake_public_user_def)
    ultimately have "q = Inr (LoginResponse (new_secret ?dr) (mo_now mo + ac_session_length ?ac) (public_user u))"
      "fk' = snd (store_token ?dr ?f fk)"
      using assms(4,6) g(1) True v(1) by (auto simp: fake_login_def issue_session_def store_token_def Let_def update_conv')
    then show ?thesis using real d(3) by simp
  qed
qed

lemma create_token_alike:
  assumes "accounts_alike (bk_accounts bk) (mo_now mo) (st_db st) fk" "exact_library (bk_accounts bk)"
    "fresh_draws (bk_accounts bk) (mo_draws mo) (st_db st) fk" "same_caller (st_db st) fk actor f"
    and "create_token_route bk mo actor name scope st = (r, st')" "fake_create_token mo f name scope fk = (q, fk')"
  shows "r = q \<and> accounts_alike (bk_accounts bk) (mo_now mo) (st_db st') fk'"
proof -
  let ?ac = "bk_accounts bk" let ?dr = "mo_draws mo"
  note ok = accounts_alikeD [OF assms(1)]
  obtain g where g: "map_of (fk_users fk) (ft_user_id f) = Some g" "person_alike ?ac (a_user actor) (ft_user_id f, g)"
    "u_id (a_user actor) = ft_user_id f"
    using caller_person [OF assms(1,4)] .
  have owner: "user_by_id (st_db st) (ft_user_id f) = Some (a_user actor)" using assms(4) by (simp add: same_caller_def)
  obtain g' where g': "user_by_name (fu_username g) fk = Inr g'" "fu_id g' = ft_user_id f"
  proof -
    have "row_with u_username (u_username (a_user actor)) (db_users (st_db st)) = Some (a_user actor)"
      using owner by (intro row_with_unique [OF db_okD(2) [OF ok(5)]]) (auto simp: user_by_id_def dest!: row_with_SomeD)
    then have "user_by_username (st_db st) (fu_username g) = Some (a_user actor)"
      using person_alikeD(3) [OF g(2)] by (simp add: user_by_username_def)
    then obtain g' where "user_by_name (fu_username g) fk = Inr g'" "person_alike ?ac (a_user actor) (u_id (a_user actor), g')"
      using person_by_name [OF ok(3), of "fu_username g"] by auto
    then show ?thesis using that person_alikeD(2) g(3) by fastforce
  qed
  let ?f = "\<lparr>ft_id = new_id ?dr ''tok'', ft_name = strip is_space name, ft_type = AGENT, ft_scope = scope,
    ft_user_id = ft_user_id f, ft_created_at = mo_now mo, ft_last_used_at = None, ft_expires_at = None, ft_revoked = False\<rparr>"
  obtain d db2 where d: "secret_digest ?ac (new_secret ?dr) = Inr d" "insert_token (st_db st) (row_of ?f) d = Inr db2"
    "accounts_alike ?ac (mo_now mo) db2 (snd (store_token ?dr ?f fk))"
    by (rule issue_alike [OF assms(1-3), of ?f "a_user actor"]) (use owner in \<open>simp_all add: token_shape_def row_of_def\<close>)
  have "r = Inr (TokenCreated (public_token (row_of ?f) (u_username (a_user actor))) (new_secret ?dr))" "st_db st' = db2"
    using assms(5) d(1,2) g(3) by (auto simp: create_token_route_def create_agent_token_def row_of_def Let_def)
  moreover have "q = Inr (TokenCreated (public_token (row_of ?f) (u_username (a_user actor))) (new_secret ?dr))"
    "fk' = snd (store_token ?dr ?f fk)"
    using assms(6) g(1) g' person_alikeD(3) [OF g(2)]
    by (auto simp: fake_create_token_def issue_agent_token_def store_token_def fake_public_token_def public_token_def row_of_def Let_def)
  ultimately show ?thesis using d(3) by simp
qed

section \<open>Tokens that end\<close>

text \<open>The rows of one selection are revoked on the one side and the fake's on the other.\<close>

lemma alike_bind:
  assumes "accounts_alike ac now db fk" "accounts_ok db'" "fake_tokens_ok fk'" "fk_secrets fk' = fk_secrets fk"
    "list_all2 (person_alike ac) (db_users db') (fk_users fk')"
    "\<And>i. real_held now db' i = Option.bind (real_held now db i) g"
    "\<And>d. real_pass now db' d = Option.bind (real_pass now db d) g"
    "\<And>i. fake_held now fk' i = Option.bind (fake_held now fk i) g"
  shows "accounts_alike ac now db' fk'"
  using assms(2,3,5) tokens_alike_step [OF accounts_alikeD(4) [OF assms(1)] assms(4,6-8)] by (simp add: accounts_alike_def)

lemma real_revoke:
  assumes "\<And>t. P t \<Longrightarrow> t_revoked_at t = None \<Longrightarrow> R t" "\<And>t. R t \<Longrightarrow> P t"
  shows "real_held now (update_token db R (t_revoked_at_update (\<lambda>_. Some at))) i =
      Option.bind (real_held now db i) (\<lambda>t. if P t then None else Some t)"
    "real_pass now (update_token db R (t_revoked_at_update (\<lambda>_. Some at))) d =
      Option.bind (real_pass now db d) (\<lambda>t. if P t then None else Some t)"
proof -
  have g: "live_row now (if R t then t\<lparr>t_revoked_at := Some at\<rparr> else t) = Option.bind (live_row now t) (\<lambda>t. if P t then None else Some t)" for t
    using assms(1,2) [of t] by (auto simp: live_row_def live_token_def)
  show "real_held now (update_token db R (t_revoked_at_update (\<lambda>_. Some at))) i =
      Option.bind (real_held now db i) (\<lambda>t. if P t then None else Some t)"
    "real_pass now (update_token db R (t_revoked_at_update (\<lambda>_. Some at))) d =
      Option.bind (real_pass now db d) (\<lambda>t. if P t then None else Some t)"
    by (rule real_update; simp add: g)+
qed

lemma fake_revoked_where:
  assumes "fake_tokens_ok fk" "\<And>f. P' f = P (row_of f)"
  shows "fake_held now (revoke_where P' fk) i = Option.bind (fake_held now fk i) (\<lambda>t. if P t then None else Some t)"
    "fake_tokens_ok (revoke_where P' fk)"
proof -
  show "fake_held now (revoke_where P' fk) i = Option.bind (fake_held now fk i) (\<lambda>t. if P t then None else Some t)"
    unfolding fake_revoke_where by (cases "map_of (fk_tokens fk) i") (auto simp: fake_held_def live_fake_def live_row_def assms(2))
  have "map fst (fk_tokens (revoke_where P' fk)) = map fst (fk_tokens fk)" by (auto simp: revoke_where_def)
  then have "fst ` set (fk_tokens (revoke_where P' fk)) = fst ` set (fk_tokens fk)" by (metis list.set_map)
  then show "fake_tokens_ok (revoke_where P' fk)" using assms(1) by (auto simp: fake_tokens_ok_def revoke_where_def list_all_iff comp_def case_prod_unfold)
qed

lemma fake_revoked_one:
  assumes "fake_tokens_ok fk" "map_of (fk_tokens fk) i = Some f" "fk_tokens fk' = AList.update i (f\<lparr>ft_revoked := True\<rparr>) (fk_tokens fk)"
    "fk_secrets fk' = fk_secrets fk"
  shows "fake_held now fk' j = Option.bind (fake_held now fk j) (\<lambda>t. if t_id t = i then None else Some t)" "fake_tokens_ok fk'"
proof -
  have f: "ft_id f = i" "ft_type f = AGENT \<longrightarrow> ft_expires_at f = None"
    using assms(1,2) by (auto simp: fake_tokens_ok_def list_all_iff dest!: map_of_SomeD)
  show "fake_held now fk' j = Option.bind (fake_held now fk j) (\<lambda>t. if t_id t = i then None else Some t)"
  proof (rule fake_update [OF assms(2,3)])
    show "live_fake now (f\<lparr>ft_revoked := True\<rparr>) = Option.bind (live_fake now f) (\<lambda>t. if t_id t = i then None else Some t)"
      using f(1) by (simp add: live_fake_def live_row_def row_of_def)
    show "Option.bind (live_fake now v) (\<lambda>t. if t_id t = i then None else Some t) = live_fake now v"
      if "k \<noteq> i" "map_of (fk_tokens fk) k = Some v" for k v
      using that assms(1) by (auto simp: live_fake_def live_row_def row_of_def fake_tokens_ok_def list_all_iff dest!: map_of_SomeD)
  qed
  show "fake_tokens_ok fk'" by (rule fake_tokens_update [OF assms(1,2) _ _ assms(3,4)]) (use f in simp_all)
qed

lemma alike_revoke_one:
  assumes "accounts_alike ac now db fk" "map_of (fk_tokens fk) i = Some f"
  shows "accounts_alike ac now (revoke_token db i at) (fk\<lparr>fk_tokens := AList.update i (f\<lparr>ft_revoked := True\<rparr>) (fk_tokens fk)\<rparr>)"
proof -
  note ok = accounts_alikeD [OF assms(1)]
  note f = fake_revoked_one [OF ok(2) assms(2), of "fk\<lparr>fk_tokens := AList.update i (f\<lparr>ft_revoked := True\<rparr>) (fk_tokens fk)\<rparr>"]
  have r: "real_held now (revoke_token db i at) j = Option.bind (real_held now db j) (\<lambda>t. if t_id t = i then None else Some t)"
    "real_pass now (revoke_token db i at) d = Option.bind (real_pass now db d) (\<lambda>t. if t_id t = i then None else Some t)" for j d
    unfolding revoke_token_def by (rule real_revoke; simp)+
  show ?thesis
    by (rule alike_bind [OF assms(1) accounts_ok_revoke [OF ok(1)], where g = "\<lambda>t. if t_id t = i then None else Some t"])
      (use ok(3) in \<open>simp_all add: f r\<close>)
qed

lemma logout_alike:
  assumes "accounts_alike (bk_accounts bk) (mo_now mo) (st_db st) fk" "same_caller (st_db st) fk actor f"
    and "logout_route mo actor st = (r, st')"
  shows "r = Inr NoContent \<and> accounts_alike (bk_accounts bk) (mo_now mo) (st_db st') (revoke_fake f fk)"
proof -
  have "t_id (a_token actor) = ft_id f" "map_of (fk_tokens fk) (ft_id f) = Some f"
    using assms(2) by (simp_all add: same_caller_def row_of_def)
  then show ?thesis using alike_revoke_one [OF assms(1)] assms(3) by (auto simp: logout_route_def logout_def revoke_fake_def)
qed

lemma revoke_token_alike:
  assumes "accounts_alike (bk_accounts bk) (mo_now mo) (st_db st) fk"
    and "revoke_token_route mo i st = (r, st')" "fake_revoke_token i fk = (q, fk')"
  shows "r = q \<and> accounts_alike (bk_accounts bk) (mo_now mo) (st_db st') fk'"
proof -
  note ok = accounts_alikeD [OF assms(1)]
  have held: "real_held (mo_now mo) (st_db st) i = fake_held (mo_now mo) fk i" using ok(4) by (simp add: tokens_alike_def)
  have agent: "(\<exists>t. token_by_id (st_db st) i = Some t \<and> t_type t = AGENT \<and> t_revoked_at t = None)
      \<longleftrightarrow> (\<exists>t. real_held (mo_now mo) (st_db st) i = Some t \<and> t_type t = AGENT)"
  proof -
    have "live_token (mo_now mo) t" if "token_by_id (st_db st) i = Some t" "t_type t = AGENT" "t_revoked_at t = None" for t
      using accounts_ok_shape [OF ok(1)] token_by_id_in [OF that(1)] that(2,3) by (auto simp: token_shape_def live_token_def)
    then show ?thesis by (auto simp: real_held_def live_token_def bind_eq_Some_conv)
  qed
  have agent': "(\<exists>f. map_of (fk_tokens fk) i = Some f \<and> ft_type f = AGENT \<and> \<not> ft_revoked f)
      \<longleftrightarrow> (\<exists>t. fake_held (mo_now mo) fk i = Some t \<and> t_type t = AGENT)"
  proof -
    have "ft_expires_at f = None" if "map_of (fk_tokens fk) i = Some f" "ft_type f = AGENT" for f
      using ok(2) that by (auto simp: fake_tokens_ok_def list_all_iff dest!: map_of_SomeD)
    then show ?thesis by (auto simp: fake_held_def live_fake_Some live_token_def row_of_def bind_eq_Some_conv)
  qed
  show ?thesis
  proof (cases "\<exists>f. map_of (fk_tokens fk) i = Some f \<and> ft_type f = AGENT \<and> \<not> ft_revoked f")
    case True
    then obtain f where f: "map_of (fk_tokens fk) i = Some f" "ft_type f = AGENT" "\<not> ft_revoked f" by blast
    obtain t where "token_by_id (st_db st) i = Some t" "t_type t = AGENT" "t_revoked_at t = None"
      using agent agent' held True by auto
    then show ?thesis using assms(2,3) f alike_revoke_one [OF assms(1) f(1)]
      by (auto simp: revoke_token_route_def revoke_agent_token_def fake_revoke_token_def)
  next
    case False
    then have "\<not> (\<exists>t. token_by_id (st_db st) i = Some t \<and> t_type t = AGENT \<and> t_revoked_at t = None)"
      using agent agent' held by auto
    then have "revoke_agent_token (mo_now mo) i (st_db st) = (False, st_db st)"
      by (auto simp: revoke_agent_token_def split: option.splits)
    moreover have "fake_revoke_token i fk = (Inl not_found, fk)"
      using False by (auto simp: fake_revoke_token_def split: option.splits)
    ultimately show ?thesis using assms by (auto simp: revoke_token_route_def)
  qed
qed

section \<open>Accounts\<close>

lemma change_password_alike:
  assumes "accounts_alike (bk_accounts bk) (mo_now mo) (st_db st) fk" "exact_library (bk_accounts bk)"
    "same_caller (st_db st) fk actor f"
    and "change_password_route bk mo actor current new st = (r, st')" "fake_change_password f current new fk = (q, fk')"
  shows "r = q \<and> accounts_alike (bk_accounts bk) (mo_now mo) (st_db st') fk'"
proof -
  let ?ac = "bk_accounts bk" let ?dr = "mo_draws mo"
  obtain g where g: "map_of (fk_users fk) (ft_user_id f) = Some g" "person_alike ?ac (a_user actor) (ft_user_id f, g)"
    "u_id (a_user actor) = ft_user_id f"
    using caller_person [OF assms(1,3)] .
  obtain b db1 where b: "verify_password ?ac ?dr (a_user actor) current (st_db st) = (b, db1)" by (metis prod.collapse)
  note v = verify_alike [OF assms(1,2) g(2,1) b]
  show ?thesis
  proof (cases b)
    case False
    then show ?thesis using assms(4,5) b g(1) v by (auto simp: change_password_route_def fake_change_password_def)
  next
    case True
    let ?i = "ft_user_id f" let ?keep = "ft_id f"
    let ?db2 = "set_password_hash db1 ?i (h_hash (ac_hasher ?ac) (dr_salt ?dr) new)"
    let ?fk2 = "fk\<lparr>fk_users := AList.update ?i (g\<lparr>fu_password := new\<rparr>) (fk_users fk)\<rparr>"
    let ?P = "\<lambda>t. t_user_id t = ?i \<and> t_type t = SESSION \<and> t_id t \<noteq> ?keep"
    let ?db3 = "snd (revoke_other_sessions ?db2 ?i ?keep (mo_now mo))"
    let ?fk3 = "revoke_where (\<lambda>t. ft_user_id t = ?i \<and> ft_type t = SESSION \<and> ft_id t \<noteq> ?keep) ?fk2"
    have al2: "accounts_alike ?ac (mo_now mo) ?db2 ?fk2"
      using alike_set_hash [OF v(2) g(1)] assms(2) by (simp add: exact_library_def)
    note ok = accounts_alikeD [OF al2]
    have r: "real_held (mo_now mo) ?db3 j = Option.bind (real_held (mo_now mo) ?db2 j) (\<lambda>t. if ?P t then None else Some t)"
      "real_pass (mo_now mo) ?db3 d = Option.bind (real_pass (mo_now mo) ?db2 d) (\<lambda>t. if ?P t then None else Some t)" for j d
      unfolding revoke_other_sessions_def snd_conv by (rule real_revoke; simp add: other_live_session_def)+
    note w = fake_revoked_where [OF ok(2), of "\<lambda>t. ft_user_id t = ?i \<and> ft_type t = SESSION \<and> ft_id t \<noteq> ?keep" ?P]
    have "accounts_alike ?ac (mo_now mo) ?db3 ?fk3"
      by (rule alike_bind [OF al2 accounts_ok_revoke_others [OF ok(1)], where g = "\<lambda>t. if ?P t then None else Some t"])
        (use ok(3) in \<open>simp_all add: w r row_of_def, simp_all add: revoke_where_def\<close>)
    moreover have "r = Inr NoContent" "st_db st' = ?db3"
      using assms(3,4) b True g(3)
      by (auto simp: change_password_route_def set_new_password_def sign_out_others_def same_caller_def row_of_def split: prod.splits)
    moreover have "q = Inr NoContent" "fk' = ?fk3"
      using assms(5) g(1) person_alikeD(2) [OF g(2)] v(1) True by (auto simp: fake_change_password_def)
    ultimately show ?thesis by simp
  qed
qed

lemma create_user_alike:
  assumes "accounts_alike (bk_accounts bk) (mo_now mo) (st_db st) fk" "exact_library (bk_accounts bk)"
    "fresh_draws (bk_accounts bk) (mo_draws mo) (st_db st) fk"
    and "create_user_route bk mo username password st = (r, st')" "fake_create_user mo username password fk = (q, fk')"
  shows "r = q \<and> accounts_alike (bk_accounts bk) (mo_now mo) (st_db st') fk'"
proof (cases "user_by_username (st_db st) username")
  case (Some u)
  then show ?thesis using person_by_name [OF accounts_alikeD(3) [OF assms(1)], of username] assms
    by (auto simp: create_user_route_def create_user_def insert_user_def fake_create_user_def add_user_def Let_def)
next
  case None
  let ?ac = "bk_accounts bk" let ?dr = "mo_draws mo"
  let ?u = "\<lparr>u_id = new_id ?dr ''usr'', u_username = username, u_password_hash = h_hash (ac_hasher ?ac) (dr_salt ?dr) password,
    u_created_at = mo_now mo\<rparr>"
  let ?g = "\<lparr>fu_id = new_id ?dr ''usr'', fu_username = username, fu_password = password, fu_created_at = mo_now mo\<rparr>"
  let ?db = "st_db st\<lparr>db_users := db_users (st_db st) @ [?u]\<rparr>"
  let ?fk = "fk\<lparr>fk_users := AList.update (u_id ?u) ?g (fk_users fk)\<rparr>"
  note ok = accounts_alikeD [OF assms(1)]
  have new: "u_id ?u \<notin> u_id ` set (db_users (st_db st))" using assms(3) by (simp add: fresh_draws_def)
  then have ins: "insert_user (st_db st) ?u = Inr ?db"
    using None by (simp add: insert_user_def user_by_id_def row_with_None)
  have "person_alike ?ac ?u (u_id ?u, ?g)" using assms(2) by (simp add: person_alike_def exact_library_def)
  from people_insert [OF ok(3) new this] have "accounts_alike ?ac (mo_now mo) ?db ?fk"
    by (intro alike_frame [OF assms(1) accounts_ok_same_tokens [OF ok(1) insert_user_ok [OF ok(5) ins]]]) simp_all
  moreover have "r = Inr (UserResponse 201 (public_user ?u))" "st_db st' = ?db"
    using assms(4) ins by (auto simp: create_user_route_def create_user_def Let_def)
  moreover have "q = Inr (UserResponse 201 (public_user ?u))" "fk' = ?fk"
    using assms(5) person_by_name [OF ok(3), of username] None
    by (auto simp: fake_create_user_def add_user_def public_user_def fake_public_user_def Let_def)
  ultimately show ?thesis by simp
qed

lemma delete_user_alike:
  assumes "accounts_alike ac now (st_db st) fk"
    and "delete_user_route i st = (r, st')" "fake_delete_user i fk = (q, fk')"
  shows "r = q \<and> accounts_alike ac now (st_db st') fk'"
proof (cases "map_of (fk_users fk) i = None \<or> length (fk_users fk) = 1")
  case True
  note ok = accounts_alikeD [OF assms(1)]
  have "user_by_id (st_db st) i = None \<longleftrightarrow> map_of (fk_users fk) i = None" "count_users (st_db st) = length (fk_users fk)"
    using person_by_id_iff(1) [OF ok(3)] list_all2_lengthD [OF ok(3)] by (simp_all add: count_users_def)
  then show ?thesis using assms True by (auto simp: delete_user_route_def fake_delete_user_def split: option.splits if_splits)
next
  case False
  note ok = accounts_alikeD [OF assms(1)]
  let ?db = "snd (remove_user i (st_db st))"
  let ?fk1 = "fk\<lparr>fk_users := AList.delete i (fk_users fk)\<rparr>"
  let ?fk = "revoke_where (\<lambda>t. ft_user_id t = i) ?fk1"
  have n: "count_users (st_db st) = length (fk_users fk)" using list_all2_lengthD [OF ok(3)] by (simp add: count_users_def)
  moreover have "fk_users fk \<noteq> []" using False by auto
  ultimately have more: "\<not> count_users (st_db st) \<le> 1" using False by (cases "fk_users fk") auto
  obtain u where u: "user_by_id (st_db st) i = Some u"
    using person_by_id_iff(1) [OF ok(3), of i] False by auto
  have t: "db_tokens ?db = delete_rows (\<lambda>(_, t). t_user_id t = i) (db_tokens (st_db st))"
    by (simp add: remove_user_def delete_user_def)
  have f1: "fake_tokens_ok ?fk1" using ok(2) by (simp add: fake_tokens_ok_def)
  have h1: "fake_held now ?fk1 = fake_held now fk" by (simp add: fake_held_def fun_eq_iff)
  have "accounts_ok ?db"
    by (rule accounts_ok_delete [OF ok(1)]) (use t delete_user_ok [OF ok(5)] in \<open>auto simp: remove_user_def\<close>)
  moreover have "list_all2 (person_alike ac) (db_users ?db) (fk_users ?fk)"
    using people_delete [OF ok(3)] by (simp add: remove_user_def delete_user_def revoke_where_def)
  ultimately have "accounts_alike ac now ?db ?fk"
    by (intro alike_bind [OF assms(1), where g = "\<lambda>t. if t_user_id t = i then None else Some t"])
      (use fake_revoked_where [OF f1, of "\<lambda>t. ft_user_id t = i" "\<lambda>t. t_user_id t = i"] real_delete [OF ok(5) t]
        in \<open>simp_all add: row_of_def h1, simp_all add: revoke_where_def\<close>)
  then show ?thesis using assms(2,3) False more u by (auto simp: delete_user_route_def fake_delete_user_def)
qed

section \<open>The lists\<close>

lemma insort_alike:
  "list_all2 R xs ys \<Longrightarrow> R x y \<Longrightarrow> (\<And>x y. R x y \<Longrightarrow> f x = g y) \<Longrightarrow> list_all2 R (insort_key f x xs) (insort_key g y ys)"
  by (induction rule: list_all2_induct) auto

lemma sort_alike:
  "list_all2 R xs ys \<Longrightarrow> (\<And>x y. R x y \<Longrightarrow> f x = g y) \<Longrightarrow> list_all2 R (sort_key f xs) (sort_key g ys)"
  by (induction rule: list_all2_induct) (auto intro: insort_alike)

lemma map_alike: "list_all2 (\<lambda>x y. f x = g y) xs ys \<Longrightarrow> map f xs = map g ys"
  by (induction rule: list_all2_induct) auto

lemma list_users_alike:
  assumes "accounts_alike ac now (st_db st) fk"
  shows "list_users_route st = fake_list_users fk"
proof -
  have "list_all2 (\<lambda>u g. person_alike ac u (u_id u, g)) (db_users (st_db st)) (map snd (fk_users fk))"
    unfolding list.rel_map by (rule list_all2_mono [OF accounts_alikeD(3) [OF assms]]) (auto simp: person_alike_def split: prod.splits)
  then have "list_all2 (\<lambda>u g. person_alike ac u (u_id u, g)) (sort_key u_username (db_users (st_db st)))
      (sort_key fu_username (map snd (fk_users fk)))"
    by (rule sort_alike) (use person_alikeD(3) in fastforce)
  then have "list_all2 (\<lambda>u g. public_user u = fake_public_user g) (sort_key u_username (db_users (st_db st)))
      (sort_key fu_username (map snd (fk_users fk)))"
    by (rule list_all2_mono) (auto simp: public_user_def fake_public_user_def person_alike_def)
  from map_alike [OF this] show ?thesis by (simp add: list_users_route_def list_users_def fake_list_users_def)
qed

lemma sort_key_map: "sort_key f (map g xs) = map g (sort_key (\<lambda>x. f (g x)) xs)"
proof -
  have "insort_key f (g x) (map g ys) = map g (insort_key (\<lambda>x. f (g x)) x ys)" for x ys by (induction ys) auto
  then show ?thesis by (induction xs) auto
qed

lemma sort_key_same_set:
  assumes "distinct (map f xs)" "distinct (map f ys)" "set xs = set ys" "inj_on f (set xs)"
  shows "sort_key f xs = sort_key f ys"
  by (rule map_sorted_distinct_set_unique [of f]) (use assms in \<open>auto simp: distinct_map\<close>)

text \<open>The agent tokens in force, on either side.\<close>

definition real_agents :: "database \<Rightarrow> token_row list" where
  "real_agents db = filter (\<lambda>t. t_type t = AGENT \<and> t_revoked_at t = None) (map snd (db_tokens db))"

definition fake_agents :: "fake_state \<Rightarrow> token_row list" where
  "fake_agents fk = map row_of (filter (\<lambda>t. ft_type t = AGENT \<and> \<not> ft_revoked t) (map snd (fk_tokens fk)))"

lemma real_agents_held:
  assumes "accounts_ok db"
  shows "t \<in> set (real_agents db) \<longleftrightarrow> t_type t = AGENT \<and> real_held now db (t_id t) = Some t"
proof
  assume a: "t \<in> set (real_agents db)"
  then obtain d where d: "(d, t) \<in> set (db_tokens db)" "t_type t = AGENT" "t_revoked_at t = None"
    by (auto simp: real_agents_def)
  have "token_by_id db (t_id t) = Some t"
    using row_with_unique [OF db_okD(3) [OF accounts_okD [OF assms]] d(1)] by (simp add: token_by_id_def)
  then show "t_type t = AGENT \<and> real_held now db (t_id t) = Some t"
    using d accounts_ok_shape [OF assms d(1)] by (simp add: real_held_def live_token_def token_shape_def)
next
  assume "t_type t = AGENT \<and> real_held now db (t_id t) = Some t"
  then show "t \<in> set (real_agents db)"
    by (force simp: real_held_def real_agents_def live_token_def bind_eq_Some_conv dest!: token_by_id_in)
qed

lemma fake_agents_held:
  assumes "fake_tokens_ok fk"
  shows "t \<in> set (fake_agents fk) \<longleftrightarrow> t_type t = AGENT \<and> fake_held now fk (t_id t) = Some t"
proof
  assume "t \<in> set (fake_agents fk)"
  then obtain i f where f: "(i, f) \<in> set (fk_tokens fk)" "t = row_of f" "ft_type f = AGENT" "\<not> ft_revoked f"
    by (auto simp: fake_agents_def)
  moreover have "ft_id f = i" "ft_expires_at f = None" "map_of (fk_tokens fk) i = Some f"
    using assms f by (auto simp: fake_tokens_ok_def list_all_iff)
  ultimately show "t_type t = AGENT \<and> fake_held now fk (t_id t) = Some t"
    by (simp add: fake_held_def live_fake_def live_row_def live_token_def row_of_def)
next
  assume "t_type t = AGENT \<and> fake_held now fk (t_id t) = Some t"
  then show "t \<in> set (fake_agents fk)"
    by (force simp: fake_held_def fake_agents_def live_fake_Some row_of_def bind_eq_Some_conv dest!: map_of_SomeD)
qed

abbreviation token_order :: "token_row \<Rightarrow> time \<times> ustring" where
  "token_order t \<equiv> (t_created_at t, t_id t)"

lemma agents_alike:
  assumes "accounts_alike ac now db fk"
  shows "sort_key token_order (real_agents db) = sort_key token_order (fake_agents fk)"
proof (rule sort_key_same_set)
  note ok = accounts_alikeD [OF assms]
  have "distinct (map t_id (real_agents db))"
    using db_okD(3) [OF ok(5)] unfolding real_agents_def by (simp add: distinct_map_filter)
  moreover have "distinct (map t_id (fake_agents fk))"
  proof -
    have "map ft_id (map snd (fk_tokens fk)) = map fst (fk_tokens fk)"
      using ok(2) by (auto simp: fake_tokens_ok_def list_all_iff)
    then have "distinct (map ft_id (map snd (fk_tokens fk)))" using ok(2) by (simp only: fake_tokens_ok_def)
    then show ?thesis unfolding fake_agents_def by (simp add: distinct_map_filter comp_def row_of_def)
  qed
  ultimately have "inj_on t_id (set (real_agents db))" "distinct (real_agents db)" "inj_on t_id (set (fake_agents fk))" "distinct (fake_agents fk)"
    by (simp_all add: distinct_map)
  then show "distinct (map token_order (real_agents db))" "distinct (map token_order (fake_agents fk))"
    "inj_on token_order (set (real_agents db))"
    by (auto simp: distinct_map inj_on_def)
  show "set (real_agents db) = set (fake_agents fk)"
    using real_agents_held [OF ok(1), of _ now] fake_agents_held [OF ok(2), of _ now] ok(4) by (auto simp: tokens_alike_def)
qed

text \<open>The names that go with the tokens.\<close>

definition real_name :: "database \<Rightarrow> ustring \<Rightarrow> ustring option" where
  "real_name db i = map_option u_username (user_by_id db i)"

lemma filter_row_with: "distinct (map f rows) \<Longrightarrow> row_with f k rows = Some r \<Longrightarrow> filter (\<lambda>x. f x = k) rows = [r]"
proof (induction rows)
  case (Cons a rows)
  show ?case
  proof (cases "f a = k")
    case True
    then have "filter (\<lambda>x. f x = k) rows = []" using Cons.prems(1) by (auto simp: filter_empty_conv rev_image_eqI)
    then show ?thesis using True Cons.prems(2) by simp
  qed (use Cons in simp)
qed simp

lemma public_agents:
  assumes "accounts_ok db"
  shows "public_agent_tokens db =
     map (\<lambda>t. public_token t (the (real_name db (t_user_id t)))) (sort_key token_order (real_agents db))"
proof -
  have owner: "map (\<lambda>u. (t, u_username u)) (filter (\<lambda>u. u_id u = t_user_id t) (db_users db)) = [(t, the (real_name db (t_user_id t)))]"
    if "(d, t) \<in> set (db_tokens db)" for d t
  proof -
    from token_owner [OF accounts_okD [OF assms] that] obtain u where u: "user_by_id db (t_user_id t) = Some u" by blast
    then have "filter (\<lambda>u. u_id u = t_user_id t) (db_users db) = [u]"
      unfolding user_by_id_def by (rule filter_row_with [OF db_okD(1) [OF accounts_okD [OF assms]]])
    then show ?thesis using u by (simp add: real_name_def)
  qed
  have inner: "concat (map (\<lambda>u. if u_id u = i then [h u] else []) us) = map h (filter (\<lambda>u. u_id u = i) us)" for h i and us :: "user_row list"
    by (induction us) auto
  have "concat (map (\<lambda>(_, t). if t_type t = AGENT \<and> t_revoked_at t = None
        then concat (map (\<lambda>u. if u_id u = t_user_id t then [(t, u_username u)] else []) (db_users db)) else []) rows) =
      map (\<lambda>t. (t, the (real_name db (t_user_id t)))) (filter (\<lambda>t. t_type t = AGENT \<and> t_revoked_at t = None) (map snd rows))"
    if "set rows \<subseteq> set (db_tokens db)" for rows
    using that by (induction rows) (auto simp: inner owner)
  from this [of "db_tokens db"]
  have "list_agent_tokens db = sort_key (\<lambda>(t, _). token_order t) (map (\<lambda>t. (t, the (real_name db (t_user_id t)))) (real_agents db))"
    by (simp add: list_agent_tokens_def real_agents_def)
  then show ?thesis by (simp add: public_agent_tokens_def sort_key_map comp_def)
qed

lemma list_tokens_alike:
  assumes "accounts_alike ac now (st_db st) fk"
  shows "list_tokens_route st = fake_list_tokens fk"
proof -
  let ?db = "st_db st"
  note ok = accounts_alikeD [OF assms]
  let ?F = "filter (\<lambda>t. ft_type t = AGENT \<and> \<not> ft_revoked t) (map snd (fk_tokens fk))"
  let ?name = "\<lambda>i. the (real_name ?db i)"
  have "fake_public_token fk f = Inr (public_token (row_of f) (?name (ft_user_id f)))" if "f \<in> set ?F" for f
  proof -
    have "row_of f \<in> set (fake_agents fk)" using that by (auto simp: fake_agents_def)
    then have "row_of f \<in> set (real_agents ?db)"
      using arg_cong [OF agents_alike [OF assms], of set] by simp
    then obtain d where "(d, row_of f) \<in> set (db_tokens ?db)" by (auto simp: real_agents_def)
    then obtain u where "user_by_id ?db (ft_user_id f) = Some u"
      using token_owner [OF ok(5)] by (fastforce simp: row_of_def)
    then obtain g where "map_of (fk_users fk) (ft_user_id f) = Some g" "u_username u = fu_username g"
      using person_by_id_iff(2) [OF ok(3)] person_alikeD(3) by fastforce
    then show ?thesis using \<open>user_by_id _ _ = Some u\<close>
      by (simp add: fake_public_token_def public_token_def row_of_def real_name_def)
  qed
  then have "collect (fake_public_token fk) (sort_key (\<lambda>t. (ft_created_at t, ft_id t)) ?F) =
      Inr (map (\<lambda>f. public_token (row_of f) (?name (ft_user_id f))) (sort_key (\<lambda>t. (ft_created_at t, ft_id t)) ?F))"
    by (intro collect_map) simp
  moreover have "map (\<lambda>t. public_token t (?name (t_user_id t))) (sort_key token_order (fake_agents fk)) =
      map (\<lambda>f. public_token (row_of f) (?name (ft_user_id f))) (sort_key (\<lambda>t. (ft_created_at t, ft_id t)) ?F)"
    by (simp add: fake_agents_def sort_key_map) (simp add: row_of_def)
  ultimately show ?thesis
    by (simp add: list_tokens_route_def fake_list_tokens_def Let_def public_agents [OF ok(1)] agents_alike [OF assms])
qed

lemma token_self_alike:
  assumes "accounts_alike ac now db fk" "same_caller db fk actor f"
  shows "token_self_route actor = fake_token_self f fk"
proof -
  obtain g where g: "map_of (fk_users fk) (ft_user_id f) = Some g" "person_alike ac (a_user actor) (ft_user_id f, g)"
    using caller_person [OF assms] .
  then show ?thesis using person_alikeD(3) [OF g(2)] assms(2)
    by (simp add: token_self_route_def token_self_def fake_token_self_def same_caller_def row_of_def)
qed

section \<open>Every account route\<close>

lemma account_route_alike:
  assumes "accounts_alike (bk_accounts bk) (mo_now mo) (st_db st) fk" "exact_library (bk_accounts bk)"
    "fresh_draws (bk_accounts bk) (mo_draws mo) (st_db st) fk" "fc_session_length fc = ac_session_length (bk_accounts bk)"
    "\<not> site_request rq" "\<forall>u p. rq \<noteq> R_Login u p" "same_caller (st_db st) fk actor f"
    "run_route bk mo actor rq st = (r, st')" "fake_route fc mo f rq fk = (q, fk')"
  shows "r = q \<and> accounts_alike (bk_accounts bk) (mo_now mo) (st_db st') fk'"
proof (cases rq)
  case R_Logout
  then show ?thesis using logout_alike [OF assms(1,7), of r st'] assms(8,9) by auto
next
  case R_ListTokens
  then show ?thesis using list_tokens_alike [OF assms(1)] assms(1,8,9) by auto
next
  case (R_CreateToken name scope)
  show ?thesis by (rule create_token_alike [OF assms(1-3,7)]) (use assms(8,9) R_CreateToken in simp_all)
next
  case R_TokenSelf
  then show ?thesis using token_self_alike [OF assms(1,7)] assms(1,8,9) by auto
next
  case (R_RevokeToken i)
  show ?thesis by (rule revoke_token_alike [OF assms(1)]) (use assms(8,9) R_RevokeToken in simp_all)
next
  case R_ListUsers
  then show ?thesis using list_users_alike [OF assms(1)] assms(1,8,9) by auto
next
  case (R_CreateUser u p)
  show ?thesis by (rule create_user_alike [OF assms(1-3)]) (use assms(8,9) R_CreateUser in simp_all)
next
  case (R_ChangePassword current new)
  show ?thesis by (rule change_password_alike [OF assms(1,2,7)]) (use assms(8,9) R_ChangePassword in simp_all)
next
  case (R_DeleteUser i)
  show ?thesis by (rule delete_user_alike [OF assms(1)]) (use assms(8,9) R_DeleteUser in simp_all)
qed (use assms(5,6) in simp_all)

end
