(* ===== verification/Lockstep.thy ===== *)
theory Lockstep
  imports Account_Equivalence Equivalence Site_Requests
begin

text \<open>
  The two backends in lockstep: whole requests, header included, sent to the model of \<open>backend/routes.py\<close>
  and to that of \<open>common/fake_backend.py\<close> at the same times and with the same random draws.  The theory shows
  that they answer alike, request by request, on the whole API.
\<close>

section \<open>What a request adds\<close>

text \<open>The ids and the digests a database holds after a request: those before it, and what was drawn.\<close>

definition real_grows :: "accounts \<Rightarrow> draws \<Rightarrow> database \<Rightarrow> database \<Rightarrow> bool" where
  "real_grows ac dr db db' \<longleftrightarrow> u_id ` set (db_users db') \<subseteq> insert (new_id dr ''usr'') (u_id ` set (db_users db))
     \<and> tok_id ` set (db_tokens db') \<subseteq> insert (new_id dr ''tok'') (tok_id ` set (db_tokens db))
     \<and> fst ` set (db_tokens db') \<subseteq> fst ` set (db_tokens db) \<union> {d. secret_digest ac (new_secret dr) = Inr d}"

definition fake_grows :: "draws \<Rightarrow> fake_state \<Rightarrow> fake_state \<Rightarrow> bool" where
  "fake_grows dr fk fk' \<longleftrightarrow> fst ` set (fk_tokens fk') \<subseteq> insert (new_id dr ''tok'') (fst ` set (fk_tokens fk))"

lemma subset_steps:
  "A' \<subseteq> insert x A \<Longrightarrow> A'' \<subseteq> insert x A' \<Longrightarrow> A'' \<subseteq> insert x A"
  "B' \<subseteq> B \<union> C \<Longrightarrow> B'' \<subseteq> B' \<union> C \<Longrightarrow> B'' \<subseteq> B \<union> C"
  by blast+

lemma grows_trans:
  "real_grows ac dr db db' \<Longrightarrow> real_grows ac dr db' db'' \<Longrightarrow> real_grows ac dr db db''"
  "fake_grows dr fk fk' \<Longrightarrow> fake_grows dr fk' fk'' \<Longrightarrow> fake_grows dr fk fk''"
  unfolding real_grows_def fake_grows_def by (elim conjE, intro conjI; erule (1) subset_steps) (erule (1) subset_steps)

lemma absent_grown: "A' \<subseteq> insert x A \<Longrightarrow> y \<notin> A \<Longrightarrow> y \<noteq> x \<Longrightarrow> y \<notin> A'"
  by blast

lemma fresh_kept:
  assumes "fresh_draws ac dr' db fk" "real_grows ac dr db db'" "fake_grows dr fk fk'" "inj (ac_sha256 ac)"
    "dr_hex dr' \<noteq> dr_hex dr" "dr_urlsafe dr' \<noteq> dr_urlsafe dr"
  shows "fresh_draws ac dr' db' fk'"
proof -
  have ids: "new_id dr' pre \<noteq> new_id dr pre" for pre using assms(5) by (simp add: new_id_def)
  have digests: "secret_digest ac (new_secret dr') = Inr d \<Longrightarrow> secret_digest ac (new_secret dr) \<noteq> Inr d" for d
    using assms(4,6) utf8_encode_inj [of "new_secret dr'" _ "new_secret dr"]
    by (auto simp: secret_digest_def new_secret_def inj_eq split: option.splits)
  note f = assms(1) [unfolded fresh_draws_def] and g = assms(2) [unfolded real_grows_def] assms(3) [unfolded fake_grows_def]
  have "new_id dr' ''usr'' \<notin> u_id ` set (db_users db)" "new_id dr' ''tok'' \<notin> tok_id ` set (db_tokens db)"
    "new_id dr' ''tok'' \<notin> fst ` set (fk_tokens fk)" using f by simp_all
  then have "new_id dr' ''usr'' \<notin> u_id ` set (db_users db')" "new_id dr' ''tok'' \<notin> tok_id ` set (db_tokens db')"
    "new_id dr' ''tok'' \<notin> fst ` set (fk_tokens fk')"
    using g absent_grown [OF _ _ ids] by metis+
  moreover have "d \<notin> fst ` set (db_tokens db')" if "secret_digest ac (new_secret dr') = Inr d" for d
  proof
    assume "d \<in> fst ` set (db_tokens db')"
    then have "d \<in> fst ` set (db_tokens db) \<or> secret_digest ac (new_secret dr) = Inr d" using g(1) by blast
    then show False using f digests [OF that] that by blast
  qed
  ultimately show ?thesis using f by (simp add: fresh_draws_def)
qed

lemma real_grows_same:
  "db_users db' = db_users db \<Longrightarrow> db_tokens db' = db_tokens db \<Longrightarrow> real_grows ac dr db db'"
  by (auto simp: real_grows_def)

lemma real_grows_update:
  assumes "\<And>t. t_id (f t) = t_id t"
  shows "real_grows ac dr db (update_token db P f)"
  using assms by (force simp: real_grows_def update_token_def set_update_rows split: prod.splits if_splits)

lemma real_grows_steps:
  "real_grows ac dr db (touch_token db i l e)" "real_grows ac dr db (revoke_token db i at)"
  "real_grows ac dr db (snd (revoke_other_sessions db u k at))"
  by (auto simp: touch_token_def revoke_token_def revoke_other_sessions_def intro!: real_grows_update split: option.split)

lemma real_grows_users:
  "real_grows ac dr db (set_password_hash db i h)" "real_grows ac dr db (snd (delete_user db i))"
  by (auto simp: real_grows_def set_password_hash_def delete_user_def set_update_rows)

lemma real_grows_insert:
  "insert_token db t d = Inr db' \<Longrightarrow> t_id t = new_id dr ''tok'' \<Longrightarrow> secret_digest ac (new_secret dr) = Inr d \<Longrightarrow>
     real_grows ac dr db db'"
  "insert_user db u = Inr db' \<Longrightarrow> u_id u = new_id dr ''usr'' \<Longrightarrow> real_grows ac dr db db'"
  by (auto simp: real_grows_def insert_token_def insert_user_def split: if_splits)

lemma real_grows_resolve: "real_grows ac dr db (snd (resolve_bearer ac now h db))"
  using real_grows_steps real_grows_same [OF refl refl]
  by (auto simp: resolve_bearer_def Let_def split: option.split sum.split)

lemma real_grows_verify:
  "verify_password ac dr u p db = (b, db') \<Longrightarrow> real_grows ac dr' db db'"
  using real_grows_users(1) real_grows_same [OF refl refl]
  by (auto simp: verify_password_def Let_def split: if_splits)

lemma real_grows_login:
  "real_grows (bk_accounts bk) (mo_draws mo) (st_db st) (st_db (snd (login_route bk mo username password st)))"
proof (cases "user_by_username (st_db st) username")
  case None
  then show ?thesis by (simp add: login_route_def login_def real_grows_same)
next
  case (Some u)
  obtain b db1 where b: "verify_password (bk_accounts bk) (mo_draws mo) u password (st_db st) = (b, db1)" by (metis prod.collapse)
  note v = real_grows_verify [OF b]
  show ?thesis using Some b v
    by (auto simp: login_route_def login_def Let_def split: bool.splits sum.splits
        intro: grows_trans(1) [OF v real_grows_insert(1)])
qed

lemma real_grows_route:
  assumes "run_route bk mo actor rq st = (r, st')"
  shows "real_grows (bk_accounts bk) (mo_draws mo) (st_db st) (st_db st')"
proof (cases "site_request rq")
  case True
  then show ?thesis using run_route_accounts [OF assms] site_request_accounts [OF True] by (simp add: real_grows_same)
next
  case False
  show ?thesis
  proof (cases rq)
    case (R_Login u p)
    then show ?thesis using real_grows_login [of bk mo st u p] assms by simp
  next
    case (R_CreateToken name scope)
    then show ?thesis using assms
      by (auto simp: create_token_route_def create_agent_token_def Let_def split: sum.splits
          intro: real_grows_insert(1) real_grows_same)
  next
    case (R_CreateUser u p)
    then show ?thesis using assms
      by (auto simp: create_user_route_def create_user_def Let_def split: sum.splits
          intro: real_grows_insert(2) real_grows_same)
  next
    case (R_ChangePassword current new)
    obtain b db1 where b: "verify_password (bk_accounts bk) (mo_draws mo) (a_user actor) current (st_db st) = (b, db1)"
      by (metis prod.collapse)
    note v = real_grows_verify [OF b]
    have "real_grows (bk_accounts bk) (mo_draws mo) db1
        (snd (revoke_other_sessions (set_password_hash db1 i h) i k at))" for i h k at
      by (rule grows_trans(1) [OF real_grows_users(1) real_grows_steps(3)])
    then show ?thesis using assms R_ChangePassword b v grows_trans(1) [OF v]
      by (auto simp: change_password_route_def set_new_password_def sign_out_others_def case_prod_unfold split: bool.splits)
  qed (use False assms real_grows_steps(2) real_grows_users(2) in
      \<open>auto simp: logout_route_def logout_def revoke_token_route_def revoke_agent_token_def delete_user_route_def
        remove_user_def real_grows_same split: prod.splits option.splits if_splits bool.splits\<close>)
qed

lemma fake_grows_same: "fk_tokens fk' = fk_tokens fk \<Longrightarrow> fake_grows dr fk fk'"
  by (auto simp: fake_grows_def)

lemma fake_grows_update:
  "fk_tokens fk' = AList.update i f (fk_tokens fk) \<Longrightarrow> i \<in> insert (new_id dr ''tok'') (fst ` set (fk_tokens fk)) \<Longrightarrow> fake_grows dr fk fk'"
  using image_mono [OF set_update_new [of i f "fk_tokens fk"], of fst] by (auto simp: fake_grows_def)

lemma known_id: "map_of (fk_tokens fk) i = Some f \<Longrightarrow> i \<in> insert x (fst ` set (fk_tokens fk))"
  by (metis domI dom_map_of_conv_image_fst insertI2)

lemma fake_grows_revoke: "fake_grows dr fk (revoke_where P fk')" if "fk_tokens fk' = fk_tokens fk"
  using that by (force simp: fake_grows_def revoke_where_def)

text \<open>The site routes of the fake leave its accounts alone, the account routes its sites.\<close>

lemma fake_site_frame:
  assumes "site_request rq" "fake_route fc mo f rq fk = (q, fk')"
  shows "fk_users fk' = fk_users fk \<and> fk_tokens fk' = fk_tokens fk \<and> fk_secrets fk' = fk_secrets fk"
  using assms
  by (cases rq)
    (auto simp: fake_create_site_def fake_delete_site_def fake_upload_file_def fake_delete_file_def fake_delete_folder_def
      put_site_def Let_def split: sum.splits option.splits if_splits prod.splits)

lemma fake_account_frame:
  assumes "\<not> site_request rq" "fake_route fc mo f rq fk = (q, fk')"
  shows "fk_sites fk' = fk_sites fk"
  using assms
  by (cases rq)
    (auto simp: fake_login_def issue_session_def store_token_def revoke_fake_def fake_create_token_def issue_agent_token_def
      fake_revoke_token_def fake_create_user_def add_user_def fake_change_password_def fake_delete_user_def revoke_where_def
      Let_def split: sum.splits option.splits if_splits prod.splits)

lemma fake_grows_login: "fake_grows (mo_draws mo) fk (snd (fake_login fc mo u p fk))"
proof -
  have "fk_tokens (snd (fake_login fc mo u p fk)) = fk_tokens fk \<or>
      (\<exists>f. fk_tokens (snd (fake_login fc mo u p fk)) = AList.update (new_id (mo_draws mo) ''tok'') f (fk_tokens fk))"
    by (auto simp: fake_login_def issue_session_def store_token_def Let_def split: sum.split option.split)
  then show ?thesis by (auto intro: fake_grows_same fake_grows_update)
qed

lemma fake_grows_route:
  assumes "map_of (fk_tokens fk) (ft_id f) = Some f" "fake_route fc mo f rq fk = (q, fk')"
  shows "fake_grows (mo_draws mo) fk fk'"
proof (cases "site_request rq")
  case True
  then show ?thesis using fake_site_frame [OF True assms(2)] by (simp add: fake_grows_same)
next
  case False
  show ?thesis
  proof (cases rq)
    case (R_Login u p)
    then show ?thesis using fake_grows_login [of mo fk fc u p] assms(2) by simp
  next
    case R_Logout
    then show ?thesis using assms(2) fake_grows_update [OF _ known_id [OF assms(1)]] by (auto simp: revoke_fake_def)
  next
    case (R_CreateToken name scope)
    then have "fk_tokens fk' = fk_tokens fk \<or> (\<exists>g. fk_tokens fk' = AList.update (new_id (mo_draws mo) ''tok'') g (fk_tokens fk))"
      using assms(2)
      by (auto simp: fake_create_token_def issue_agent_token_def store_token_def Let_def split: sum.splits option.splits)
    then show ?thesis by (auto intro: fake_grows_same fake_grows_update)
  next
    case (R_RevokeToken i)
    then show ?thesis using assms(2)
      by (auto simp: fake_revoke_token_def split: option.splits if_splits intro: fake_grows_same fake_grows_update [OF _ known_id])
  next
    case (R_CreateUser u p)
    then show ?thesis using assms(2)
      by (auto simp: fake_create_user_def add_user_def Let_def split: if_splits intro: fake_grows_same)
  qed (use False assms(2) in
      \<open>auto simp: fake_change_password_def fake_delete_user_def fake_grows_revoke fake_grows_same split: option.splits if_splits\<close>)
qed

section \<open>The two in lockstep\<close>

text \<open>
  At a time the two backends show the same sites and hold the same people and live tokens.
\<close>

definition backends_alike :: "backend \<Rightarrow> time \<Rightarrow> state \<Rightarrow> fake_state \<Rightarrow> bool" where
  "backends_alike bk now st fk \<longleftrightarrow> volume_ok (bk_storage bk) st \<and> fake_ok fk \<and> backend_view st = fake_view fk
     \<and> accounts_alike (bk_accounts bk) now (st_db st) fk"

text \<open>
  A request as the clients send it: a header of bytes, none on the sign-in, a clock that does not go back
  while it is served, and a quiet volume.
\<close>

definition ordinary :: "moment \<Rightarrow> ustring option \<Rightarrow> request \<Rightarrow> bool" where
  "ordinary mo h rq \<longleftrightarrow> header_bytes h \<and> (access_of rq = PUBLIC \<longrightarrow> h = None) \<and> mo_auth_now mo \<le> mo_now mo
     \<and> (site_request rq \<longrightarrow> undisturbed mo rq)"

text \<open>An answer, the times of sites and files aside.\<close>

definition shown :: "request \<Rightarrow> exn + response \<Rightarrow> outline + (exn + response)" where
  "shown rq r = (if site_request rq then Inl (outlined r) else Inr r)"

lemma fake_ok_sites: "fk_sites fk' = fk_sites fk \<Longrightarrow> fake_ok fk' = fake_ok fk \<and> fake_view fk' = fake_view fk"
  by (simp add: fake_ok_def fake_view_def fun_eq_iff)

lemma account_route_frame:
  assumes "\<not> site_request rq" "run_route bk mo actor rq st = (r, st')"
  shows "\<exists>db'. st' = st\<lparr>st_db := db'\<rparr> \<and> db_sites db' = db_sites (st_db st) \<and> db_files db' = db_files (st_db st)"
proof -
  have "st_sites st' = st_sites st" "st_staging st' = st_staging st"
    using assms by (cases rq; auto simp: login_route_def logout_route_def create_token_route_def revoke_token_route_def
      create_user_route_def change_password_route_def delete_user_route_def Let_def
      split: prod.splits sum.splits option.splits bool.splits if_splits)+
  then have "st' = st\<lparr>st_db := st_db st'\<rparr>" by simp
  moreover have "db_sites (st_db st') = db_sites (st_db st) \<and> db_files (st_db st') = db_files (st_db st)"
    using assms
  proof (cases rq)
    case (R_CreateToken name scope)
    then show ?thesis using assms(2)
      by (auto simp: create_token_route_def create_agent_token_def Let_def dest: insert_token_frame split: sum.splits)
  next
    case (R_CreateUser u p)
    then show ?thesis using assms(2)
      by (auto simp: create_user_route_def create_user_def Let_def dest: insert_user_frame split: sum.splits)
  next
    case (R_ChangePassword current new)
    then show ?thesis using assms(2)
      by (auto simp: change_password_route_def set_new_password_def sign_out_others_def case_prod_unfold Let_def
          verify_password_def split: if_splits)
  next
    case (R_Login u p)
    then show ?thesis using assms(2)
      by (auto simp: login_route_def login_def verify_password_def Let_def dest: insert_token_frame
          split: option.splits sum.splits if_splits)
  qed (use assms in \<open>auto simp: logout_route_def logout_def revoke_token_route_def revoke_agent_token_def
      delete_user_route_def remove_user_def split: prod.splits option.splits if_splits\<close>)
  ultimately show ?thesis by blast
qed

lemma admitted_step:
  assumes "backends_alike bk (mo_now mo) st fk" "exact_library (bk_accounts bk)"
    "fresh_draws (bk_accounts bk) (mo_draws mo) (st_db st) fk" "fc_session_length fc = ac_session_length (bk_accounts bk)"
    "fake_rules fc = rules_of bk" "site_request rq \<longrightarrow> undisturbed mo rq" "\<forall>u p. rq \<noteq> R_Login u p"
    "same_caller (st_db st) fk actor f" "run_route bk mo actor rq st = (r, st')" "fake_route fc mo f rq fk = (q, fk')"
  shows "shown rq r = shown rq q \<and> backends_alike bk (mo_now mo) st' fk'"
proof (cases "site_request rq")
  case True
  have v: "volume_ok (bk_storage bk) st" "fake_ok fk" "backend_view st = fake_view fk"
    and al: "accounts_alike (bk_accounts bk) (mo_now mo) (st_db st) fk"
    using assms(1) by (simp_all add: backends_alike_def)
  note real = real_store_step [OF v(1) True _ assms(9)] and fake = fake_store_step [OF v(2) True _ assms(10)]
  have u: "undisturbed mo rq" using assms(6) True by simp
  have s: "volume_ok (bk_storage bk) st' \<and> fake_ok fk' \<and> backend_view st' = fake_view fk' \<and> outlined r = outlined q"
    using real [OF u] fake [OF u] v(3) assms(5) by simp
  have same: "db_users (st_db st') = db_users (st_db st)" "db_tokens (st_db st') = db_tokens (st_db st)"
    using run_route_accounts [OF assms(9)] site_request_accounts [OF True] by simp_all
  have "db_ok (st_db st')" using s volume_okD(1) by blast
  then have "accounts_alike (bk_accounts bk) (mo_now mo) (st_db st') fk'"
    using fake_site_frame [OF True assms(10)] accounts_alikeD(3) [OF al] same
    by (intro alike_frame [OF al accounts_ok_same_tokens [OF accounts_alikeD(1) [OF al]]]) simp_all
  then show ?thesis using s True by (simp add: shown_def backends_alike_def)
next
  case False
  have al: "accounts_alike (bk_accounts bk) (mo_now mo) (st_db st) fk" using assms(1) by (simp add: backends_alike_def)
  have a: "r = q" "accounts_alike (bk_accounts bk) (mo_now mo) (st_db st') fk'"
    using account_route_alike [OF al assms(2-4) False assms(7-10)] by simp_all
  obtain db' where db': "st' = st\<lparr>st_db := db'\<rparr>" "db_sites db' = db_sites (st_db st)" "db_files db' = db_files (st_db st)"
    using account_route_frame [OF False assms(9)] by blast
  have "db_ok db'" using accounts_alikeD(5) [OF a(2)] db'(1) by simp
  then have "volume_ok (bk_storage bk) st' \<and> backend_view st' = backend_view st"
    using volume_ok_accounts [of "bk_storage bk" st db'] assms(1) db' by (simp add: backends_alike_def)
  then show ?thesis using a False assms(1) fake_ok_sites [OF fake_account_frame [OF False assms(10)]]
    by (simp add: shown_def backends_alike_def)
qed

text \<open>The dependency: nothing is new but the use of the token.\<close>

lemma fresh_step:
  assumes "fresh_draws ac dr db fk" "\<And>dr. real_grows ac dr db db'" "\<And>dr. fake_grows dr fk fk'" "inj (ac_sha256 ac)"
  shows "fresh_draws ac dr db' fk'"
proof -
  let ?dr = "dr\<lparr>dr_hex := 0 # dr_hex dr, dr_urlsafe := 0 # dr_urlsafe dr\<rparr>"
  show ?thesis by (rule fresh_kept [OF assms(1,2,3,4), of ?dr]) simp_all
qed

lemma fake_grows_resolve:
  assumes "resolve_token fc now h fk = (q, fk')"
  shows "fake_grows dr fk fk'"
  using assms
  by (auto simp: resolve_token_def Let_def split: option.splits if_splits
      intro: fake_grows_same fake_grows_update [OF _ known_id])

lemma backends_alike_resolved:
  assumes "backends_alike bk now st fk" "accounts_alike (bk_accounts bk) now' db' fk'" "db_sites db' = db_sites (st_db st)"
    "db_files db' = db_files (st_db st)" "fk_sites fk' = fk_sites fk"
  shows "backends_alike bk now' (st\<lparr>st_db := db'\<rparr>) fk'"
  using volume_ok_accounts [of "bk_storage bk" st db'] accounts_alikeD(5) [OF assms(2)] fake_ok_sites [OF assms(5)] assms
  by (simp add: backends_alike_def)

lemma backends_alike_later: "backends_alike bk now st fk \<Longrightarrow> now \<le> now' \<Longrightarrow> backends_alike bk now' st fk"
  using alike_later by (auto simp: backends_alike_def)

lemma alike_recorded: "accounts_alike ac now db (fk\<lparr>fk_requests := rs\<rparr>) = accounts_alike ac now db fk"
proof -
  have "fake_held now (fk\<lparr>fk_requests := rs\<rparr>) = fake_held now fk" by (simp add: fake_held_def fun_eq_iff)
  then show ?thesis by (simp add: accounts_alike_def fake_tokens_ok_def tokens_alike_def fake_pass_def)
qed

lemma login_lockstep:
  assumes "backends_alike bk now st fk" "exact_library (bk_accounts bk)"
    "fresh_draws (bk_accounts bk) (mo_draws mo) (st_db st) fk" "fc_session_length fc = ac_session_length (bk_accounts bk)"
    "now \<le> mo_now mo" "handle bk mo None (R_Login u p) st = (r, st')" "fake_handle fc mo None via (R_Login u p) fk = (q, fk')"
  shows "r = q \<and> backends_alike bk (mo_now mo) st' fk' \<and> real_grows (bk_accounts bk) (mo_draws mo) (st_db st) (st_db st')
     \<and> fake_grows (mo_draws mo) fk fk'"
proof -
  note later = backends_alike_later [OF assms(1,5)]
  define rs where "rs = fk_requests fk @ [\<lparr>rr_route = lit ''login'', rr_token_id = None, rr_via = via\<rparr>]"
  have rs: "fake_handle fc mo None via (R_Login u p) fk =
      (if \<not> valid_request (R_Login u p) then (Inl RequestValidationError, fk\<lparr>fk_requests := rs\<rparr>)
       else fake_login fc mo u p (fk\<lparr>fk_requests := rs\<rparr>))"
    by (simp add: rs_def fake_handle_def authorize_def resolve_token_def bearer_parse parse_bearer_def Let_def cong: if_cong)
  let ?fk = "fk\<lparr>fk_requests := rs\<rparr>"
  have al: "accounts_alike (bk_accounts bk) (mo_now mo) (st_db st) ?fk"
    using later by (simp add: backends_alike_def alike_recorded)
  have fresh: "fresh_draws (bk_accounts bk) (mo_draws mo) (st_db st) ?fk" using assms(3) by (simp add: fresh_draws_def)
  show ?thesis
  proof (cases "valid_request (R_Login u p)")
    case False
    then show ?thesis using assms(6,7) rs later fake_ok_sites [of ?fk fk]
      by (auto simp: handle_def backends_alike_def alike_recorded real_grows_same fake_grows_same)
  next
    case True
    then have real: "login_route bk mo u p st = (r, st')" and fake: "fake_login fc mo u p ?fk = (q, fk')"
      using assms(6,7) rs by (simp_all add: handle_def)
    have a: "r = q" "accounts_alike (bk_accounts bk) (mo_now mo) (st_db st') fk'"
      using login_alike [OF al assms(2) fresh assms(4) real fake] by simp_all
    have nl: "\<not> site_request (R_Login u p)" by simp
    obtain db' where db': "st' = st\<lparr>st_db := db'\<rparr>" "db_sites db' = db_sites (st_db st)" "db_files db' = db_files (st_db st)"
      using account_route_frame [OF nl, of bk mo _ st r st'] real by auto
    have sites: "fk_sites fk' = fk_sites fk" using fake_account_frame [OF nl, of fc mo _ ?fk q fk'] fake by simp
    have "backends_alike bk (mo_now mo) st' fk'"
      using backends_alike_resolved [OF assms(1) _ db'(2,3) sites] a(2) db'(1) by simp
    moreover have "fake_grows (mo_draws mo) fk fk'"
      using fake_grows_login [of mo ?fk fc u p] fake by (simp add: fake_grows_def)
    ultimately show ?thesis using a(1) real_grows_login [of bk mo st u p] real by simp
  qed
qed

lemma protected_lockstep:
  assumes "backends_alike bk now st fk" "exact_library (bk_accounts bk)"
    "fresh_draws (bk_accounts bk) (mo_draws mo) (st_db st) fk" "fc_session_length fc = ac_session_length (bk_accounts bk)"
    "fake_rules fc = rules_of bk" "ordinary mo h rq" "now \<le> mo_auth_now mo" "\<forall>u p. rq \<noteq> R_Login u p"
    "handle bk mo h rq st = (r, st')" "fake_handle fc mo h via rq fk = (q, fk')"
  shows "shown rq r = shown rq q \<and> backends_alike bk (mo_now mo) st' fk'
     \<and> real_grows (bk_accounts bk) (mo_draws mo) (st_db st) (st_db st') \<and> fake_grows (mo_draws mo) fk fk'"
proof -
  let ?ac = "bk_accounts bk" let ?acc = "access_of rq"
  have ord: "header_bytes h" "mo_auth_now mo \<le> mo_now mo" "site_request rq \<longrightarrow> undisturbed mo rq"
    using assms(6) by (simp_all add: ordinary_def)
  have al: "accounts_alike ?ac (mo_auth_now mo) (st_db st) fk"
    using backends_alike_later [OF assms(1,7)] by (simp add: backends_alike_def)
  obtain res db1 where res: "resolve_bearer ?ac (mo_auth_now mo) h (st_db st) = (res, db1)" by (metis prod.collapse)
  obtain tok fk1 where tok: "resolve_token fc (mo_auth_now mo) h fk = (tok, fk1)" by (metis prod.collapse)
  note sim = resolve_alike [OF al ord(1) assms(4) res tok]
  obtain rs where rs: "rs = fk_requests fk1 @ [\<lparr>rr_route = route_name rq, rr_token_id = map_option ft_id (projr tok), rr_via = via\<rparr>]"
    by blast
  let ?fk2 = "fk1\<lparr>fk_requests := rs\<rparr>" let ?st1 = "st\<lparr>st_db := db1\<rparr>"
  have frame: "db_sites db1 = db_sites (st_db st)" "db_files db1 = db_files (st_db st)"
    using resolve_bearer_frame [OF res] by simp_all
  have al2: "accounts_alike ?ac (mo_now mo) db1 ?fk2"
    unfolding alike_recorded by (rule alike_later [OF _ ord(2)]) (use sim in simp)
  have both: "backends_alike bk (mo_now mo) ?st1 ?fk2"
    by (rule backends_alike_resolved [OF assms(1) al2 frame]) (use sim in simp)
  have grow: "real_grows ?ac dr (st_db st) db1" "fake_grows dr fk ?fk2" for dr
    using real_grows_resolve [of ?ac dr "st_db st" "mo_auth_now mo" h] res fake_grows_resolve [OF tok, of dr]
    by (simp_all add: fake_grows_def)
  have public: "?acc \<noteq> PUBLIC" using assms(8) by (cases rq) simp_all
  consider "res = Inr None" "tok = Inr None" | a f where "res = Inr (Some a)" "tok = Inr (Some f)" "same_caller db1 ?fk2 a f"
    using sim by (auto simp: same_caller_def)
  then show ?thesis
  proof cases
    case 1
    have "r = Inl (ApiError 401 UNAUTHORIZED)" "st' = ?st1"
      using assms(9) handle_protected [OF assms(8)] res 1 by (simp_all add: requires_def)
    moreover have "q = Inl (ApiError 401 UNAUTHORIZED)" "fk' = ?fk2"
      using assms(10) tok 1 public rs by (simp_all add: fake_handle_def authorize_def Let_def)
    ultimately show ?thesis using both grow by simp
  next
    case (2 a f)
    have type: "t_type (a_token a) = ft_type f" "t_scope (a_token a) = ft_scope f"
      using 2(3) by (simp_all add: same_caller_def row_of_def)
    show ?thesis
    proof (cases "access_allows ?acc (Some (ft_type f)) (Some (ft_scope f))")
      case False
      then show ?thesis using both grow assms(9,10) handle_protected [OF assms(8)] res tok 2 public rs type
        by (auto simp: requires_def fake_handle_def authorize_def Let_def)
    next
      case allowed: True
      show ?thesis
      proof (cases "valid_request rq")
        case False
        then show ?thesis using both grow assms(9,10) handle_protected [OF assms(8)] res tok 2 public rs type allowed
          by (auto simp: requires_def fake_handle_def authorize_def Let_def)
      next
        case True
        have real: "run_route bk mo a rq ?st1 = (r, st')"
          using assms(9) handle_protected [OF assms(8)] res 2 type allowed True by (simp add: requires_def)
        have fake: "fake_route fc mo f rq ?fk2 = (q, fk')"
          using assms(10) tok 2 public rs allowed True by (simp add: fake_handle_def authorize_def Let_def)
        have fresh: "fresh_draws ?ac (mo_draws mo) (st_db ?st1) ?fk2"
          using fresh_step [OF assms(3) grow] assms(2) by (simp add: exact_library_def)
        have "same_caller (st_db ?st1) ?fk2 a f" using 2(3) by simp
        from admitted_step [OF both assms(2) fresh assms(4,5) ord(3) assms(8) this real fake]
        have "shown rq r = shown rq q \<and> backends_alike bk (mo_now mo) st' fk'" .
        moreover have "real_grows ?ac (mo_draws mo) (st_db st) (st_db st')"
          using grows_trans(1) [OF grow(1)] real_grows_route [OF real] by simp
        moreover have "fake_grows (mo_draws mo) fk fk'"
          using grows_trans(2) [OF grow(2)] fake_grows_route [OF _ fake] 2(3) by (simp add: same_caller_def)
        ultimately show ?thesis by blast
      qed
    qed
  qed
qed

section \<open>A run of requests\<close>

type_synonym arrival = "moment \<times> ustring option \<times> request"

text \<open>The answers in order, as shown, and the state at the end.\<close>

fun serve ::
  "(moment \<Rightarrow> ustring option \<Rightarrow> request \<Rightarrow> 's \<Rightarrow> (exn + response) \<times> 's) \<Rightarrow> arrival list \<Rightarrow> 's
    \<Rightarrow> (outline + (exn + response)) list \<times> 's" where
  "serve answer [] s = ([], s)"
| "serve answer ((mo, h, rq) # rest) s =
     (let (r, s') = answer mo h rq s; (rs, s'') = serve answer rest s' in (shown rq r # rs, s''))"

text \<open>The requests come one after the other; \<open>last_time\<close> is when the last one was done.\<close>

fun in_order :: "time \<Rightarrow> arrival list \<Rightarrow> bool" where
  "in_order now [] \<longleftrightarrow> True"
| "in_order now ((mo, h, rq) # rest) \<longleftrightarrow> now \<le> mo_auth_now mo \<and> ordinary mo h rq \<and> in_order (mo_now mo) rest"

fun last_time :: "time \<Rightarrow> arrival list \<Rightarrow> time" where
  "last_time now [] = now"
| "last_time now ((mo, h, rq) # rest) = last_time (mo_now mo) rest"

text \<open>No two requests draw the same random values.\<close>

definition draws_apart :: "arrival list \<Rightarrow> bool" where
  "draws_apart run \<longleftrightarrow> distinct (map (dr_hex \<circ> mo_draws \<circ> fst) run) \<and> distinct (map (dr_urlsafe \<circ> mo_draws \<circ> fst) run)"

lemma request_step:
  assumes "backends_alike bk now st fk" "exact_library (bk_accounts bk)"
    "fresh_draws (bk_accounts bk) (mo_draws mo) (st_db st) fk" "fc_session_length fc = ac_session_length (bk_accounts bk)"
    "fake_rules fc = rules_of bk" "ordinary mo h rq" "now \<le> mo_auth_now mo"
    "handle bk mo h rq st = (r, st')" "fake_handle fc mo h via rq fk = (q, fk')"
  shows "shown rq r = shown rq q \<and> backends_alike bk (mo_now mo) st' fk'
     \<and> real_grows (bk_accounts bk) (mo_draws mo) (st_db st) (st_db st') \<and> fake_grows (mo_draws mo) fk fk'"
proof (cases "\<exists>u p. rq = R_Login u p")
  case True
  then obtain u p where rq: "rq = R_Login u p" by blast
  then have "h = None" "now \<le> mo_now mo" using assms(6,7) by (simp_all add: ordinary_def)
  then show ?thesis using login_lockstep [OF assms(1-4), of u p r st' via q fk'] assms(8,9) by (simp add: rq shown_def)
next
  case False
  then show ?thesis using protected_lockstep [OF assms(1-7) _ assms(8,9)] by blast
qed


text \<open>A run against both, from an account on either side.\<close>

definition at_step :: "nat \<Rightarrow> moment" where
  "at_step n = \<lparr>mo_auth_now = 10 * int n, mo_now = 10 * int n + 1, mo_draws = sample_draws n, mo_env = sample_env\<rparr>"

definition one_account :: state where
  "one_account = fresh_state\<lparr>st_db := (st_db fresh_state)\<lparr>db_users := [sample_user\<lparr>u_password_hash := lit ''secret''\<rparr>]\<rparr>\<rparr>"

definition one_account_fake :: fake_state where
  "one_account_fake = snd (create_fake_backend 1 (sample_draws 0) (Some (lit ''ann'', lit ''secret'')))"

definition sample_arrivals :: "arrival list" where
  "sample_arrivals =
     [(at_step 1, None, R_Login (lit ''ann'') (lit ''secret'')),
      (at_step 2, session_header, R_CreateToken (lit ''ci'') READ_ONLY),
      (at_step 3, agent_header, R_CreateSite (lit ''Docs'')),
      (at_step 4, session_header, R_CreateSite (lit ''Docs'')),
      (at_step 5, agent_header, R_GetSite (lit ''docs'')),
      (at_step 6, session_header, R_RevokeToken (lit ''tok_2'')),
      (at_step 7, agent_header, R_TokenSelf)]"

definition arrival_answers :: "(outline + (exn + response)) list" where
  "arrival_answers =
     [Inr (Inr (LoginResponse (lit ''pb_B'') 111 \<lparr>uo_id = lit ''usr_0'', uo_username = lit ''ann'', uo_created_at = 1\<rparr>)),
      Inr (Inr (TokenCreated \<lparr>to_id = lit ''tok_2'', to_name = lit ''ci'', to_type = AGENT, to_scope = READ_ONLY,
        to_username = lit ''ann'', to_created_at = 21, to_last_used_at = None, to_expires_at = None\<rparr> (lit ''pb_C''))),
      Inl (O_Error (ApiError 403 FORBIDDEN)),
      Inl (O_Site 201 (lit ''docs'') (lit ''Docs'') (lit ''http://h/docs/'') 0 0),
      Inl (O_Site 200 (lit ''docs'') (lit ''Docs'') (lit ''http://h/docs/'') 0 0),
      Inr (Inr NoContent),
      Inr (Inl (ApiError 401 UNAUTHORIZED))]"


end
