(* ===== verification/Spec2Isabelle.thy ===== *)
theory Spec2Isabelle
  imports Roundtrip_Instances Index_Healing Site_Locks Interleavings Startup Tables Lifecycle Lockstep
begin

text \<open>
  Verification of paper-boxing, a small service that hosts static sites: a backend with a REST API over
  a volume and a SQLite database, an MCP server through which agents use it, and a web frontend.  The paths
  below are relative to \<open>src/paper_boxing/\<close>.

  \<^bold>\<open>The parts.\<close>  The backend (\<open>backend/\<close>) keeps three things in step: the rows of its database
  (users, tokens, sites, an index of files), the tree \<open>sites/\<close> that a web server serves, and the staging
  area \<open>staging/\<close>.  A request carries a bearer secret; the route table (\<open>common/routes.py\<close>) says which
  tokens may call a route.  The MCP server (\<open>mcp/\<close>) confirms each request's bearer with the backend and
  runs tools that call the backend with it.  The frontend (\<open>frontend/\<close>) keeps a session secret per
  browser and calls the backend with it.  Both use the client of \<open>common/client.py\<close>.  For tests there is
  an in-memory fake of the backend, \<open>common/fake_backend.py\<close>.

  \<^bold>\<open>Conventions.\<close>  A Python \<open>str\<close> is a list of code points, bytes are a list of numbers, \<open>int\<close> is
  \<open>int\<close> or \<open>nat\<close>; a dataclass is a record, an enumeration a datatype.  A call that may raise gives a sum:
  \<open>Inl\<close> the exception, \<open>Inr\<close> the value; state is passed explicitly, so that what an error leaves behind is
  part of the model.  Third-party code is an argument: argon2 and sha256, the random draws, NFKD, the MIME
  table, the clock, the faults of the volume and of the database (\<open>env\<close>), the MCP SDK's transport
  validation, and the HTTP exchange with its \<open>exchange\<close>.  No definition uses fuel: every recursion is
  structural or has a termination proof.

  \<^bold>\<open>Shared.\<close>  \<open>Prelude\<close> (strings), \<open>Rows\<close> (tables and dictionaries as lists of keyed rows),
  \<open>Codecs\<close> (UTF-8, URL quoting, \<open>int\<close>), \<open>Base64\<close>, \<open>Urls\<close> (query strings and their reading), \<open>Timestamps\<close> (dates, ISO texts and their
  order, the clock), \<open>Filesystem\<close> (a tree of folders and files).

  \<^bold>\<open>The contract\<close> (\<open>common/\<close>).  \<open>Naming\<close>: \<open>naming.py\<close>, the slugs and the site paths, with a
  characterisation of what is accepted.  \<open>Scopes\<close>: \<open>scopes.py\<close> and the access decision, with the
  \<open>linorder\<close> of scopes.  \<open>Contract\<close>: error codes, answers, bodies, the route table and URLs.
  \<open>Config\<close>: the environment helpers and the three \<open>load_config\<close>.

  \<^bold>\<open>The backend.\<close>  \<open>Db\<close>: one definition per method of \<open>db.py\<close>, with the invariant \<open>db_ok\<close>;
  \<open>Tables\<close>: the same statements over the texts SQLite holds, which refine it.
  \<open>Accounts\<close> and \<open>Sessions\<close>: \<open>accounts.py\<close>; what every stored secret is good for (\<open>grants\<close>), how each
  operation changes that, and runs over a clock that does not go back.  \<open>Storage\<close>: every operation of
  \<open>storage.py\<close> with its order of effects and its failures; \<open>Volume\<close> and \<open>Uploads\<close>: containment, and the
  exact effect of uploads, creations and removals on every location, on success and on failure.
  \<open>Site_Locks\<close>: the per-site locks as a step relation over tasks, with mutual exclusion and progress.
  \<open>Interleavings\<close>: the atomic steps of concurrent requests in any order.  \<open>Backend_Routes\<close>: the
  dependency and the nineteen routes of \<open>routes.py\<close>; \<open>Requests\<close>: what a whole request may do, from the
  bearer to the answer.  \<open>Startup\<close>: the lifespan of \<open>app.py\<close>.

  \<^bold>\<open>The specification and its two implementations.\<close>  \<open>Site_Contract\<close> states what the nine site
  and file requests mean over the abstract content of sites, listings included, and the interface
  \<open>site_store\<close> (locale) of a backend that implements it through an invariant and an abstraction; its lemmas
  are runs, round trips, listings that tell the truth and the independence of sites; \<open>two_stores\<close> compares two
  such backends.  \<open>Real_Store\<close> and \<open>Real_Listing\<close> interpret it with the backend (rows, tree and index
  tied together by its invariant), \<open>Fake_Backend\<close> models the fake, \<open>Fake_Store\<close> and \<open>Fake_Listing\<close>
  interpret the interface with it; \<open>Equivalence\<close> draws the consequences for the two.  \<open>Fake_Accounts\<close> relates what the two know of people
  and tokens, \<open>Account_Equivalence\<close> takes each account route on both sides, and \<open>Lockstep\<close> sends whole runs
  of requests, header included, to both.  \<open>Index_Healing\<close>
  leaves the invariant behind: what a listing repairs when the tree was changed by hand.  \<open>Site_Requests\<close>
  puts the bearer and the route table in front of the contract.

  \<^bold>\<open>The client and what is built on it.\<close>  \<open>Client\<close>: what each method sends, and how an answer becomes
  a value or an error; \<open>rest_exchange\<close> puts the model of the backend at the other end, and \<open>wire\<close> is the
  client's exchange with it.  \<open>Mcp_Gate\<close>: \<open>mcp/auth.py\<close>.  \<open>Mcp_Tools\<close>: the input models, the
  handlers, the table, the dispatch and the server's handlers.  \<open>Mcp_Calls\<close>: what a tool asks for, a tool
  call behind the gate in front of the backend, and the size limits; \<open>Mcp_Roundtrip\<close>: what an agent uploads
  it gets back.  \<open>Frontend\<close>: paths, return path, middleware, sign-in and sign-out; \<open>Frontend_Sessions\<close>: a
  session from sign-in to sign-out with the backend; \<open>Frontend_Pages\<close>: the handlers of the pages and the
  download route; \<open>Frontend_Uploads\<close>: the upload handler in front of the backend.
  \<open>Frontend_Views\<close>: what the pages show when they are opened, and their links; \<open>Frontend_Navigation\<close>: every
  address is read back as what it was written for, and a visitor without a session returns after signing in;
  \<open>Frontend_Links\<close>: the links of a site's page with the backend at the other end.  \<open>Lifecycle\<close>: the one HTTP
  client of the frontend and of the MCP server, from start to stop.
  \<open>Request_Instances\<close>, \<open>Mcp_Instances\<close>, \<open>Frontend_Instances\<close> and \<open>Roundtrip_Instances\<close>
  apply the theorems to concrete states.

  \<^bold>\<open>Not modelled.\<close>  Message texts, titles and JSON schemas; how a page prints sizes and times; the wiring of
  FastAPI, Starlette, the MCP SDK and NiceGUI, the elements and styles of the pages, the logo and the clipboard
  script; logging; the health and version answers; the entry points, which start uvicorn; the chunking of a
  streamed download.  The digits \<open>int\<close> reads in other scripts than ASCII.
\<close>

end
